(* ===== verification/Prelude.thy ===== *)
theory Prelude
  imports "HOL-Library.List_Lexorder" "HOL-Library.Char_ord" "HOL-Library.Word"
begin

section \<open>Shared vocabulary and automation\<close>

text \<open>
  The theory collections, the decimal and quoting helpers of Go's \<open>fmt\<close> and \<open>strconv\<close>
  that several components print with, and the generic facts on lists of rows that the SQL
  statements of the store reduce to. A table is a list of rows in rowid order; an
  \<open>UPDATE ... WHERE\<close> maps over it and counts the rows its condition selects.
\<close>

type_synonym bytes = string

named_theorems frame_simps \<open>what an operation leaves unchanged\<close>
named_theorems text_order \<open>byte order of fixed-width text\<close>

subsection \<open>Decimal text\<close>

definition digit :: "nat \<Rightarrow> char" where
  "digit n = char_of (48 + n)"

lemma digit_table [simp]:
  "digit 0 = CHR ''0''" "digit (Suc 0) = CHR ''1''" "digit 1 = CHR ''1''" "digit 2 = CHR ''2''"
  "digit 3 = CHR ''3''" "digit 4 = CHR ''4''" "digit 5 = CHR ''5''" "digit 6 = CHR ''6''"
  "digit 7 = CHR ''7''" "digit 8 = CHR ''8''" "digit 9 = CHR ''9''"
  by (code_simp)+

lemma of_char_digit: "n < 10 \<Longrightarrow> of_char (digit n) = (48 + n :: nat)"
  by (simp add: digit_def)

lemma digit_less_iff: "m < 10 \<Longrightarrow> n < 10 \<Longrightarrow> digit m < digit n \<longleftrightarrow> m < n"
  by (simp add: less_char_def of_char_digit)

lemma digit_eq_iff: "m < 10 \<Longrightarrow> n < 10 \<Longrightarrow> digit m = digit n \<longleftrightarrow> m = n"
  by (metis of_char_digit add_left_cancel)

text \<open>\<open>strconv.Itoa\<close> and \<open>%d\<close> on a non-negative number.\<close>

fun dec_nat :: "nat \<Rightarrow> string" where
  "dec_nat n = (if n < 10 then [digit n] else dec_nat (n div 10) @ [digit (n mod 10)])"

declare dec_nat.simps [simp del]

lemma dec_nat_small: "n < 10 \<Longrightarrow> dec_nat n = [digit n]"
  by (subst dec_nat.simps) simp

lemma dec_nat_step: "\<not> n < 10 \<Longrightarrow> dec_nat n = dec_nat (n div 10) @ [digit (n mod 10)]"
  by (subst dec_nat.simps) simp

lemma dec_nat_nonempty: "dec_nat n \<noteq> []"
  by (subst dec_nat.simps) simp

definition is_digit :: "char \<Rightarrow> bool" where
  "is_digit c \<longleftrightarrow> CHR ''0'' \<le> c \<and> c \<le> CHR ''9''"

definition digit_val :: "char \<Rightarrow> nat" where
  "digit_val c = of_char c - 48"

lemma digit_val_digit [simp]: "n < 10 \<Longrightarrow> digit_val (digit n) = n"
  by (simp add: digit_val_def of_char_digit)

lemma is_digit_iff: "is_digit c \<longleftrightarrow> 48 \<le> (of_char c :: nat) \<and> of_char c \<le> (57 :: nat)"
  by (simp add: is_digit_def less_eq_char_def)

lemma is_digit_digit [simp]: "n < 10 \<Longrightarrow> is_digit (digit n)"
  by (simp add: is_digit_iff of_char_digit)

lemma dec_nat_digits: "c \<in> set (dec_nat n) \<Longrightarrow> is_digit c"
proof (induction n rule: dec_nat.induct)
  case (1 n)
  then show ?case
    by (cases "n < 10") (auto simp: dec_nat_small dec_nat_step)
qed

text \<open>Reading decimal text back: the accumulator of a digit loop.\<close>

definition dec_val :: "string \<Rightarrow> nat" where
  "dec_val s = foldl (\<lambda>a c. 10 * a + digit_val c) 0 s"

lemma dec_val_snoc [simp]: "dec_val (s @ [c]) = 10 * dec_val s + digit_val c"
  by (simp add: dec_val_def)

lemma dec_val_dec_nat [simp]: "dec_val (dec_nat n) = n"
proof (induction n rule: dec_nat.induct)
  case (1 n)
  show ?case
  proof (cases "n < 10")
    case True
    then show ?thesis by (simp add: dec_nat_small dec_val_def)
  next
    case False
    with 1 show ?thesis by (simp add: dec_nat_step)
  qed
qed

lemma dec_nat_inject [simp]: "dec_nat m = dec_nat n \<longleftrightarrow> m = n"
  by (metis dec_val_dec_nat)

text \<open>Exactly \<open>w\<close> decimal digits: what zero padding prints for a number below \<open>10 ^ w\<close>.\<close>

fun dig :: "nat \<Rightarrow> nat \<Rightarrow> string" where
  "dig 0 n = []"
| "dig (Suc w) n = dig w (n div 10) @ [digit (n mod 10)]"

lemma length_dig [simp]: "length (dig w n) = w"
  by (induction w arbitrary: n) auto

lemma dig_digits: "c \<in> set (dig w n) \<Longrightarrow> is_digit c"
  by (induction w arbitrary: n) auto

lemma dec_val_dig: "n < 10 ^ w \<Longrightarrow> dec_val (dig w n) = n"
proof (induction w arbitrary: n)
  case 0
  then show ?case by (simp add: dec_val_def)
next
  case (Suc w)
  then have "n div 10 < 10 ^ w" by (simp add: less_mult_imp_div_less)
  with Suc.IH show ?case by simp
qed

subsection \<open>Byte order of texts built from equal-length blocks\<close>

lemma append_less_same_length [text_order]:
  fixes a b x y :: "'a::linorder list"
  assumes "length a = length b"
  shows "a @ x < b @ y \<longleftrightarrow> a < b \<or> a = b \<and> x < y"
  using assms by (induction a b rule: list_induct2) auto

lemma dig_less_iff [text_order]:
  "m < 10 ^ w \<Longrightarrow> n < 10 ^ w \<Longrightarrow> dig w m < dig w n \<longleftrightarrow> m < n"
proof (induction w arbitrary: m n)
  case 0
  then show ?case by simp
next
  case (Suc w)
  then have *: "m div 10 < 10 ^ w" "n div 10 < 10 ^ w"
    by (simp_all add: less_mult_imp_div_less)
  have eq: "dig w (m div 10) = dig w (n div 10) \<longleftrightarrow> m div 10 = n div 10"
    using * by (metis dec_val_dig)
  have split: "m < n \<longleftrightarrow> m div 10 < n div 10 \<or> m div 10 = n div 10 \<and> m mod 10 < n mod 10"
    using div_mult_mod_eq [of m 10] div_mult_mod_eq [of n 10]
      mod_less_divisor [of 10 m] mod_less_divisor [of 10 n] by linarith
  have "dig (Suc w) m < dig (Suc w) n \<longleftrightarrow>
      dig w (m div 10) < dig w (n div 10) \<or>
      dig w (m div 10) = dig w (n div 10) \<and> [digit (m mod 10)] < [digit (n mod 10)]"
    by (simp only: dig.simps append_less_same_length length_dig)
  also have "\<dots> \<longleftrightarrow> m < n"
    by (simp only: Suc.IH [OF *] eq split) (simp add: digit_less_iff)
  finally show ?case .
qed

lemma dig_inject: "m < 10 ^ w \<Longrightarrow> n < 10 ^ w \<Longrightarrow> dig w m = dig w n \<longleftrightarrow> m = n"
  by (metis dec_val_dig)

subsection \<open>Quoting, the \<open>%q\<close> verb\<close>

definition hex_digit :: "nat \<Rightarrow> char" where
  "hex_digit n = (if n < 10 then digit n else char_of (87 + n))"

text \<open>
  \<open>strconv.Quote\<close>: the quote and the backslash get a backslash, the named control bytes their
  letter, the other ASCII control bytes a hexadecimal escape; bytes of printable text stand for
  themselves (a multi-byte character is left as it is, which is what \<open>Quote\<close> does when it is
  printable).
\<close>

definition quote_char :: "char \<Rightarrow> string" where
  "quote_char c =
     (let n = (of_char c :: nat) in
      if n = 34 \<or> n = 92 then [char_of (92::nat), c]
      else if n = 7 then [char_of (92::nat), CHR ''a'']
      else if n = 8 then [char_of (92::nat), CHR ''b'']
      else if n = 12 then [char_of (92::nat), CHR ''f'']
      else if n = 10 then [char_of (92::nat), CHR ''n'']
      else if n = 13 then [char_of (92::nat), CHR ''r'']
      else if n = 9 then [char_of (92::nat), CHR ''t'']
      else if n = 11 then [char_of (92::nat), CHR ''v'']
      else if n < 32 \<or> n = 127
        then [char_of (92::nat), CHR ''x'', hex_digit (n div 16), hex_digit (n mod 16)]
      else [c])"

definition go_quote :: "string \<Rightarrow> string" where
  "go_quote s = [char_of (34::nat)] @ concat (map quote_char s) @ [char_of (34::nat)]"

subsection \<open>Tables as lists of rows\<close>

text \<open>\<open>UPDATE table SET f WHERE p\<close>: the number of rows selected and the new table.\<close>

definition sql_update :: "('r \<Rightarrow> bool) \<Rightarrow> ('r \<Rightarrow> 'r) \<Rightarrow> 'r list \<Rightarrow> nat \<times> 'r list" where
  "sql_update p f rows = (length (filter p rows), map (\<lambda>r. if p r then f r else r) rows)"

text \<open>\<open>LIMIT n\<close>: SQLite reads a negative limit as no limit.\<close>

definition sql_limit :: "int \<Rightarrow> 'r list \<Rightarrow> 'r list" where
  "sql_limit n rows = (if n < 0 then rows else take (nat n) rows)"

definition row_at :: "('r \<Rightarrow> 'k) \<Rightarrow> 'k \<Rightarrow> 'r list \<Rightarrow> 'r option" where
  "row_at key k rows = find (\<lambda>r. key r = k) rows"

lemma row_at_Nil [simp]: "row_at key k [] = None"
  by (simp add: row_at_def)

lemma row_at_Cons [simp]:
  "row_at key k (r # rows) = (if key r = k then Some r else row_at key k rows)"
  by (simp add: row_at_def)

lemma row_at_key: "row_at key k rows = Some r \<Longrightarrow> key r = k"
  by (induction rows) (auto split: if_splits)

lemma row_at_mem: "row_at key k rows = Some r \<Longrightarrow> r \<in> set rows"
  by (induction rows) (auto split: if_splits)

lemma row_at_None_iff: "row_at key k rows = None \<longleftrightarrow> k \<notin> key ` set rows"
  by (induction rows) auto

lemma row_at_append:
  "row_at key k (rows @ more) =
     (case row_at key k rows of Some r \<Rightarrow> Some r | None \<Rightarrow> row_at key k more)"
  by (induction rows) auto

lemma row_at_map_same_key:
  "(\<And>r. key (f r) = key r) \<Longrightarrow> row_at key k (map f rows) = map_option f (row_at key k rows)"
  by (induction rows) auto

lemma row_at_filter_other:
  "(\<And>r. key r = k \<Longrightarrow> p r) \<Longrightarrow> row_at key k (filter p rows) = row_at key k rows"
  by (induction rows) auto

lemma row_at_distinct:
  "distinct (map key rows) \<Longrightarrow> r \<in> set rows \<Longrightarrow> row_at key (key r) rows = Some r"
  by (induction rows) (auto simp: rev_image_eqI)

lemma row_at_sql_update:
  "(\<And>r. key (f r) = key r) \<Longrightarrow>
   row_at key k (snd (sql_update p f rows)) =
     map_option (\<lambda>r. if p r then f r else r) (row_at key k rows)"
  by (simp add: sql_update_def row_at_map_same_key)

lemma sql_update_keys:
  "(\<And>r. key (f r) = key r) \<Longrightarrow> map key (snd (sql_update p f rows)) = map key rows"
  by (simp add: sql_update_def)

lemma sql_update_none: "fst (sql_update p f rows) = 0 \<Longrightarrow> snd (sql_update p f rows) = rows"
  by (simp add: sql_update_def filter_empty_conv map_idI)

lemma sql_update_count_pos:
  "fst (sql_update p f rows) \<noteq> 0 \<longleftrightarrow> (\<exists>r \<in> set rows. p r)"
  by (simp add: sql_update_def filter_empty_conv)

text \<open>A condition that pins the primary key selects at most one row.\<close>

lemma sql_update_key_count:
  assumes "distinct (map key rows)" and "\<And>r. p r \<Longrightarrow> key r = k"
  shows "fst (sql_update p f rows) =
           (case row_at key k rows of Some r \<Rightarrow> if p r then 1 else 0 | None \<Rightarrow> 0)"
  using assms(1)
proof (induction rows)
  case Nil
  then show ?case by (simp add: sql_update_def)
next
  case (Cons r rows)
  have none: "filter p rows = []" if k: "key r = k"
  proof -
    have "\<not> p x" if "x \<in> set rows" for x
      using that k Cons.prems assms(2) [of x] by (auto simp: rev_image_eqI)
    then show ?thesis by (simp add: filter_empty_conv)
  qed
  with Cons show ?case
    using assms(2) [of r] by (auto simp: sql_update_def)
qed

lemma sql_limit_subset: "set (sql_limit n rows) \<subseteq> set rows"
  by (auto simp: sql_limit_def dest: in_set_takeD)

lemma length_sql_limit: "0 \<le> n \<Longrightarrow> int (length (sql_limit n rows)) \<le> n"
  by (simp add: sql_limit_def)

subsection \<open>Running a list of operations\<close>

fun run_ops :: "('s \<Rightarrow> 'r \<times> 's) list \<Rightarrow> 's \<Rightarrow> 'r list \<times> 's" where
  "run_ops [] s = ([], s)"
| "run_ops (f # fs) s =
     (let (r, s') = f s; (rs, s'') = run_ops fs s' in (r # rs, s''))"


lemma run_ops_Cons:
  "fst (run_ops (f # fs) s) = fst (f s) # fst (run_ops fs (snd (f s)))"
  "snd (run_ops (f # fs) s) = snd (run_ops fs (snd (f s)))"
  by (simp_all add: Let_def split: prod.splits)

declare run_ops.simps(2) [simp del] run_ops_Cons [simp]

lemma length_run_ops [simp]: "length (fst (run_ops fs s)) = length fs"
  by (induction fs arbitrary: s) simp_all

text \<open>An operation keeps a predicate of the state.\<close>

definition preserves :: "('s \<Rightarrow> bool) \<Rightarrow> ('s \<Rightarrow> 'r \<times> 's) \<Rightarrow> bool" where
  "preserves P f \<longleftrightarrow> (\<forall>s. P s \<longrightarrow> P (snd (f s)))"

lemma preservesI: "(\<And>s. P s \<Longrightarrow> P (snd (f s))) \<Longrightarrow> preserves P f"
  by (simp add: preserves_def)

lemma preservesD: "preserves P f \<Longrightarrow> P s \<Longrightarrow> P (snd (f s))"
  by (simp add: preserves_def)

named_theorems preserving \<open>operations that keep an invariant\<close>

end
