(* ===== verification/TimeText.thy ===== *)
theory TimeText
  imports Prelude
begin

section \<open>Instants and the text the store keeps of them\<close>

text \<open>
  A \<open>time.Time\<close> in UTC is the number of nanoseconds since Go's zero time, January 1, year 1,
  00:00:00 (\<open>IsZero\<close> is \<open>0\<close>). The store writes instants with \<open>formatTime\<close> of
  \<^verbatim>\<open>sqlite/sqlite.go\<close>, that is \<open>t.UTC().Format(time.RFC3339Nano)\<close> and \<open>''''\<close> for the
  zero time, compares the texts byte by byte in SQL, and reads them back with \<open>time.Parse\<close>.
  This theory defines the calendar arithmetic of the formatter, the formatter and the parser, and
  shows when the byte order of the texts is the order of the instants: always when they lie in
  different seconds, and not always within one second, because \<open>RFC3339Nano\<close> drops the trailing
  zeros of the fraction.
\<close>

type_synonym time = int

definition zeroTime :: time where
  "zeroTime = 0"

definition ns_per_sec :: int where
  "ns_per_sec = 1000000000"

text \<open>The instants the four-digit year can express: years 1 to 9999.\<close>

definition valid_time :: "time \<Rightarrow> bool" where
  "valid_time t \<longleftrightarrow> 0 \<le> t \<and> t < 3652059 * 86400 * ns_per_sec"

subsection \<open>Calendar arithmetic\<close>

definition leap_year :: "int \<Rightarrow> bool" where
  "leap_year y \<longleftrightarrow> y mod 4 = 0 \<and> (y mod 100 \<noteq> 0 \<or> y mod 400 = 0)"

text \<open>Days from January 1, year 1 to January 1 of the given year.\<close>

definition days_before :: "int \<Rightarrow> int" where
  "days_before y = (let p = y - 1 in 365 * p + p div 4 - p div 100 + p div 400)"

text \<open>Year and day of the year (from 0) of a day number: whole 400-year cycles, then centuries,
  4-year cycles and years, the last of each cut off at the leap day.\<close>

definition year_yday :: "int \<Rightarrow> int \<times> int" where
  "year_yday n =
     (let a = n div 146097; r = n mod 146097;
          b = min 3 (r div 36524); r = r - 36524 * b;
          c = r div 1461; r = r mod 1461;
          d = min 3 (r div 365)
      in (400 * a + 100 * b + 4 * c + d + 1, r - 365 * d))"

definition month_lengths :: "int \<Rightarrow> int list" where
  "month_lengths y = [31, if leap_year y then 29 else 28, 31, 30, 31, 30, 31, 31, 30, 31, 30, 31]"

fun month_day :: "int list \<Rightarrow> int \<Rightarrow> int \<Rightarrow> int \<times> int" where
  "month_day [] m yd = (m, yd + 1)"
| "month_day (l # ls) m yd =
     (if yd < l \<or> ls = [] then (m, yd + 1) else month_day ls (m + 1) (yd - l))"

definition civil :: "int \<Rightarrow> int \<times> int \<times> int" where
  "civil n = (let (y, yd) = year_yday n; (m, d) = month_day (month_lengths y) 1 yd in (y, m, d))"

lemma days_before_decompose:
  assumes "0 \<le> b" "b \<le> 3" "0 \<le> c" "c \<le> 24" "0 \<le> d" "d \<le> (3::int)"
  shows "days_before (400 * a + 100 * b + 4 * c + d + 1) =
           146097 * a + 36524 * b + 1461 * c + 365 * d"
proof -
  let ?p = "400 * a + 100 * b + 4 * c + d"
  have 1: "?p div 4 = 100 * a + 25 * b + c"
    by (rule int_div_pos_eq [where r = d]) (use assms in simp_all)
  have 2: "?p div 100 = 4 * a + b"
    by (rule int_div_pos_eq [where r = "4 * c + d"]) (use assms in simp_all)
  have 3: "?p div 400 = a"
    by (rule int_div_pos_eq [where r = "100 * b + 4 * c + d"]) (use assms in simp_all)
  show ?thesis
    by (simp add: days_before_def Let_def 1 2 3)
qed

lemma year_yday_props:
  assumes "year_yday n = (y, yd)"
  shows "days_before y + yd = n" and "0 \<le> yd" and "yd < (if leap_year y then 366 else 365)"
proof -
  define a r where "a = n div 146097" and "r = n mod 146097"
  define b where "b = min 3 (r div 36524)"
  define r1 where "r1 = r - 36524 * b"
  define c r2 where "c = r1 div 1461" and "r2 = r1 mod 1461"
  define d where "d = min 3 (r2 div 365)"
  have "(400 * a + 100 * b + 4 * c + d + 1, r2 - 365 * d) = (y, yd)"
    unfolding d_def r2_def c_def r1_def b_def r_def a_def
    by (rule assms [unfolded year_yday_def Let_def])
  then have y: "y = 400 * a + 100 * b + 4 * c + d + 1" and yd: "yd = r2 - 365 * d"
    by simp_all
  have n: "n = 146097 * a + r" and r: "0 \<le> r" "r < 146097"
    by (simp_all add: a_def r_def)
  have b: "0 \<le> b" "b \<le> 3" and r1: "0 \<le> r1" "r1 \<le> 36524" "b < 3 \<Longrightarrow> r1 < 36524"
    using r by (auto simp: b_def r1_def min_def)
  have r1': "r1 = 1461 * c + r2" and r2: "0 \<le> r2" "r2 < 1461"
    by (simp_all add: c_def r2_def)
  have c: "0 \<le> c" "c \<le> 24"
    using r1 r1' r2 by linarith+
  have d: "0 \<le> d" "d \<le> 3" and yd0: "0 \<le> yd" "yd \<le> 365" "d < 3 \<Longrightarrow> yd < 365"
    using r2 by (auto simp: d_def yd min_def)
  show "days_before y + yd = n"
    using days_before_decompose [OF b c d, of a] r1_def r1' n y yd by simp
  show "0 \<le> yd" by (rule yd0)
  show "yd < (if leap_year y then 366 else 365)"
  proof (cases "d = 3 \<and> yd = 365")
    case True
    have "y = 4 * (100 * a + 25 * b + c + 1)"
      using True y by simp
    then have m4: "y mod 4 = 0" by simp
    have "y mod 400 = 0" if y100: "y mod 100 = 0"
    proof -
      have "y = (4 * c + 4) + 100 * (4 * a + b)"
        using True y by simp
      then have "(4 * c + 4) mod 100 = 0"
        using y100 by (metis mod_mult_self2)
      then have c24: "c = 24"
        using c by (cases "4 * c + 4 < 100") simp_all
      have "r2 = 1460"
        using True yd by simp
      then have "r1 = 36524"
        using r1' c24 by simp
      then have "b = 3"
        using r1 b by force
      then have "y = 400 * (a + 1)"
        using c24 True y by simp
      then show ?thesis by simp
    qed
    then have "leap_year y"
      using m4 by (auto simp: leap_year_def)
    with yd0 show ?thesis by simp
  next
    case False
    with d yd0 show ?thesis by force
  qed
qed

lemma days_before_Suc: "days_before (y + 1) = days_before y + (if leap_year y then 366 else 365)"
proof -
  have step: "y div k = (y - 1) div k + (if y mod k = 0 then 1 else 0)" if "0 < k" for k :: int
  proof (cases "y mod k = 0")
    case True
    then obtain q where "y = k * q" by (auto simp: mod_eq_0_iff_dvd)
    moreover have "(k * q - 1) div k = q - 1"
      using that by (intro int_div_pos_eq [where r = "k - 1"]) (auto simp: algebra_simps)
    ultimately show ?thesis using that by simp
  next
    case False
    then have "0 < y mod k" using that by (simp add: order_less_le)
    then have "(y - 1) div k = y div k"
      using that pos_mod_bound [OF that, of y]
      by (intro int_div_pos_eq [where r = "y mod k - 1"]) (auto simp: algebra_simps)
    with False show ?thesis by simp
  qed
  have y4: "y mod 4 = 0" if "y mod 100 = 0"
    using that mod_mod_cancel [of 4 100 y] by simp
  have y100: "y mod 100 = 0" if "y mod 400 = 0"
    using that mod_mod_cancel [of 100 400 y] by simp
  have gen: "d + 365 + (if A then 1 else 0) - (if B then 1 else 0) + (if C then 1 else 0)
      = d + (if A \<and> (\<not> B \<or> C) then 366 else (365::int))"
    if "C \<Longrightarrow> B" and "B \<Longrightarrow> A" for A B C d
    using that by (cases A; cases B; cases C) simp_all
  define P where "P k = (y - 1) div k" for k
  define Q where "Q k = y div k" for k
  define M where "M k = (if y mod k = 0 then 1 else 0 :: int)" for k
  have steps: "Q 4 = P 4 + M 4" "Q 100 = P 100 + M 100" "Q 400 = P 400 + M 400"
    unfolding P_def Q_def M_def by (rule step; simp)+
  have "days_before (y + 1) = 365 * y + Q 4 - Q 100 + Q 400"
    unfolding days_before_def Let_def Q_def by (simp only: add_diff_cancel_right')
  moreover have "days_before y = 365 * (y - 1) + P 4 - P 100 + P 400"
    unfolding days_before_def Let_def P_def by (rule refl)
  ultimately have "days_before (y + 1) = days_before y + 365 + M 4 - M 100 + M 400"
    by (simp add: steps)
  also have "\<dots> = days_before y + (if leap_year y then 366 else 365)"
    unfolding leap_year_def M_def by (rule gen [OF y100 y4])
  finally show ?thesis .
qed

lemma days_before_mono: "x \<le> y \<Longrightarrow> days_before x \<le> days_before y"
  by (induction rule: int_ge_induct) (auto simp: days_before_Suc)

lemma year_of_range:
  assumes "days_before y \<le> n" and "n < days_before (y + 1)"
  shows "fst (year_yday n) = y"
proof -
  obtain z yd where z: "year_yday n = (z, yd)" by (cases "year_yday n")
  have "days_before z \<le> n" "n < days_before (z + 1)"
    using year_yday_props [OF z] by (auto simp: days_before_Suc)
  then have "\<not> z + 1 \<le> y" "\<not> y + 1 \<le> z"
    using assms days_before_mono [of "z + 1" y] days_before_mono [of "y + 1" z] by auto
  then show ?thesis by (simp add: z)
qed

lemma month_day_props:
  assumes "month_day ls m yd = (m', d)" and "0 \<le> yd" and "yd < sum_list ls"
    and "list_all (\<lambda>l. 28 \<le> l \<and> l \<le> 31) ls"
  shows "\<exists>k < length ls. m' = m + int k \<and> 1 \<le> d \<and> d \<le> ls ! k
           \<and> sum_list (take k ls) + d - 1 = yd"
  using assms
proof (induction ls m yd rule: month_day.induct)
  case (1 m yd)
  then show ?case by simp
next
  case (2 l ls m yd)
  show ?case
  proof (cases "yd < l \<or> ls = []")
    case True
    with 2 show ?thesis by (intro exI [of _ 0]) auto
  next
    case False
    with 2 obtain k where "k < length ls" "m' = m + 1 + int k" "1 \<le> d" "d \<le> ls ! k"
        "sum_list (take k ls) + d - 1 = yd - l"
      by auto
    then show ?thesis by (intro exI [of _ "Suc k"]) auto
  qed
qed

lemma month_lengths_sum: "sum_list (month_lengths y) = (if leap_year y then 366 else 365)"
  by (simp add: month_lengths_def)

lemma month_lengths_range: "list_all (\<lambda>l. 28 \<le> l \<and> l \<le> 31) (month_lengths y)"
  by (simp add: month_lengths_def)

lemma length_month_lengths [simp]: "length (month_lengths y) = 12"
  by (simp add: month_lengths_def)

lemma civil_props:
  assumes "civil n = (y, m, d)"
  obtains yd where "year_yday n = (y, yd)" "month_day (month_lengths y) 1 yd = (m, d)"
    "1 \<le> m" "m \<le> 12" "1 \<le> d" "d \<le> month_lengths y ! nat (m - 1)" "d \<le> 31"
    "days_before y + sum_list (take (nat (m - 1)) (month_lengths y)) + d - 1 = n"
proof -
  obtain yd where yd: "year_yday n = (y, yd)" and md: "month_day (month_lengths y) 1 yd = (m, d)"
    using assms by (auto simp: civil_def Let_def split: prod.splits)
  note p = year_yday_props [OF yd]
  obtain k where k: "k < 12" "m = 1 + int k" "1 \<le> d" "d \<le> month_lengths y ! k"
      "sum_list (take k (month_lengths y)) + d - 1 = yd"
    using month_day_props [OF md p(2)] p(3) month_lengths_range [of y]
    by (auto simp: month_lengths_sum)
  moreover have "month_lengths y ! k \<le> 31"
    using month_lengths_range [of y] k(1) by (simp add: list_all_length)
  ultimately show ?thesis
    using that [OF yd md] p(1) by simp
qed

text \<open>The calendar date is monotone in the day number, in the lexicographic order.\<close>

lemma month_day_mono:
  assumes "yd < yd'" "month_day ls k yd = (m, d)" "month_day ls k yd' = (m', d')"
  shows "m < m' \<or> m = m' \<and> d < d'"
  using assms
proof (induction ls k yd arbitrary: yd' rule: month_day.induct)
  case (1 m yd)
  then show ?case by auto
next
  case (2 l ls k yd)
  have ge: "k \<le> fst (month_day ls k yd)" for ls k yd
    by (induction ls k yd rule: month_day.induct) auto
  show ?case
  proof (cases "yd < l \<or> ls = []")
    case True
    then have md: "m = k" "d = yd + 1" using "2.prems" by auto
    show ?thesis
    proof (cases "yd' < l \<or> ls = []")
      case True
      with md "2.prems" show ?thesis by auto
    next
      case False
      with "2.prems" have "month_day ls (k + 1) (yd' - l) = (m', d')" by simp
      with ge [of "k + 1" ls "yd' - l"] md show ?thesis by simp
    qed
  next
    case False
    with "2.prems" have "\<not> (yd' < l \<or> ls = [])" by auto
    with False "2.prems" show ?thesis
      by (intro "2.IH" [of "yd' - l"]) simp_all
  qed
qed

lemma civil_strict_mono:
  assumes "n < n'" and c: "civil n = (y, m, d)" and c': "civil n' = (y', m', d')"
  shows "y < y' \<or> y = y' \<and> (m < m' \<or> m = m' \<and> d < d')"
proof -
  obtain yd where yd: "year_yday n = (y, yd)" "month_day (month_lengths y) 1 yd = (m, d)"
    using c by (rule civil_props)
  obtain yd' where yd': "year_yday n' = (y', yd')" "month_day (month_lengths y') 1 yd' = (m', d')"
    using c' by (rule civil_props)
  note p = year_yday_props [OF yd(1)] and p' = year_yday_props [OF yd'(1)]
  have "y \<le> y'"
  proof (rule ccontr)
    assume "\<not> y \<le> y'"
    then have "days_before (y' + 1) \<le> days_before y" by (intro days_before_mono) simp
    with p p' assms(1) show False by (simp add: days_before_Suc)
  qed
  moreover have "m < m' \<or> m = m' \<and> d < d'" if "y = y'"
  proof -
    have "yd < yd'" using p(1) p'(1) assms(1) that by simp
    from month_day_mono [OF this yd(2)] yd'(2) that show ?thesis by simp
  qed
  ultimately show ?thesis by auto
qed

subsection \<open>The formatter\<close>

text \<open>
  \<open>appendInt\<close> of Go's formatter: a sign when negative, then at least \<open>w\<close> digits.
\<close>

definition appendInt :: "int \<Rightarrow> nat \<Rightarrow> string" where
  "appendInt x w =
     (let s = dec_nat (nat \<bar>x\<bar>) in
      (if x < 0 then ''-'' else '''') @ replicate (w - length s) (CHR ''0'') @ s)"

definition day_no :: "time \<Rightarrow> int" where
  "day_no t = t div ns_per_sec div 86400"

definition sec_of_day :: "time \<Rightarrow> int" where
  "sec_of_day t = t div ns_per_sec mod 86400"

definition nsec :: "time \<Rightarrow> int" where
  "nsec t = t mod ns_per_sec"

definition hourOf :: "int \<Rightarrow> int" where
  "hourOf s = s div 3600"

definition minuteOf :: "int \<Rightarrow> int" where
  "minuteOf s = s mod 3600 div 60"

definition secondOf :: "int \<Rightarrow> int" where
  "secondOf s = s mod 60"

definition stamp :: "time \<Rightarrow> string" where
  "stamp t =
     (let (y, m, d) = civil (day_no t); s = sec_of_day t in
      appendInt y 4 @ ''-'' @ appendInt m 2 @ ''-'' @ appendInt d 2 @ ''T'' @
      appendInt (hourOf s) 2 @ '':'' @ appendInt (minuteOf s) 2 @ '':'' @
      appendInt (secondOf s) 2)"

definition strip_zeros :: "string \<Rightarrow> string" where
  "strip_zeros s = rev (dropWhile (\<lambda>c. c = CHR ''0'') (rev s))"

text \<open>The \<open>.999999999\<close> fraction of the layout: nine digits without the trailing zeros, and
  nothing at all for a whole second.\<close>

definition frac :: "int \<Rightarrow> string" where
  "frac n = (let s = strip_zeros (appendInt n 9) in if s = '''' then '''' else CHR ''.'' # s)"

definition rfc3339 :: "time \<Rightarrow> string" where
  "rfc3339 t = stamp t @ ''Z''"

definition rfc3339nano :: "time \<Rightarrow> string" where
  "rfc3339nano t = stamp t @ frac (nsec t) @ ''Z''"

definition formatTime :: "time \<Rightarrow> string" where
  "formatTime t = (if t = zeroTime then '''' else rfc3339nano t)"

text \<open>Below \<open>10 ^ w\<close> the number takes exactly \<open>w\<close> digits.\<close>

lemma dig_zero: "dig v 0 = replicate v (CHR ''0'')"
  by (induction v) (simp_all add: replicate_append_same)

lemma replicate_dec_nat:
  "n < 10 ^ w \<Longrightarrow> 0 < w \<Longrightarrow>
   replicate (w - length (dec_nat n)) (CHR ''0'') @ dec_nat n = dig w n
   \<and> length (dec_nat n) \<le> w"
proof (induction n arbitrary: w rule: dec_nat.induct)
  case (1 n)
  obtain v where v: "w = Suc v" using "1.prems" by (cases w) auto
  show ?case
  proof (cases "n < 10")
    case True
    then show ?thesis by (simp add: v dec_nat_small dig_zero)
  next
    case False
    then have "n div 10 < 10 ^ v" "0 < v"
      using "1.prems" v by (auto simp: less_mult_imp_div_less intro: gr0I)
    with "1.IH" [OF False] have
      "replicate (v - length (dec_nat (n div 10))) (CHR ''0'') @ dec_nat (n div 10) = dig v (n div 10)"
      "length (dec_nat (n div 10)) \<le> v"
      by blast+
    then show ?thesis
      by (simp add: v dec_nat_step [OF False] Suc_diff_le flip: append_assoc)
  qed
qed

lemma appendInt_dig:
  "0 \<le> x \<Longrightarrow> x < 10 ^ w \<Longrightarrow> 0 < w \<Longrightarrow> appendInt x w = dig w (nat x)"
  using replicate_dec_nat [of "nat x" w] by (simp add: appendInt_def nat_less_iff)

lemma time_split:
  "t = (day_no t * 86400 + sec_of_day t) * ns_per_sec + nsec t"
  by (simp add: day_no_def sec_of_day_def nsec_def)

lemma sec_of_day_range [simp]: "0 \<le> sec_of_day t" "sec_of_day t < 86400"
  by (simp_all add: sec_of_day_def)

lemma nsec_range [simp]: "0 \<le> nsec t" "nsec t < ns_per_sec" "nsec t < 1000000000"
  by (simp_all add: nsec_def ns_per_sec_def)

lemma valid_time_day: "valid_time t \<Longrightarrow> 0 \<le> day_no t \<and> day_no t < 3652059"
  by (auto simp: valid_time_def day_no_def ns_per_sec_def)

lemma valid_year:
  assumes "valid_time t" and "civil (day_no t) = (y, m, d)"
  shows "1 \<le> y" and "y \<le> 9999"
proof -
  obtain yd where yd: "year_yday (day_no t) = (y, yd)"
    using assms(2) by (rule civil_props)
  note p = year_yday_props [OF yd] and r = valid_time_day [OF assms(1)]
  have e: "days_before 1 = 0" "days_before 10000 = 3652059"
    by (simp_all add: days_before_def)
  show "1 \<le> y"
  proof (rule ccontr)
    assume "\<not> 1 \<le> y"
    then have "days_before (y + 1) \<le> 0" using days_before_mono [of "y + 1" 1] e by simp
    with p r show False by (simp add: days_before_Suc)
  qed
  show "y \<le> 9999"
  proof (rule ccontr)
    assume "\<not> y \<le> 9999"
    then have "3652059 \<le> days_before y" using days_before_mono [of 10000 y] e by simp
    with p r show False by simp
  qed
qed

subsection \<open>Byte order against time order\<close>

lemma hms_range [simp]:
  "0 \<le> s \<Longrightarrow> 0 \<le> hourOf s" "0 \<le> s \<Longrightarrow> s < 86400 \<Longrightarrow> hourOf s < 24"
  "0 \<le> minuteOf s" "minuteOf s < 60" "0 \<le> secondOf s" "secondOf s < 60"
  using zdiv_mono1 [of s 86399 3600] zdiv_mono1 [of "s mod 3600" 3599 60]
    pos_mod_bound [of 3600 s]
  by (simp_all add: hourOf_def minuteOf_def secondOf_def pos_imp_zdiv_nonneg_iff)

lemma hms_below_100 [simp]:
  "hourOf (sec_of_day t) < 100" "minuteOf s < 100" "secondOf s < 100"
  using hms_range(2) [of "sec_of_day t"] hms_range(4,6) [of s] sec_of_day_range [of t]
  by linarith+

lemma div_mod_less_iff:
  assumes "0 < k"
  shows "x < y \<longleftrightarrow> x div k < y div k \<or> x div k = y div k \<and> x mod k < y mod (k :: int)"
proof (cases "x div k = y div k")
  case True
  have "x = y div k * k + x mod k" "y = y div k * k + y mod k"
    using True by (metis div_mult_mod_eq)+
  with True show ?thesis by linarith
next
  case False
  show ?thesis
    using False zdiv_mono1 [of x y k] zdiv_mono1 [of y x k] assms by linarith
qed

lemma hms_less_iff:
  "a < b \<longleftrightarrow> hourOf a < hourOf b \<or> hourOf a = hourOf b \<and>
    (minuteOf a < minuteOf b \<or> minuteOf a = minuteOf b \<and> secondOf a < secondOf b)"
proof -
  have "x mod 3600 mod 60 = x mod 60" for x :: int
    by (simp add: mod_mod_cancel)
  then show ?thesis
    unfolding hourOf_def minuteOf_def secondOf_def
    by (metis div_mod_less_iff zero_less_numeral)
qed

definition fields :: "nat \<Rightarrow> nat \<Rightarrow> nat \<Rightarrow> nat \<Rightarrow> nat \<Rightarrow> nat \<Rightarrow> string" where
  "fields a b c e f g =
     dig 4 a @ ''-'' @ dig 2 b @ ''-'' @ dig 2 c @ ''T'' @ dig 2 e @ '':'' @ dig 2 f @ '':'' @ dig 2 g"

lemma stamp_fields:
  assumes "valid_time t" and "civil (day_no t) = (y, m, d)"
  shows "stamp t = fields (nat y) (nat m) (nat d) (nat (hourOf (sec_of_day t)))
           (nat (minuteOf (sec_of_day t))) (nat (secondOf (sec_of_day t)))"
    and "1 \<le> y" "y < 10 ^ 4" "1 \<le> m" "m < 10 ^ 2" "1 \<le> d" "d < 10 ^ 2"
proof -
  have "1 \<le> m" "m \<le> 12" "1 \<le> d" "d \<le> 31"
    using assms(2) by (auto elim: civil_props)
  then show r: "1 \<le> y" "y < 10 ^ 4" "1 \<le> m" "m < 10 ^ 2" "1 \<le> d" "d < 10 ^ 2"
    using valid_year [OF assms] by simp_all
  have "hourOf (sec_of_day t) < 10 ^ 2" "minuteOf (sec_of_day t) < 10 ^ 2"
    "secondOf (sec_of_day t) < 10 ^ 2"
    by simp_all
  with r show "stamp t = fields (nat y) (nat m) (nat d) (nat (hourOf (sec_of_day t)))
           (nat (minuteOf (sec_of_day t))) (nat (secondOf (sec_of_day t)))"
    using assms(2) by (simp add: stamp_def fields_def appendInt_dig Let_def)
qed

lemma length_stamp [simp]: "valid_time t \<Longrightarrow> length (stamp t) = 19"
  by (cases "civil (day_no t)") (simp add: stamp_fields(1) fields_def)

lemma fields_less:
  assumes "a < 10 ^ 4" "b < 10 ^ 2" "c < 10 ^ 2" "e < 10 ^ 2" "f < 10 ^ 2" "g < 10 ^ 2"
    and "a' < 10 ^ 4" "b' < 10 ^ 2" "c' < 10 ^ 2" "e' < 10 ^ 2" "f' < 10 ^ 2" "g' < 10 ^ 2"
  shows "fields a b c e f g < fields a' b' c' e' f' g'
    \<longleftrightarrow> a < a' \<or> a = a' \<and> (b < b' \<or> b = b' \<and> (c < c' \<or> c = c' \<and>
          (e < e' \<or> e = e' \<and> (f < f' \<or> f = f' \<and> g < g'))))"
  by (simp only: fields_def append_less_same_length length_dig dig_less_iff [OF assms(1,7)]
      dig_less_iff [OF assms(2,8)] dig_less_iff [OF assms(3,9)] dig_less_iff [OF assms(4,10)]
      dig_less_iff [OF assms(5,11)] dig_less_iff [OF assms(6,12)]
      dig_inject [OF assms(1,7)] dig_inject [OF assms(2,8)] dig_inject [OF assms(3,9)]
      dig_inject [OF assms(4,10)] dig_inject [OF assms(5,11)] append.simps Cons_less_Cons
      less_irrefl simp_thms)

lemma stamp_strict_mono:
  assumes v: "valid_time t" "valid_time t'" and lt: "t div ns_per_sec < t' div ns_per_sec"
  shows "stamp t < stamp t'"
proof -
  obtain y m d where c: "civil (day_no t) = (y, m, d)" by (cases "civil (day_no t)")
  obtain y' m' d' where c': "civil (day_no t') = (y', m', d')" by (cases "civil (day_no t')")
  note s = stamp_fields [OF v(1) c] and s' = stamp_fields [OF v(2) c']
  have hms: "nat (hourOf (sec_of_day u)) < 10 ^ 2" "nat (minuteOf (sec_of_day u)) < 10 ^ 2"
    "nat (secondOf (sec_of_day u)) < 10 ^ 2" for u
    by (simp_all add: nat_less_iff)
  have ymd: "nat y < 10 ^ 4" "nat m < 10 ^ 2" "nat d < 10 ^ 2"
    "nat y' < 10 ^ 4" "nat m' < 10 ^ 2" "nat d' < 10 ^ 2"
    using s(2-) s'(2-) by (simp_all add: nat_less_iff)
  note less = fields_less [OF ymd(1-3) hms ymd(4-6) hms]
  have "day_no t < day_no t' \<or> day_no t = day_no t' \<and> sec_of_day t < sec_of_day t'"
    using lt div_mod_less_iff [of 86400 "t div ns_per_sec" "t' div ns_per_sec"]
    by (simp add: day_no_def sec_of_day_def)
  then consider "day_no t < day_no t'"
    | "day_no t = day_no t'" "sec_of_day t < sec_of_day t'"
    by blast
  then show ?thesis
  proof cases
    case 1
    then have "y < y' \<or> y = y' \<and> (m < m' \<or> m = m' \<and> d < d')"
      by (rule civil_strict_mono [OF _ c c'])
    then have "nat y < nat y' \<or> nat y = nat y' \<and>
        (nat m < nat m' \<or> nat m = nat m' \<and> nat d < nat d')"
      using s(2,4,6) s'(2,4,6) by auto
    then show ?thesis
      unfolding s(1) s'(1) less by blast
  next
    case 2
    then have eq: "y' = y" "m' = m" "d' = d" using c c' by auto
    have "nat a < nat b \<longleftrightarrow> a < b" "nat a = nat b \<longleftrightarrow> a = b" if "0 \<le> a" "0 \<le> b" for a b
      using that by auto
    then show ?thesis
      using 2(2) hms_range [of "sec_of_day t"] hms_range [of "sec_of_day t'"]
      unfolding s(1) s'(1) less by (simp add: eq hms_less_iff [of "sec_of_day t"])
  qed
qed

lemma stamp_same_second: "t div ns_per_sec = t' div ns_per_sec \<Longrightarrow> stamp t = stamp t'"
  by (simp add: stamp_def day_no_def sec_of_day_def)

lemma rfc3339nano_mono_second:
  assumes "valid_time t" "valid_time t'" and "t div ns_per_sec < t' div ns_per_sec"
  shows "rfc3339nano t < rfc3339nano t'"
  using stamp_strict_mono [OF assms] assms(1,2)
  by (simp add: rfc3339nano_def append_less_same_length)

text \<open>What the SQL comparison \<open>retry_after <= now\<close> decides, up to one second.\<close>

lemma text_le_bound:
  assumes "valid_time r" "valid_time n" and "rfc3339nano r \<le> rfc3339nano n"
  shows "r < n + ns_per_sec"
proof -
  have "r div ns_per_sec \<le> n div ns_per_sec"
    using rfc3339nano_mono_second [of n r] assms by (meson leD not_le)
  then show ?thesis
    unfolding ns_per_sec_def by linarith
qed

lemma text_le_after_a_second:
  assumes "valid_time r" "valid_time n" and "r + ns_per_sec \<le> n"
  shows "rfc3339nano r \<le> rfc3339nano n"
proof -
  have "r div ns_per_sec < n div ns_per_sec"
    using assms(3) unfolding ns_per_sec_def by linarith
  then show ?thesis
    using rfc3339nano_mono_second [of r n] assms by simp
qed

lemma frac_zero [simp]: "frac 0 = ''''"
  by code_simp

lemma text_le_whole_seconds:
  assumes "valid_time r" "valid_time n" and "nsec r = 0" "nsec n = 0"
  shows "rfc3339nano r \<le> rfc3339nano n \<longleftrightarrow> r \<le> n"
proof (cases "r div ns_per_sec" "n div ns_per_sec" rule: linorder_cases)
  case less
  then have "r < n" by (metis zdiv_mono1 not_le leD ns_per_sec_def zero_less_numeral)
  with rfc3339nano_mono_second [OF assms(1,2) less] show ?thesis by simp
next
  case equal
  then have "r = n" using assms(3,4) by (metis nsec_def div_mult_mod_eq)
  then show ?thesis by simp
next
  case greater
  then have "n < r" by (metis zdiv_mono1 not_le leD ns_per_sec_def zero_less_numeral)
  with rfc3339nano_mono_second [OF assms(2,1) greater] show ?thesis by simp
qed

subsection \<open>The parser\<close>

definition substr :: "string \<Rightarrow> nat \<Rightarrow> nat \<Rightarrow> string" where
  "substr s i j = take (j - i) (drop i s)"

definition char_at :: "string \<Rightarrow> nat \<Rightarrow> char option" where
  "char_at s i = (if i < length s then Some (s ! i) else None)"

text \<open>\<open>parseUint\<close> of Go's RFC 3339 fast path: every byte a digit, the value within bounds.\<close>

definition parseUint :: "string \<Rightarrow> nat \<Rightarrow> nat \<Rightarrow> nat option" where
  "parseUint s lo hi =
     (if list_all is_digit s \<and> lo \<le> dec_val s \<and> dec_val s \<le> hi then Some (dec_val s) else None)"

text \<open>The fraction, if one starts here: at most nine digits count, all of them are consumed.\<close>

definition parse_frac :: "string \<Rightarrow> int \<times> string" where
  "parse_frac s =
     (if 2 \<le> length s \<and> s ! 0 = CHR ''.'' \<and> is_digit (s ! 1)
      then let ds = takeWhile is_digit (tl s); ds9 = take 9 ds
           in (int (dec_val ds9) * 10 ^ (9 - length ds9), dropWhile is_digit (tl s))
      else (0, s))"

text \<open>The zone in seconds east of UTC: \<open>Z\<close> or \<open>+hh:mm\<close>.\<close>

definition parse_zone :: "string \<Rightarrow> int option" where
  "parse_zone s =
     (if s = ''Z'' then Some 0
      else if length s \<noteq> 6 \<or> (s ! 0 \<noteq> CHR ''+'' \<and> s ! 0 \<noteq> CHR ''-'') \<or> s ! 3 \<noteq> CHR '':'' then None
      else case (parseUint (substr s 1 3) 0 23, parseUint (substr s 4 6) 0 59) of
             (Some h, Some m) \<Rightarrow>
               Some ((if s ! 0 = CHR ''-'' then -1 else 1) * (int h * 60 + int m) * 60)
           | _ \<Rightarrow> None)"

definition date_of :: "int \<Rightarrow> int \<Rightarrow> int \<Rightarrow> int \<Rightarrow> int \<Rightarrow> int \<Rightarrow> int \<Rightarrow> time" where
  "date_of y m d h mi sec ns =
     ((days_before y + sum_list (take (nat (m - 1)) (month_lengths y)) + d - 1) * 86400
      + h * 3600 + mi * 60 + sec) * ns_per_sec + ns"

definition parseTime :: "string \<Rightarrow> time option" where
  "parseTime s =
     (if length s < 19 then None
      else case (parseUint (substr s 0 4) 0 9999, parseUint (substr s 5 7) 1 12) of
        (Some y, Some m) \<Rightarrow>
          (case (parseUint (substr s 8 10) 1 (nat (month_lengths (int y) ! (m - 1))),
                 parseUint (substr s 11 13) 0 23, parseUint (substr s 14 16) 0 59,
                 parseUint (substr s 17 19) 0 59) of
             (Some d, Some h, Some mi, Some sec) \<Rightarrow>
               if s ! 4 = CHR ''-'' \<and> s ! 7 = CHR ''-'' \<and> s ! 10 = CHR ''T'' \<and>
                  s ! 13 = CHR '':'' \<and> s ! 16 = CHR '':''
               then let (ns, rest) = parse_frac (drop 19 s) in
                    map_option (\<lambda>z. date_of (int y) (int m) (int d) (int h) (int mi) (int sec) ns
                                      - z * ns_per_sec) (parse_zone rest)
               else None
           | _ \<Rightarrow> None)
      | _ \<Rightarrow> None)"

lemma parseUint_dig:
  "n < 10 ^ w \<Longrightarrow> lo \<le> n \<Longrightarrow> n \<le> hi \<Longrightarrow> parseUint (dig w n) lo hi = Some n"
  by (auto simp: parseUint_def dec_val_dig list_all_iff dig_digits)

lemma strip_zeros_append:
  "\<exists>k. s = strip_zeros s @ replicate k (CHR ''0'')"
proof (induction s rule: rev_induct)
  case Nil
  then show ?case by (simp add: strip_zeros_def)
next
  case (snoc c s)
  show ?case
  proof (cases "c = CHR ''0''")
    case True
    from snoc obtain k where "s = strip_zeros s @ replicate k (CHR ''0'')" ..
    then have "s @ [c] = strip_zeros s @ (replicate k (CHR ''0'') @ [CHR ''0''])"
      using True by (metis append.assoc)
    moreover have "strip_zeros (s @ [c]) = strip_zeros s"
      using True by (simp add: strip_zeros_def)
    ultimately have "s @ [c] = strip_zeros (s @ [c]) @ replicate (Suc k) (CHR ''0'')"
      by (simp add: replicate_append_same)
    then show ?thesis ..
  next
    case False
    then show ?thesis by (intro exI [of _ 0]) (simp add: strip_zeros_def)
  qed
qed

lemma dec_val_zeros: "dec_val (s @ replicate k (CHR ''0'')) = dec_val s * 10 ^ k"
proof (induction k)
  case 0
  then show ?case by simp
next
  case (Suc k)
  have "digit_val (CHR ''0'') = 0" by (simp add: digit_val_def)
  with Suc show ?case
    by (simp add: replicate_append_same [symmetric] flip: append_assoc)
qed

lemma parse_frac_frac:
  assumes "0 \<le> n" "n < 1000000000"
  shows "parse_frac (frac n @ ''Z'') = (n, ''Z'')"
proof -
  let ?d = "dig 9 (nat n)"
  have app: "appendInt n 9 = ?d"
    using assms by (intro appendInt_dig) simp_all
  obtain k where k: "?d = strip_zeros ?d @ replicate k (CHR ''0'')"
    using strip_zeros_append by blast
  have dig: "\<forall>c \<in> set (strip_zeros ?d). is_digit c"
    using k dig_digits by (metis Un_iff set_append)
  have val: "dec_val (strip_zeros ?d) * 10 ^ k = nat n"
    using dec_val_zeros [of "strip_zeros ?d" k] k assms dec_val_dig [of "nat n" 9] by simp
  have len: "length (strip_zeros ?d) + k = 9"
    using arg_cong [OF k, of length] by simp
  have z: "\<not> is_digit (CHR ''Z'')" by (simp add: is_digit_def)
  show ?thesis
  proof (cases "strip_zeros ?d = []")
    case True
    with val have "n = 0" using assms by (simp add: dec_val_def)
    then show ?thesis by (simp add: parse_frac_def)
  next
    case False
    then obtain c cs where c: "strip_zeros ?d = c # cs" by (cases "strip_zeros ?d") auto
    have tw: "takeWhile is_digit (strip_zeros ?d @ ''Z'') = strip_zeros ?d"
      "dropWhile is_digit (strip_zeros ?d @ ''Z'') = ''Z''"
      using dig z by (simp_all add: takeWhile_append dropWhile_append)
    have "int (dec_val (strip_zeros ?d)) * 10 ^ k = n"
      using val assms by (metis int_nat_eq of_nat_mult of_nat_numeral of_nat_power)
    moreover have "9 - length (strip_zeros ?d) = k" "length (strip_zeros ?d) \<le> 9"
      using len by simp_all
    moreover have "is_digit c" using dig c by simp
    ultimately show ?thesis
      using tw c by (simp add: parse_frac_def frac_def app Let_def)
  qed
qed

text \<open>Every instant the store writes is read back as it was.\<close>

lemma parseTime_rfc3339nano:
  assumes v: "valid_time t"
  shows "parseTime (rfc3339nano t) = Some t"
proof -
  obtain y m d where c: "civil (day_no t) = (y, m, d)" by (cases "civil (day_no t)")
  define h mi se where "h = hourOf (sec_of_day t)" and "mi = minuteOf (sec_of_day t)"
    and "se = secondOf (sec_of_day t)"
  note s = stamp_fields [OF v c, folded h_def mi_def se_def]
  have r: "0 \<le> h" "h < 24" "0 \<le> mi" "mi < 60" "0 \<le> se" "se < 60"
    by (simp_all add: h_def mi_def se_def)
  have m: "m \<le> 12" "d \<le> month_lengths y ! nat (m - 1)"
    "days_before y + sum_list (take (nat (m - 1)) (month_lengths y)) + d - 1 = day_no t"
    using c by (auto elim: civil_props)
  have hms: "h * 3600 + mi * 60 + se = sec_of_day t"
  proof -
    have "sec_of_day t mod 60 = sec_of_day t mod 3600 mod 60"
      by (simp add: mod_mod_cancel)
    then show ?thesis
      unfolding h_def mi_def se_def hourOf_def minuteOf_def secondOf_def
      using div_mult_mod_eq [of "sec_of_day t" 3600] div_mult_mod_eq [of "sec_of_day t mod 3600" 60]
      by simp
  qed
  have date: "date_of y m d h mi se (nsec t) = t"
  proof -
    have "day_no t * 86400 + h * 3600 + mi * 60 + se = day_no t * 86400 + sec_of_day t"
      using hms by simp
    then show ?thesis
      unfolding date_of_def m(3) by (metis time_split)
  qed
  have fields: "parseUint (dig 4 (nat y)) 0 9999 = Some (nat y)"
    "parseUint (dig 2 (nat m)) 1 12 = Some (nat m)"
    "parseUint (dig 2 (nat d)) 1 (nat (month_lengths y ! (nat m - 1))) = Some (nat d)"
    "parseUint (dig 2 (nat h)) 0 23 = Some (nat h)"
    "parseUint (dig 2 (nat mi)) 0 59 = Some (nat mi)"
    "parseUint (dig 2 (nat se)) 0 59 = Some (nat se)"
    using s(2-) m r by (auto intro!: parseUint_dig simp: nat_diff_distrib)
  show ?thesis
    using fields s(2-) m r date parse_frac_frac [of "nsec t"]
    by (simp add: parseTime_def rfc3339nano_def s(1) fields_def substr_def nth_append
        parse_zone_def Let_def)
qed

end
