(* ===== verification/GoErrors.thy ===== *)
theory GoErrors
  imports TimeText
begin

section \<open>Errors, suspension and panics\<close>

text \<open>
  The errors of \<^verbatim>\<open>errors.go\<close>, \<^verbatim>\<open>suspend.go\<close> and of \<^verbatim>\<open>sqlite/sqlite.go\<close> as one datatype. An
  error of a third party (the SQL driver, the JSON package, the user's step) is opaque and is an
  \<open>ErrorString\<close> or a \<open>DriverError\<close>; \<open>WrapError p e\<close> is \<open>fmt.Errorf("p: %w", e)\<close>, the only
  form of wrapping the source uses. A result of a fallible operation is a sum whose left side is
  the error. A call that may panic returns a \<open>go_outcome\<close>; \<open>panicToError\<close> of \<^verbatim>\<open>panic.go\<close> turns a
  panic into an error. A \<open>PermanentError\<close> always holds an error: \<open>Permanent(nil)\<close> is outside the
  model.
\<close>

datatype gerror =
    ErrorString string
  | DriverError string
  | WrapError string gerror
  | PermanentError gerror
  | CancelledError
  | EventTimeoutError
  | StepNotFoundError
  | DefinitionNotFoundError string
  | WorkflowExecutionError string gerror
  | SuspendError time
  | SubscriptionNotFoundError
  | OCCConflictError
  | SqlErrNoRows

type_synonym 'a res = "gerror + 'a"

definition Permanent :: "gerror \<Rightarrow> gerror" where
  "Permanent e = PermanentError e"

definition ErrCancelled :: gerror where "ErrCancelled = CancelledError"
definition ErrEventTimeout :: gerror where "ErrEventTimeout = EventTimeoutError"
definition ErrStepNotFound :: gerror where "ErrStepNotFound = StepNotFoundError"

subsection \<open>Texts\<close>

fun error_text :: "gerror \<Rightarrow> string" where
  "error_text (ErrorString s) = s"
| "error_text (DriverError s) = s"
| "error_text (WrapError p e) = p @ '': '' @ error_text e"
| "error_text (PermanentError e) = error_text e"
| "error_text CancelledError = ''workflow cancelled''"
| "error_text EventTimeoutError = ''event wait timed out''"
| "error_text StepNotFoundError = ''step result not found''"
| "error_text (DefinitionNotFoundError t) = ''no definition registered for '' @ go_quote t"
| "error_text (WorkflowExecutionError w e) = ''workflow '' @ w @ '': '' @ error_text e"
| "error_text (SuspendError t) = ''workflow suspended until '' @ rfc3339 t"
| "error_text SubscriptionNotFoundError = ''subscription not found''"
| "error_text OCCConflictError = ''optimistic concurrency conflict: row not updated''"
| "error_text SqlErrNoRows = ''sql: no rows in result set''"

subsection \<open>\<open>errors.As\<close> and \<open>errors.Is\<close> over the wrapping chain\<close>

fun unwrap :: "gerror \<Rightarrow> gerror option" where
  "unwrap (WrapError p e) = Some e"
| "unwrap (PermanentError e) = Some e"
| "unwrap (WorkflowExecutionError w e) = Some e"
| "unwrap _ = None"

fun chain :: "gerror \<Rightarrow> gerror list" where
  "chain (WrapError p e) = WrapError p e # chain e"
| "chain (PermanentError e) = PermanentError e # chain e"
| "chain (WorkflowExecutionError w e) = WorkflowExecutionError w e # chain e"
| "chain e = [e]"

definition as_cancelled :: "gerror \<Rightarrow> bool" where
  "as_cancelled e \<longleftrightarrow> list_ex (\<lambda>x. x = CancelledError) (chain e)"

fun perm_of :: "gerror \<Rightarrow> gerror option" where
  "perm_of (PermanentError e) = Some e"
| "perm_of _ = None"

text \<open>\<open>errors.As(err, &permErr)\<close>: the error the first \<open>PermanentError\<close> of the chain holds.\<close>

definition as_permanent :: "gerror \<Rightarrow> gerror option" where
  "as_permanent e = (case List.map_filter perm_of (chain e) of [] \<Rightarrow> None | x # _ \<Rightarrow> Some x)"

fun susp_of :: "gerror \<Rightarrow> time option" where
  "susp_of (SuspendError t) = Some t"
| "susp_of _ = None"

text \<open>\<open>IsSuspend\<close>: the \<open>ResumeAt\<close> of the first \<open>SuspendError\<close> of the chain.\<close>

definition IsSuspend :: "gerror \<Rightarrow> time option" where
  "IsSuspend e = (case List.map_filter susp_of (chain e) of [] \<Rightarrow> None | t # _ \<Rightarrow> Some t)"

definition is_step_not_found :: "gerror \<Rightarrow> bool" where
  "is_step_not_found e \<longleftrightarrow> list_ex (\<lambda>x. x = StepNotFoundError) (chain e)"

definition is_event_timeout :: "gerror \<Rightarrow> bool" where
  "is_event_timeout e \<longleftrightarrow> list_ex (\<lambda>x. x = EventTimeoutError) (chain e)"

lemmas chain_defs = as_cancelled_def as_permanent_def IsSuspend_def is_step_not_found_def
  is_event_timeout_def List.map_filter_def

lemma chain_head: "\<exists>es. chain e = e # es"
  by (cases e) auto

lemma chain_unwrap:
  "chain e = e # (case unwrap e of None \<Rightarrow> [] | Some e' \<Rightarrow> chain e')"
  by (cases e) auto

text \<open>A \<open>%w\<close> prefix is transparent to all of them.\<close>

lemma as_wrap [simp]:
  "as_cancelled (WrapError p e) = as_cancelled e"
  "as_permanent (WrapError p e) = as_permanent e"
  "IsSuspend (WrapError p e) = IsSuspend e"
  "is_step_not_found (WrapError p e) = is_step_not_found e"
  "is_event_timeout (WrapError p e) = is_event_timeout e"
  by (simp_all add: chain_defs)

lemma as_permanent_perm [simp]: "as_permanent (PermanentError e) = Some e"
  by (simp add: chain_defs)

lemma as_perm_other [simp]:
  "as_cancelled (PermanentError e) = as_cancelled e"
  "IsSuspend (PermanentError e) = IsSuspend e"
  by (simp_all add: chain_defs)

lemma as_leaf [simp]:
  "as_cancelled CancelledError" "\<not> as_cancelled (SuspendError t)"
  "\<not> as_cancelled (ErrorString s)" "\<not> as_cancelled (DriverError s)"
  "\<not> as_cancelled EventTimeoutError" "\<not> as_cancelled OCCConflictError"
  "\<not> as_cancelled SqlErrNoRows" "\<not> as_cancelled StepNotFoundError"
  "as_permanent CancelledError = None" "as_permanent (SuspendError t) = None"
  "as_permanent (ErrorString s) = None" "as_permanent (DriverError s) = None"
  "as_permanent EventTimeoutError = None" "as_permanent SqlErrNoRows = None"
  "IsSuspend (SuspendError t) = Some t" "IsSuspend CancelledError = None"
  "IsSuspend (ErrorString s) = None" "IsSuspend (DriverError s) = None"
  "IsSuspend EventTimeoutError = None" "IsSuspend SqlErrNoRows = None"
  "IsSuspend OCCConflictError = None" "IsSuspend StepNotFoundError = None"
  "is_step_not_found StepNotFoundError" "\<not> is_step_not_found SqlErrNoRows"
  "\<not> is_step_not_found (DriverError s)" "\<not> is_step_not_found (ErrorString s)"
  "is_event_timeout EventTimeoutError" "\<not> is_event_timeout (ErrorString s)"
  "\<not> is_event_timeout (DriverError s)"
  by (simp_all add: chain_defs)

subsection \<open>Panics\<close>

text \<open>
  What a call of user code does: it returns a value or an error, or it panics with a value (its
  \<open>%v\<close> text) at a point with some stack trace.
\<close>

datatype 'a go_outcome = Returned "'a res" | Panicked string string

fun panicToError :: "'a go_outcome \<Rightarrow> 'a res" where
  "panicToError (Returned r) = r"
| "panicToError (Panicked v stack) =
     Inl (ErrorString (''panic recovered: '' @ v @ [CHR 0x0A, CHR 0x0A] @ stack))"

lemma panicToError_transient:
  assumes "panicToError (Panicked v stack) = Inl e"
  shows "\<not> as_cancelled e" and "as_permanent e = None" and "IsSuspend e = None"
  using assms by auto

end
