(* ===== verification/StoreTypes.thy ===== *)
theory StoreTypes
  imports GoErrors
begin

section \<open>The data model\<close>

text \<open>
  \<open>Status\<close>, \<open>Signal\<close> and \<open>RetryPolicy\<close> of \<^verbatim>\<open>flicker.go\<close> and the records of \<^verbatim>\<open>store.go\<close>. Status and
  signal are string types in the code, with named constants, and are strings here. A \<open>[]byte\<close> or
  \<open>json.RawMessage\<close> that may be nil is an option. A \<open>time.Duration\<close> is a signed 64-bit number of
  nanoseconds, kept at its width because the retry delay is computed with a shift that can
  overflow.
\<close>

type_synonym status = string
type_synonym signal = string
type_synonym duration = "64 word"

definition StatusPending :: status where "StatusPending = ''pending''"
definition StatusRunning :: status where "StatusRunning = ''running''"
definition StatusCompleted :: status where "StatusCompleted = ''completed''"
definition StatusFailed :: status where "StatusFailed = ''failed''"
definition StatusCancelled :: status where "StatusCancelled = ''cancelled''"
definition StatusSuspended :: status where "StatusSuspended = ''suspended''"

lemmas status_defs = StatusPending_def StatusRunning_def StatusCompleted_def StatusFailed_def
  StatusCancelled_def StatusSuspended_def

lemma status_distinct [simp]:
  "distinct [StatusPending, StatusRunning, StatusCompleted, StatusFailed, StatusCancelled,
             StatusSuspended]"
  "StatusPending \<noteq> StatusSuspended" "StatusSuspended \<noteq> StatusPending"
  "StatusPending \<noteq> StatusCompleted" "StatusCompleted \<noteq> StatusPending"
  "StatusPending \<noteq> StatusFailed" "StatusFailed \<noteq> StatusPending"
  "StatusPending \<noteq> StatusCancelled" "StatusCancelled \<noteq> StatusPending"
  "StatusSuspended \<noteq> StatusCompleted" "StatusCompleted \<noteq> StatusSuspended"
  "StatusSuspended \<noteq> StatusFailed" "StatusFailed \<noteq> StatusSuspended"
  "StatusSuspended \<noteq> StatusCancelled" "StatusCancelled \<noteq> StatusSuspended"
  "StatusPending \<noteq> StatusRunning" "StatusRunning \<noteq> StatusPending"
  "StatusCompleted \<noteq> StatusFailed" "StatusFailed \<noteq> StatusCompleted"
  "StatusCompleted \<noteq> StatusCancelled" "StatusCancelled \<noteq> StatusCompleted"
  "StatusFailed \<noteq> StatusCancelled" "StatusCancelled \<noteq> StatusFailed"
  "StatusPending \<noteq> []" "StatusSuspended \<noteq> []"
  by (simp_all add: status_defs)

definition SignalNone :: signal where "SignalNone = ''''"
definition SignalCancelRequested :: signal where "SignalCancelRequested = ''cancel_requested''"

lemma signal_distinct [simp]:
  "SignalNone \<noteq> SignalCancelRequested" "SignalCancelRequested \<noteq> SignalNone"
  by (simp_all add: SignalNone_def SignalCancelRequested_def)

text \<open>A workflow in one of these states is never picked up again.\<close>

definition terminal :: "status \<Rightarrow> bool" where
  "terminal s \<longleftrightarrow> s = StatusCompleted \<or> s = StatusFailed \<or> s = StatusCancelled"

lemma terminal_simps [simp]:
  "terminal StatusCompleted" "terminal StatusFailed" "terminal StatusCancelled"
  "\<not> terminal StatusPending" "\<not> terminal StatusSuspended" "\<not> terminal StatusRunning"
  by (simp_all add: terminal_def status_defs)

record RetryPolicy =
  MaxAttempts :: int
  BaseDelay :: duration
  MaxDelay :: duration

definition second :: duration where
  "second = 1000000000"

definition DefaultRetryPolicy :: RetryPolicy where
  "DefaultRetryPolicy = \<lparr>MaxAttempts = 3, BaseDelay = second, MaxDelay = 30 * second\<rparr>"

record WorkflowRecord =
  wr_ID :: string
  wr_Type :: string
  wr_Version :: string
  wr_Status :: status
  wr_Signal :: signal
  wr_Payload :: "bytes option"
  wr_Result :: "bytes option"
  wr_Error :: string
  wr_RetryAfter :: time
  wr_Attempts :: int
  wr_OCCVersion :: int
  wr_CreatedAt :: time
  wr_UpdatedAt :: time

record StepResult =
  sr_Type :: string
  sr_Version :: string
  sr_WorkflowID :: string
  sr_StepName :: string
  sr_Result :: "bytes option"
  sr_Error :: string
  sr_CreatedAt :: time

record Subscription =
  sub_WorkflowID :: string
  sub_Type :: string
  sub_Version :: string
  sub_StepName :: string
  sub_CorrelationKey :: string
  sub_Deadline :: time
  sub_CreatedAt :: time

end
