(* ===== verification/SqliteStore.thy ===== *)
theory SqliteStore
  imports StoreTypes
begin

section \<open>The SQLite store\<close>

text \<open>
  \<^verbatim>\<open>sqlite/sqlite.go\<close>: the three tables of \<open>migrate\<close>, and one definition per method of \<open>Store\<close>. A table
  is a list of rows in rowid order; the time columns hold text, as in the database. The SQL engine
  and the driver are not part of the repository; what the methods use of them is:
  a statement either fails as a whole and changes nothing, or does what SQL says; \<open>UNIQUE\<close> is
  enforced; a transaction that does not commit leaves the tables as at \<open>BEGIN\<close>; \<open>ORDER BY\<close> sorts by
  the bytes of the text (ties in rowid order). Whether the n-th call of the driver fails, and with
  which message, is the parameter \<open>dbFault\<close>; the message for a violated key is \<open>uniqueMsg\<close>; the
  n-th reading of the store's clock is \<open>nowFn\<close>. So every \<open>if err != nil\<close> branch of the code is a branch
  of the model.
\<close>

record workflow_row =
  c_id :: string
  c_type :: string
  c_version :: string
  c_status :: string
  c_signal :: string
  c_payload :: "bytes option"
  c_result :: "bytes option"
  c_error :: string
  c_retry_after :: string
  c_attempts :: int
  c_occ_version :: int
  c_created_at :: string
  c_updated_at :: string

record step_row =
  s_type :: string
  s_version :: string
  s_workflow_id :: string
  s_step_name :: string
  s_result :: "bytes option"
  s_error :: string
  s_created_at :: string

record sub_row =
  k_correlation_key :: string
  k_workflow_id :: string
  k_type :: string
  k_version :: string
  k_step_name :: string
  k_deadline :: string
  k_created_at :: string

record tables =
  workflows :: "workflow_row list"
  step_results :: "step_row list"
  subscriptions :: "sub_row list"

record store = tables +
  nowFn :: "nat \<Rightarrow> time"
  nowCalls :: nat
  dbFault :: "nat \<Rightarrow> string option"
  dbCalls :: nat
  uniqueMsg :: "string \<Rightarrow> string"

text \<open>\<open>CREATE TABLE IF NOT EXISTS\<close> on a new database.\<close>

definition empty_tables :: tables where
  "empty_tables = \<lparr>workflows = [], step_results = [], subscriptions = []\<rparr>"

type_synonym 'a op = "store \<Rightarrow> 'a res \<times> store"

subsection \<open>The driver and the clock\<close>

definition now :: "store \<Rightarrow> time \<times> store" where
  "now s = (nowFn s (nowCalls s), s\<lparr>nowCalls := Suc (nowCalls s)\<rparr>)"

text \<open>
  One call of the driver: when it fails the caller returns the error \<open>werr\<close> makes of it, otherwise
  it goes on with \<open>k\<close>.
\<close>

definition db_call :: "(gerror \<Rightarrow> gerror) \<Rightarrow> 'a op \<Rightarrow> 'a op" where
  "db_call werr k s =
     (let s' = s\<lparr>dbCalls := Suc (dbCalls s)\<rparr> in
      case dbFault s (dbCalls s) of
        Some msg \<Rightarrow> (Inl (werr (DriverError msg)), s')
      | None \<Rightarrow> k s')"

definition tables_of :: "store \<Rightarrow> tables" where
  "tables_of s = tables.truncate s"

definition restore :: "store \<Rightarrow> store \<Rightarrow> store" where
  "restore s0 s = s\<lparr>workflows := workflows s0, step_results := step_results s0,
                    subscriptions := subscriptions s0\<rparr>"

text \<open>\<open>BeginTx\<close>, the body, and \<open>Commit\<close>, with the deferred \<open>Rollback\<close> on every other way out.\<close>

definition in_tx :: "(gerror \<Rightarrow> gerror) \<Rightarrow> 'a op \<Rightarrow> 'a op" where
  "in_tx commit_err body =
     db_call (WrapError ''begin tx'') (\<lambda>s.
       case body s of
         (Inl e, s') \<Rightarrow> (Inl e, restore s s')
       | (Inr a, s') \<Rightarrow>
           (case db_call commit_err (\<lambda>s. (Inr a, s)) s' of
              (Inl e, s'') \<Rightarrow> (Inl e, restore s s'')
            | (Inr b, s'') \<Rightarrow> (Inr b, s'')))"

definition checkRowsAffected :: "nat \<Rightarrow> unit op" where
  "checkRowsAffected n =
     db_call (WrapError ''rows affected'')
       (\<lambda>s. if n = 0 then (Inl OCCConflictError, s) else (Inr (), s))"

subsection \<open>Scanning rows\<close>

text \<open>\<open>time.Parse(time.RFC3339Nano, raw)\<close>; the text of its error is abbreviated.\<close>

definition parse_error :: "string \<Rightarrow> gerror" where
  "parse_error raw = ErrorString (''parsing time '' @ go_quote raw)"

definition parse_column :: "string \<Rightarrow> string \<Rightarrow> time res" where
  "parse_column name raw =
     (if raw = '''' then Inr zeroTime
      else case parseTime raw of
             Some t \<Rightarrow> Inr t
           | None \<Rightarrow> Inl (WrapError (''parse workflow '' @ name @ '' '' @ go_quote raw) (parse_error raw)))"

definition scanWorkflow :: "workflow_row \<Rightarrow> WorkflowRecord res" where
  "scanWorkflow r =
     (case parse_column ''retry_after'' (c_retry_after r) of Inl e \<Rightarrow> Inl e | Inr ra \<Rightarrow>
      case parse_column ''created_at'' (c_created_at r) of Inl e \<Rightarrow> Inl e | Inr ca \<Rightarrow>
      case parse_column ''updated_at'' (c_updated_at r) of Inl e \<Rightarrow> Inl e | Inr ua \<Rightarrow>
      Inr \<lparr>wr_ID = c_id r, wr_Type = c_type r, wr_Version = c_version r, wr_Status = c_status r,
           wr_Signal = c_signal r, wr_Payload = c_payload r, wr_Result = c_result r,
           wr_Error = c_error r, wr_RetryAfter = ra, wr_Attempts = c_attempts r,
           wr_OCCVersion = c_occ_version r, wr_CreatedAt = ca, wr_UpdatedAt = ua\<rparr>)"

definition scanStepResult :: "step_row \<Rightarrow> StepResult res" where
  "scanStepResult r =
     (case parseTime (s_created_at r) of
        None \<Rightarrow> Inl (WrapError (''parse step result created_at '' @ go_quote (s_created_at r))
                   (parse_error (s_created_at r)))
      | Some t \<Rightarrow> Inr \<lparr>sr_Type = s_type r, sr_Version = s_version r, sr_WorkflowID = s_workflow_id r,
                      sr_StepName = s_step_name r, sr_Result = s_result r, sr_Error = s_error r,
                      sr_CreatedAt = t\<rparr>)"

text \<open>The scan loop: the first row that does not scan ends it.\<close>

fun scan_all :: "('r \<Rightarrow> 'a res) \<Rightarrow> 'r list \<Rightarrow> 'a list res" where
  "scan_all f [] = Inr []"
| "scan_all f (r # rs) =
     (case f r of Inl e \<Rightarrow> Inl e | Inr a \<Rightarrow>
        (case scan_all f rs of Inl e \<Rightarrow> Inl e | Inr as \<Rightarrow> Inr (a # as)))"

subsection \<open>Workflows\<close>

definition row_of_record :: "WorkflowRecord \<Rightarrow> time \<Rightarrow> workflow_row" where
  "row_of_record r t =
     \<lparr>c_id = wr_ID r, c_type = wr_Type r, c_version = wr_Version r, c_status = wr_Status r,
      c_signal = wr_Signal r, c_payload = wr_Payload r, c_result = wr_Result r,
      c_error = wr_Error r, c_retry_after = formatTime (wr_RetryAfter r),
      c_attempts = wr_Attempts r, c_occ_version = wr_OCCVersion r,
      c_created_at = formatTime t, c_updated_at = formatTime t\<rparr>"

text \<open>\<open>Create\<close> fills in the record it is given through the pointer; the record is returned.\<close>

definition Create :: "WorkflowRecord \<Rightarrow> store \<Rightarrow> unit res \<times> WorkflowRecord \<times> store" where
  "Create r s =
     (let (t, s) = now s;
          r = r\<lparr>wr_CreatedAt := t, wr_UpdatedAt := t, wr_OCCVersion := 1\<rparr>;
          r = (if wr_Status r = '''' then r\<lparr>wr_Status := StatusPending\<rparr> else r);
          (res, s) = db_call (WrapError ''insert workflow'') (\<lambda>s.
            if row_at c_id (wr_ID r) (workflows s) \<noteq> None
            then (Inl (WrapError ''insert workflow'' (DriverError (uniqueMsg s ''workflows.id''))), s)
            else (Inr (), s\<lparr>workflows := workflows s @ [row_of_record r t]\<rparr>)) s
      in (res, r, s))"

definition Get :: "string \<Rightarrow> WorkflowRecord op" where
  "Get wid = db_call (WrapError ''scan workflow'') (\<lambda>s.
     case row_at c_id wid (workflows s) of
       None \<Rightarrow> (Inl (WrapError ''scan workflow'' SqlErrNoRows), s)
     | Some r \<Rightarrow> (scanWorkflow r, s))"

text \<open>\<open>UPDATE workflows SET ... WHERE id = ? AND occ_version = ?\<close> and the check of the row count.\<close>

definition occ_exec :: "string \<Rightarrow> string \<Rightarrow> int \<Rightarrow> (workflow_row \<Rightarrow> workflow_row) \<Rightarrow> unit op" where
  "occ_exec ctx wid occ f = db_call (WrapError ctx) (\<lambda>s.
     let (n, rows) = sql_update (\<lambda>r. c_id r = wid \<and> c_occ_version r = occ) f (workflows s)
     in checkRowsAffected n (s\<lparr>workflows := rows\<rparr>))"

definition UpdateStatus :: "string \<Rightarrow> status \<Rightarrow> bytes option \<Rightarrow> int \<Rightarrow> unit op" where
  "UpdateStatus wid st result occ s =
     (let (t, s) = now s in
      occ_exec ''update status'' wid occ
        (\<lambda>r. r\<lparr>c_status := st, c_result := result, c_occ_version := c_occ_version r + 1,
               c_updated_at := formatTime t\<rparr>) s)"

definition SetError :: "string \<Rightarrow> status \<Rightarrow> string \<Rightarrow> int \<Rightarrow> unit op" where
  "SetError wid st errMsg occ s =
     (let (t, s) = now s in
      occ_exec ''set error'' wid occ
        (\<lambda>r. r\<lparr>c_status := st, c_error := errMsg, c_occ_version := c_occ_version r + 1,
               c_updated_at := formatTime t\<rparr>) s)"

definition SetRetry :: "string \<Rightarrow> time \<Rightarrow> int \<Rightarrow> unit op" where
  "SetRetry wid retryAfter occ s =
     (let (t, s) = now s in
      occ_exec ''set retry'' wid occ
        (\<lambda>r. r\<lparr>c_status := StatusPending, c_retry_after := formatTime retryAfter,
               c_attempts := c_attempts r + 1, c_occ_version := c_occ_version r + 1,
               c_updated_at := formatTime t\<rparr>) s)"

definition Suspend :: "string \<Rightarrow> time \<Rightarrow> int \<Rightarrow> unit op" where
  "Suspend wid resumeAt occ s =
     (let (t, s) = now s in
      occ_exec ''suspend'' wid occ
        (\<lambda>r. r\<lparr>c_status := StatusSuspended, c_retry_after := formatTime resumeAt,
               c_occ_version := c_occ_version r + 1, c_updated_at := formatTime t\<rparr>) s)"

definition promotable :: "time \<Rightarrow> workflow_row \<Rightarrow> bool" where
  "promotable t r \<longleftrightarrow>
     c_status r = StatusSuspended \<and> c_retry_after r \<noteq> '''' \<and> c_retry_after r \<le> formatTime t"

definition PromoteSuspended :: "time \<Rightarrow> int op" where
  "PromoteSuspended t = db_call (WrapError ''promote suspended'') (\<lambda>s.
     let (n, rows) = sql_update (promotable t)
           (\<lambda>r. r\<lparr>c_status := StatusPending, c_retry_after := '''',
                  c_occ_version := c_occ_version r + 1, c_updated_at := formatTime t\<rparr>) (workflows s)
     in db_call (WrapError ''rows affected'') (\<lambda>s. (Inr (int n), s)) (s\<lparr>workflows := rows\<rparr>))"

definition schedulable :: "time \<Rightarrow> workflow_row \<Rightarrow> bool" where
  "schedulable t r \<longleftrightarrow>
     c_status r = StatusPending \<and> (c_retry_after r = '''' \<or> c_retry_after r \<le> formatTime t)"

definition ListSchedulable :: "int \<Rightarrow> WorkflowRecord list op" where
  "ListSchedulable limit s =
     (let (t, s) = now s in
      db_call (WrapError ''list schedulable'') (\<lambda>s.
        case scan_all scanWorkflow
               (sql_limit limit (sort_key c_created_at (filter (schedulable t) (workflows s)))) of
          Inl e \<Rightarrow> (Inl e, s)
        | Inr records \<Rightarrow> db_call id (\<lambda>s. (Inr records, s)) s) s)"

subsection \<open>Step results\<close>

definition step_key :: "step_row \<Rightarrow> string \<times> string \<times> string \<times> string" where
  "step_key r = (s_type r, s_version r, s_workflow_id r, s_step_name r)"

text \<open>\<open>INSERT OR REPLACE\<close>: the row with the same key goes, the new one comes last.\<close>

definition replace_step :: "step_row \<Rightarrow> step_row list \<Rightarrow> step_row list" where
  "replace_step r rows = filter (\<lambda>x. step_key x \<noteq> step_key r) rows @ [r]"

definition step_row_of :: "StepResult \<Rightarrow> step_row" where
  "step_row_of r =
     \<lparr>s_type = sr_Type r, s_version = sr_Version r, s_workflow_id = sr_WorkflowID r,
      s_step_name = sr_StepName r, s_result = sr_Result r, s_error = sr_Error r,
      s_created_at = formatTime (sr_CreatedAt r)\<rparr>"

definition SaveStepResult :: "StepResult \<Rightarrow> unit op" where
  "SaveStepResult r = db_call (WrapError ''save step result'')
     (\<lambda>s. (Inr (), s\<lparr>step_results := replace_step (step_row_of r) (step_results s)\<rparr>))"

definition GetStepResult :: "string \<Rightarrow> string \<Rightarrow> string \<Rightarrow> string \<Rightarrow> StepResult op" where
  "GetStepResult ty ver wid name = db_call (WrapError ''scan step result'') (\<lambda>s.
     case row_at step_key (ty, ver, wid, name) (step_results s) of
       None \<Rightarrow> (Inl StepNotFoundError, s)
     | Some r \<Rightarrow> (scanStepResult r, s))"

definition ListStepResults :: "string \<Rightarrow> string \<Rightarrow> string \<Rightarrow> StepResult list op" where
  "ListStepResults ty ver wid = db_call (WrapError ''list step results'') (\<lambda>s.
     case scan_all scanStepResult
            (sort_key s_created_at
              (filter (\<lambda>r. s_type r = ty \<and> s_version r = ver \<and> s_workflow_id r = wid) (step_results s))) of
       Inl e \<Rightarrow> (Inl e, s)
     | Inr results \<Rightarrow> db_call id (\<lambda>s. (Inr results, s)) s)"

subsection \<open>Signals\<close>

definition GetSignal :: "string \<Rightarrow> signal op" where
  "GetSignal wid = db_call (WrapError ''get signal'') (\<lambda>s.
     case row_at c_id wid (workflows s) of
       None \<Rightarrow> (Inl (WrapError ''get signal'' SqlErrNoRows), s)
     | Some r \<Rightarrow> (Inr (c_signal r), s))"

definition SetSignal :: "string \<Rightarrow> signal \<Rightarrow> unit op" where
  "SetSignal wid sig s =
     (let (t, s) = now s in
      db_call (WrapError ''set signal'') (\<lambda>s.
        let (n, rows) = sql_update (\<lambda>r. c_id r = wid)
              (\<lambda>r. r\<lparr>c_signal := sig, c_updated_at := formatTime t\<rparr>) (workflows s)
        in db_call (WrapError ''rows affected'') (\<lambda>s.
             if n = 0 then (Inl (ErrorString (''workflow '' @ go_quote wid @ '' not found'')), s)
             else (Inr (), s)) (s\<lparr>workflows := rows\<rparr>)) s)"

subsection \<open>Event subscriptions\<close>

definition sub_row_of :: "Subscription \<Rightarrow> sub_row" where
  "sub_row_of b =
     \<lparr>k_correlation_key = sub_CorrelationKey b, k_workflow_id = sub_WorkflowID b,
      k_type = sub_Type b, k_version = sub_Version b, k_step_name = sub_StepName b,
      k_deadline = formatTime (sub_Deadline b), k_created_at = formatTime (sub_CreatedAt b)\<rparr>"

definition SaveSubscription :: "Subscription \<Rightarrow> unit op" where
  "SaveSubscription b = db_call (WrapError ''save subscription'') (\<lambda>s.
     if row_at k_correlation_key (sub_CorrelationKey b) (subscriptions s) \<noteq> None
     then (Inl (WrapError ''save subscription''
                 (DriverError (uniqueMsg s ''subscriptions.correlation_key''))), s)
     else (Inr (), s\<lparr>subscriptions := subscriptions s @ [sub_row_of b]\<rparr>))"

text \<open>The step result a subscription turns into: the event's payload, or the timeout marker.\<close>

definition event_row :: "sub_row \<Rightarrow> bytes option \<Rightarrow> string \<Rightarrow> time \<Rightarrow> step_row" where
  "event_row b payload err t =
     \<lparr>s_type = k_type b, s_version = k_version b, s_workflow_id = k_workflow_id b,
      s_step_name = k_step_name b, s_result = payload, s_error = err,
      s_created_at = formatTime t\<rparr>"

definition delete_sub :: "string \<Rightarrow> sub_row list \<Rightarrow> sub_row list" where
  "delete_sub key rows = filter (\<lambda>b. k_correlation_key b \<noteq> key) rows"

text \<open>\<open>UPDATE workflows SET status = pending, ... WHERE id = ? AND status = suspended\<close>.\<close>

definition wake :: "string \<Rightarrow> time \<Rightarrow> workflow_row list \<Rightarrow> workflow_row list" where
  "wake wid t rows =
     snd (sql_update (\<lambda>r. c_id r = wid \<and> c_status r = StatusSuspended)
       (\<lambda>r. r\<lparr>c_status := StatusPending, c_retry_after := '''',
              c_occ_version := c_occ_version r + 1, c_updated_at := formatTime t\<rparr>) rows)"

definition ResumeSubscription :: "string \<Rightarrow> bytes option \<Rightarrow> unit op" where
  "ResumeSubscription key payload = in_tx id
     (db_call (WrapError ''find subscription'') (\<lambda>s.
        case row_at k_correlation_key key (subscriptions s) of
          None \<Rightarrow> (Inl SubscriptionNotFoundError, s)
        | Some b \<Rightarrow>
            let (t, s) = now s in
            db_call (WrapError ''save event step result'') (\<lambda>s.
              db_call (WrapError ''delete subscription'') (\<lambda>s.
                let (t', s) = now (s\<lparr>subscriptions := delete_sub key (subscriptions s)\<rparr>) in
                db_call (WrapError ''promote workflow'')
                  (\<lambda>s. (Inr (), s\<lparr>workflows := wake (k_workflow_id b) t' (workflows s)\<rparr>)) s)
                (s\<lparr>step_results := replace_step (event_row b payload '''' t) (step_results s)\<rparr>)) s))"

definition expired :: "time \<Rightarrow> sub_row \<Rightarrow> bool" where
  "expired t b \<longleftrightarrow> k_deadline b \<noteq> '''' \<and> k_deadline b \<le> formatTime t"

text \<open>The loop over the expired subscriptions.\<close>

fun timeout_all :: "time \<Rightarrow> sub_row list \<Rightarrow> unit op" where
  "timeout_all t [] s = (Inr (), s)"
| "timeout_all t (b # bs) s =
     db_call (WrapError ''save timeout marker'') (\<lambda>s.
       db_call (WrapError ''delete expired subscription'') (\<lambda>s.
         db_call (WrapError ''promote timed out workflow'')
           (\<lambda>s. timeout_all t bs (s\<lparr>workflows := wake (k_workflow_id b) t (workflows s)\<rparr>))
           (s\<lparr>subscriptions := delete_sub (k_correlation_key b) (subscriptions s)\<rparr>))
         (s\<lparr>step_results := replace_step (event_row b None ''event_timeout'' t) (step_results s)\<rparr>)) s"

definition TimeOutSubscriptions :: "time \<Rightarrow> int op" where
  "TimeOutSubscriptions t = in_tx (WrapError ''commit'')
     (db_call (WrapError ''query expired subscriptions'') (\<lambda>s.
        let subs = filter (expired t) (subscriptions s) in
        db_call (WrapError ''iterate expired subscriptions'') (\<lambda>s.
          case timeout_all t subs s of
            (Inl e, s) \<Rightarrow> (Inl e, s)
          | (Inr _, s) \<Rightarrow> (Inr (int (length subs)), s)) s))"

end
