(* ===== verification/StoreInv.thy ===== *)
theory StoreInv
  imports SqliteStore
begin

section \<open>What every operation of the store keeps\<close>

text \<open>
  The table invariant: primary keys are unique, every time column holds a text that \<open>formatTime\<close>
  wrote, versions start at 1. Each method of the store keeps it, so reading a row back never fails
  on its time columns. The proofs go through the three combinators the methods are built from
  (a driver call, a reading of the clock, a transaction).
\<close>

definition good_time :: "time \<Rightarrow> bool" where
  "good_time t \<longleftrightarrow> valid_time t \<and> t \<noteq> zeroTime"

definition time_text :: "string \<Rightarrow> bool" where
  "time_text x \<longleftrightarrow> (\<exists>t. valid_time t \<and> x = formatTime t)"

definition good_text :: "string \<Rightarrow> bool" where
  "good_text x \<longleftrightarrow> (\<exists>t. good_time t \<and> x = formatTime t)"

definition wf_workflow_row :: "workflow_row \<Rightarrow> bool" where
  "wf_workflow_row r \<longleftrightarrow> time_text (c_retry_after r) \<and> time_text (c_created_at r) \<and>
     time_text (c_updated_at r) \<and> 1 \<le> c_occ_version r"

definition wf_store :: "store \<Rightarrow> bool" where
  "wf_store s \<longleftrightarrow>
     distinct (map c_id (workflows s)) \<and> distinct (map step_key (step_results s)) \<and>
     distinct (map k_correlation_key (subscriptions s)) \<and>
     (\<forall>r \<in> set (workflows s). wf_workflow_row r) \<and>
     (\<forall>r \<in> set (step_results s). good_text (s_created_at r)) \<and>
     (\<forall>b \<in> set (subscriptions s). time_text (k_deadline b) \<and> time_text (k_created_at b)) \<and>
     (\<forall>n. good_time (nowFn s n))"

lemma good_time_valid [simp]: "good_time t \<Longrightarrow> valid_time t"
  by (simp add: good_time_def)

lemma valid_time_zero [simp]: "valid_time zeroTime" "valid_time 0"
  by (simp_all add: valid_time_def zeroTime_def ns_per_sec_def)

lemma time_text_intros [simp]:
  "valid_time t \<Longrightarrow> time_text (formatTime t)" "good_time t \<Longrightarrow> good_text (formatTime t)"
  "time_text ''''"
  by (auto simp: time_text_def good_text_def formatTime_def intro: exI [of _ zeroTime])

lemma good_text_time_text: "good_text x \<Longrightarrow> time_text x"
  unfolding good_text_def time_text_def using good_time_valid by blast

subsection \<open>Reading back\<close>

lemma formatTime_empty_iff: "formatTime t = '''' \<longleftrightarrow> t = zeroTime"
  by (simp add: formatTime_def rfc3339nano_def)

lemma parse_column_formatTime:
  "valid_time t \<Longrightarrow> parse_column name (formatTime t) = Inr t"
  by (auto simp: parse_column_def formatTime_empty_iff) (simp add: formatTime_def parseTime_rfc3339nano)

lemma scanWorkflow_ok: "wf_workflow_row r \<Longrightarrow> \<exists>w. scanWorkflow r = Inr w"
  by (auto simp: wf_workflow_row_def time_text_def scanWorkflow_def parse_column_formatTime)

lemma scanStepResult_ok: "good_text (s_created_at r) \<Longrightarrow> \<exists>w. scanStepResult r = Inr w"
  by (auto simp: good_text_def good_time_def scanStepResult_def formatTime_def parseTime_rfc3339nano)

lemma scan_all_ok:
  "(\<And>r. r \<in> set rs \<Longrightarrow> \<exists>a. f r = Inr a) \<Longrightarrow> \<exists>as. scan_all f rs = Inr as"
proof (induction rs)
  case Nil
  then show ?case by simp
next
  case (Cons r rs)
  then obtain a bs where "f r = Inr a" "scan_all f rs = Inr bs"
    by (meson list.set_intros)
  then show ?case by simp
qed

lemma scan_all_map:
  "scan_all f rs = Inr as \<Longrightarrow> length as = length rs \<and> (\<forall>i < length rs. f (rs ! i) = Inr (as ! i))"
proof (induction rs arbitrary: as)
  case Nil
  then show ?case by simp
next
  case (Cons r rs)
  then obtain a bs where "f r = Inr a" "scan_all f rs = Inr bs" "as = a # bs"
    by (auto split: sum.splits)
  with Cons.IH [of bs] show ?case by (auto simp: nth_Cons split: nat.splits)
qed

lemma scan_all_mem:
  "scan_all f rs = Inr as \<Longrightarrow> a \<in> set as \<Longrightarrow> \<exists>r \<in> set rs. f r = Inr a"
  using scan_all_map [of f rs as] by (metis in_set_conv_nth)

text \<open>A record reads back from the row it was stored as.\<close>

lemma scanWorkflow_fields:
  assumes "scanWorkflow r = Inr w"
  shows "wr_ID w = c_id r" "wr_Type w = c_type r" "wr_Version w = c_version r"
    "wr_Status w = c_status r" "wr_Signal w = c_signal r" "wr_Payload w = c_payload r"
    "wr_Result w = c_result r" "wr_Error w = c_error r" "wr_Attempts w = c_attempts r"
    "wr_OCCVersion w = c_occ_version r"
  using assms by (auto simp: scanWorkflow_def split: sum.splits)

subsection \<open>The combinators\<close>

lemma db_call_cases:
  assumes "\<And>msg. dbFault s (dbCalls s) = Some msg \<Longrightarrow>
      P (Inl (werr (DriverError msg)), s\<lparr>dbCalls := Suc (dbCalls s)\<rparr>)"
    and "dbFault s (dbCalls s) = None \<Longrightarrow> P (k (s\<lparr>dbCalls := Suc (dbCalls s)\<rparr>))"
  shows "P (db_call werr k s)"
  using assms by (simp add: db_call_def Let_def split: option.splits)

lemma now_fields [simp]:
  "workflows (snd (now s)) = workflows s" "step_results (snd (now s)) = step_results s"
  "subscriptions (snd (now s)) = subscriptions s" "nowFn (snd (now s)) = nowFn s"
  "dbFault (snd (now s)) = dbFault s" "dbCalls (snd (now s)) = dbCalls s"
  "uniqueMsg (snd (now s)) = uniqueMsg s"
  by (simp_all add: now_def)

text \<open>A predicate that looks at the tables and the clock function only.\<close>

definition table_pred :: "(store \<Rightarrow> bool) \<Rightarrow> bool" where
  "table_pred P \<longleftrightarrow> (\<forall>s. (\<forall>n. P (s\<lparr>dbCalls := n\<rparr>) = P s) \<and> (\<forall>n. P (s\<lparr>nowCalls := n\<rparr>) = P s))"

lemma table_pred_simps:
  "table_pred P \<Longrightarrow> P (s\<lparr>dbCalls := n\<rparr>) = P s"
  "table_pred P \<Longrightarrow> P (s\<lparr>nowCalls := n\<rparr>) = P s"
  "table_pred P \<Longrightarrow> P (snd (now s)) = P s"
  by (simp_all add: table_pred_def now_def)

lemma preserves_db_call:
  assumes "table_pred P" and "preserves P k"
  shows "preserves P (db_call werr k)"
proof (rule preservesI)
  fix s
  assume "P s"
  then show "P (snd (db_call werr k s))"
    by (rule_tac db_call_cases [where P = "\<lambda>x. P (snd x)"])
      (auto simp: table_pred_simps [OF assms(1)] intro: preservesD [OF assms(2)])
qed

lemma wf_table_pred: "table_pred wf_store"
  by (simp add: table_pred_def wf_store_def)

lemma wf_store_counters [simp]:
  "wf_store (s\<lparr>dbCalls := n\<rparr>) = wf_store s" "wf_store (s\<lparr>nowCalls := n\<rparr>) = wf_store s"
  "wf_store (snd (now s)) = wf_store s"
  by (simp_all add: table_pred_simps [OF wf_table_pred])

lemma wf_now [simp]: "wf_store s \<Longrightarrow> good_time (fst (now s))"
  by (simp add: wf_store_def now_def)

lemma restore_fields [simp]:
  "workflows (restore s0 s) = workflows s0" "step_results (restore s0 s) = step_results s0"
  "subscriptions (restore s0 s) = subscriptions s0" "nowFn (restore s0 s) = nowFn s"
  "dbFault (restore s0 s) = dbFault s"
  by (simp_all add: restore_def)

subsection \<open>Elementary changes of the tables\<close>

text \<open>
  How a method may change a workflow row: the identity of the workflow never changes, and either
  the version grows by one, or nothing the engine decides on changes (the signal and the update time
  may).
\<close>

definition row_step :: "workflow_row \<Rightarrow> workflow_row \<Rightarrow> bool" where
  "row_step r r' \<longleftrightarrow>
     c_id r' = c_id r \<and> c_type r' = c_type r \<and> c_version r' = c_version r \<and>
     c_payload r' = c_payload r \<and> c_created_at r' = c_created_at r \<and>
     (time_text (c_retry_after r) \<longrightarrow> time_text (c_retry_after r')) \<and>
     (time_text (c_updated_at r) \<longrightarrow> time_text (c_updated_at r')) \<and>
     (c_occ_version r' = c_occ_version r + 1 \<and> c_attempts r \<le> c_attempts r' \<and>
        c_signal r' = c_signal r \<or>
      c_occ_version r' = c_occ_version r \<and> c_attempts r' = c_attempts r \<and>
        c_status r' = c_status r \<and> c_result r' = c_result r \<and> c_error r' = c_error r \<and>
        c_retry_after r' = c_retry_after r)"

text \<open>
  A calm change also leaves alone what a finished workflow ended with. All methods but the versioned
  updates change rows calmly.
\<close>

definition calm_step :: "workflow_row \<Rightarrow> workflow_row \<Rightarrow> bool" where
  "calm_step r r' \<longleftrightarrow> row_step r r' \<and>
     (terminal (c_status r) \<longrightarrow>
        c_status r' = c_status r \<and> c_result r' = c_result r \<and> c_error r' = c_error r)"

text \<open>
  An invariant of the store that the elementary changes keep. Every method of the store is built
  from them, so every method keeps it: that is proved once, for any such invariant, in two steps.
  The first covers the methods that change workflow rows calmly, the second adds the versioned
  updates.
\<close>

locale calm_invariant =
  fixes P :: "store \<Rightarrow> bool"
  assumes counters: "table_pred P"
    and clock: "P s \<Longrightarrow> good_time (nowFn s n)"
    and rollback: "P s \<Longrightarrow> P s' \<Longrightarrow> P (restore s s')"
    and change: "P s \<Longrightarrow> (\<And>r. p r \<Longrightarrow> calm_step r (f r)) \<Longrightarrow>
      P (s\<lparr>workflows := snd (sql_update p f (workflows s))\<rparr>)"
    and insert_workflow: "P s \<Longrightarrow> row_at c_id (c_id r) (workflows s) = None \<Longrightarrow> wf_workflow_row r \<Longrightarrow>
      P (s\<lparr>workflows := workflows s @ [r]\<rparr>)"
    and save_step: "P s \<Longrightarrow> good_text (s_created_at x) \<Longrightarrow>
      P (s\<lparr>step_results := replace_step x (step_results s)\<rparr>)"
    and insert_sub: "P s \<Longrightarrow> row_at k_correlation_key (k_correlation_key b) (subscriptions s) = None \<Longrightarrow>
      time_text (k_deadline b) \<Longrightarrow> time_text (k_created_at b) \<Longrightarrow>
      P (s\<lparr>subscriptions := subscriptions s @ [b]\<rparr>)"
    and remove_sub: "P s \<Longrightarrow> P (s\<lparr>subscriptions := delete_sub key (subscriptions s)\<rparr>)"
begin

lemma counters_simps [simp]:
  "P (s\<lparr>dbCalls := n\<rparr>) = P s" "P (s\<lparr>nowCalls := n\<rparr>) = P s" "P (snd (now s)) = P s"
  by (simp_all add: table_pred_simps [OF counters])

lemma call_keeps: "preserves P k \<Longrightarrow> preserves P (db_call werr k)"
  by (rule preserves_db_call [OF counters])

lemma clock_now: "P s \<Longrightarrow> good_time (fst (now s))"
  by (simp add: now_def clock)

lemma tx_keeps:
  assumes body: "preserves P body"
  shows "preserves P (in_tx cerr body)"
  unfolding in_tx_def
proof (intro call_keeps preservesI)
  fix s
  assume s: "P s"
  obtain r s' where b: "body s = (r, s')" by (cases "body s")
  have s': "P s'" using preservesD [OF body s] b by simp
  obtain r2 s2 where c: "db_call cerr (\<lambda>s. (r, s)) s' = (r2, s2)"
    by (cases "db_call cerr (\<lambda>s. (r, s)) s'")
  have "preserves P (db_call cerr (\<lambda>s. (r, s)))"
    by (rule call_keeps) (simp add: preserves_def)
  from preservesD [OF this s'] have s2: "P s2" by (simp add: c)
  show "P (snd (case body s of (Inl e, s') \<Rightarrow> (Inl e, restore s s')
      | (Inr a, s') \<Rightarrow> (case db_call cerr (\<lambda>s. (Inr a, s)) s' of
          (Inl e, s'') \<Rightarrow> (Inl e, restore s s'') | (Inr b, s'') \<Rightarrow> (Inr b, s''))))"
    using b c s s' s2 by (auto intro: rollback split: sum.splits prod.splits)
qed

lemma check_keeps: "preserves P (checkRowsAffected n)"
  unfolding checkRowsAffected_def by (rule call_keeps) (simp add: preserves_def)

text \<open>The methods that change the workflows table.\<close>

lemma Create_keeps:
  assumes "P s" and "valid_time (wr_RetryAfter r)"
  shows "P (snd (snd (Create r s)))"
proof -
  have ins: "P (snd (now s)\<lparr>dbCalls := n, workflows := workflows s @ [x]\<rparr>)"
    if "row_at c_id (c_id x) (workflows s) = None" "wf_workflow_row x" for n x
    using insert_workflow [of "snd (now s)\<lparr>dbCalls := n\<rparr>" x] assms(1) that by simp
  show ?thesis
    using assms clock_now [OF assms(1)]
    by (auto simp: Create_def Let_def split_beta db_call_def row_of_record_def wf_workflow_row_def
        split: option.splits intro!: ins)
qed

lemma update_count_keeps:
  assumes "\<And>r. p r \<Longrightarrow> calm_step r (f r)" and "\<And>n. preserves P (k n)"
  shows "preserves P (\<lambda>s. let (n, rows) = sql_update p f (workflows s)
           in k n (s\<lparr>workflows := rows\<rparr>))"
  by (rule preservesI)
    (auto simp: split_beta Let_def intro!: preservesD [OF assms(2)] change assms(1))

lemma PromoteSuspended_keeps: "P s \<Longrightarrow> valid_time t \<Longrightarrow> P (snd (PromoteSuspended t s))"
  unfolding PromoteSuspended_def
  by (rule preservesD, rule call_keeps, rule update_count_keeps)
    (auto simp: calm_step_def row_step_def promotable_def preserves_def intro: preservesD [OF call_keeps])

lemma SetSignal_keeps: "P s \<Longrightarrow> P (snd (SetSignal wid sig s))"
  using clock_now [of s] unfolding SetSignal_def Let_def split_beta
  by (intro preservesD [where P = P] call_keeps update_count_keeps [unfolded Let_def split_beta])
    (auto simp: calm_step_def row_step_def preserves_def)

lemma wake_keeps: "P s \<Longrightarrow> valid_time t \<Longrightarrow> P (s\<lparr>workflows := wake wid t (workflows s)\<rparr>)"
  unfolding wake_def by (rule change) (auto simp: calm_step_def row_step_def)

text \<open>The methods that change the other tables.\<close>

lemma SaveStepResult_keeps: "P s \<Longrightarrow> good_time (sr_CreatedAt r) \<Longrightarrow> P (snd (SaveStepResult r s))"
  unfolding SaveStepResult_def
  by (rule preservesD, rule call_keeps)
    (auto simp: preserves_def step_row_of_def intro!: save_step)

lemma SaveSubscription_keeps:
  "P s \<Longrightarrow> valid_time (sub_Deadline b) \<Longrightarrow> valid_time (sub_CreatedAt b) \<Longrightarrow>
   P (snd (SaveSubscription b s))"
  unfolding SaveSubscription_def
  by (rule preservesD, rule call_keeps)
    (auto simp: preserves_def sub_row_of_def intro!: insert_sub)

text \<open>The methods that only read.\<close>

lemma reads_keep:
  "P s \<Longrightarrow> P (snd (Get wid s))" "P s \<Longrightarrow> P (snd (GetSignal wid s))"
  "P s \<Longrightarrow> P (snd (GetStepResult ty ver wid name s))"
  unfolding Get_def GetSignal_def GetStepResult_def
  by (rule preservesD, rule call_keeps, auto simp: preserves_def split: option.splits)+

lemma lists_keep:
  "P s \<Longrightarrow> P (snd (ListSchedulable limit s))" "P s \<Longrightarrow> P (snd (ListStepResults ty ver wid s))"
  unfolding ListSchedulable_def ListStepResults_def
  by (auto simp: preserves_def Let_def split_beta split: sum.splits
      intro!: preservesD [where P = P] call_keeps)

text \<open>The transactions.\<close>

lemma ResumeSubscription_keeps: "P s \<Longrightarrow> P (snd (ResumeSubscription key payload s))"
  unfolding ResumeSubscription_def
proof (erule preservesD [rotated], intro tx_keeps call_keeps preservesI)
  fix s
  assume s: "P s"
  have "P (snd (db_call e1 (\<lambda>s. db_call e2 (\<lambda>s.
          let (t', s) = now (s\<lparr>subscriptions := delete_sub key (subscriptions s)\<rparr>) in
          db_call e3 (\<lambda>s. (Inr (), s\<lparr>workflows := wake (k_workflow_id b) t' (workflows s)\<rparr>)) s)
          (s\<lparr>step_results := replace_step (event_row b payload '''' (fst (now s0))) (step_results s)\<rparr>))
          (snd (now s0))))" if "P s0" for s0 b e1 e2 e3
  proof (rule preservesD [where P = P], intro call_keeps preservesI, goal_cases)
    case (1 s1)
    have good: "good_text (s_created_at (event_row b payload '''' (fst (now s0))))"
      using clock_now [OF that] by (simp add: event_row_def)
    show ?case
    proof (rule preservesD [where P = P], intro call_keeps preservesI, goal_cases)
      case (1 s2)
      have d: "P (s2\<lparr>subscriptions := delete_sub key (subscriptions s2)\<rparr>)"
        using 1 by (rule remove_sub)
      show ?case
        unfolding Let_def split_beta
        by (rule preservesD [where P = P], intro call_keeps preservesI)
          (use clock_now [OF d] d in \<open>auto intro!: wake_keeps\<close>)
    next
      case 2
      show ?case using 1 good by (rule save_step)
    qed
  next
    case 2
    show ?case using that by simp
  qed
  then show "P (snd (case row_at k_correlation_key key (subscriptions s) of
          None \<Rightarrow> (Inl SubscriptionNotFoundError, s)
        | Some b \<Rightarrow>
            let (t, s) = now s in
            db_call (WrapError ''save event step result'') (\<lambda>s.
              db_call (WrapError ''delete subscription'') (\<lambda>s.
                let (t', s) = now (s\<lparr>subscriptions := delete_sub key (subscriptions s)\<rparr>) in
                db_call (WrapError ''promote workflow'')
                  (\<lambda>s. (Inr (), s\<lparr>workflows := wake (k_workflow_id b) t' (workflows s)\<rparr>)) s)
                (s\<lparr>step_results := replace_step (event_row b payload '''' t) (step_results s)\<rparr>)) s))"
    using s by (auto simp: Let_def split_beta split: option.splits)
qed

lemma timeout_all_keeps:
  "good_time t \<Longrightarrow> preserves P (timeout_all t bs)"
proof (induction bs)
  case Nil
  then show ?case by (simp add: preserves_def)
next
  case (Cons b bs)
  have k3: "preserves P (\<lambda>s. timeout_all t bs (s\<lparr>workflows := wake (k_workflow_id b) t (workflows s)\<rparr>))"
    by (rule preservesI) (use Cons in \<open>auto intro!: preservesD [where P = P] wake_keeps\<close>)
  have k2: "preserves P (\<lambda>s. db_call (WrapError ''promote timed out workflow'')
      (\<lambda>s. timeout_all t bs (s\<lparr>workflows := wake (k_workflow_id b) t (workflows s)\<rparr>))
      (s\<lparr>subscriptions := delete_sub (k_correlation_key b) (subscriptions s)\<rparr>))"
    by (rule preservesI) (rule preservesD [OF call_keeps [OF k3]], rule remove_sub)
  have k1: "preserves P (\<lambda>s. db_call (WrapError ''delete expired subscription'') (\<lambda>s.
      db_call (WrapError ''promote timed out workflow'')
      (\<lambda>s. timeout_all t bs (s\<lparr>workflows := wake (k_workflow_id b) t (workflows s)\<rparr>))
      (s\<lparr>subscriptions := delete_sub (k_correlation_key b) (subscriptions s)\<rparr>))
      (s\<lparr>step_results := replace_step (event_row b None ''event_timeout'' t) (step_results s)\<rparr>))"
    by (rule preservesI) (rule preservesD [OF call_keeps [OF k2]], rule save_step,
        use Cons in \<open>auto simp: event_row_def\<close>)
  show ?case
    by (rule preservesI) (simp, rule preservesD [OF call_keeps [OF k1]])
qed

lemma TimeOutSubscriptions_keeps:
  "P s \<Longrightarrow> good_time t \<Longrightarrow> P (snd (TimeOutSubscriptions t s))"
proof -
  assume s: "P s" and t: "good_time t"
  have body: "preserves P (\<lambda>s. case timeout_all t subs s of
      (Inl e, s) \<Rightarrow> (Inl e, s) | (Inr _, s) \<Rightarrow> (Inr (int (length subs)), s))" for subs
  proof (rule preservesI)
    fix s
    assume "P s"
    from preservesD [OF timeout_all_keeps [OF t] this, of subs]
    show "P (snd (case timeout_all t subs s of
      (Inl e, s) \<Rightarrow> (Inl e, s) | (Inr _, s) \<Rightarrow> (Inr (int (length subs)), s)))"
      by (auto split: prod.splits sum.splits)
  qed
  show ?thesis
    unfolding TimeOutSubscriptions_def
    by (rule preservesD [OF tx_keeps s], intro call_keeps preservesI)
      (simp add: Let_def preservesD [OF call_keeps [OF body]])
qed

lemmas calm_keeps = Create_keeps PromoteSuspended_keeps SetSignal_keeps SaveStepResult_keeps
  SaveSubscription_keeps ResumeSubscription_keeps TimeOutSubscriptions_keeps reads_keep lists_keep

end

locale store_invariant = calm_invariant +
  assumes occ_change: "P s \<Longrightarrow> (\<And>r. row_step r (f r)) \<Longrightarrow>
      P (s\<lparr>workflows := snd (sql_update (\<lambda>r. c_id r = wid \<and> c_occ_version r = occ) f (workflows s))\<rparr>)"
begin

lemma occ_keeps:
  assumes "\<And>r. row_step r (f r)"
  shows "preserves P (occ_exec ctx wid occ f)"
  unfolding occ_exec_def
proof (intro call_keeps preservesI)
  fix s
  assume "P s"
  from occ_change [OF this assms, of wid occ]
  show "P (snd (let (n, rows) = sql_update (\<lambda>r. c_id r = wid \<and> c_occ_version r = occ) f (workflows s)
      in checkRowsAffected n (s\<lparr>workflows := rows\<rparr>)))"
    by (auto simp: split_beta Let_def intro: preservesD [OF check_keeps])
qed

lemma UpdateStatus_keeps: "P s \<Longrightarrow> P (snd (UpdateStatus wid st result occ s))"
  using clock_now [of s] unfolding UpdateStatus_def
  by (auto simp: Let_def split_beta row_step_def intro!: preservesD [OF occ_keeps])

lemma SetError_keeps: "P s \<Longrightarrow> P (snd (SetError wid st err occ s))"
  using clock_now [of s] unfolding SetError_def
  by (auto simp: Let_def split_beta row_step_def intro!: preservesD [OF occ_keeps])

lemma SetRetry_keeps: "P s \<Longrightarrow> valid_time ra \<Longrightarrow> P (snd (SetRetry wid ra occ s))"
  using clock_now [of s] unfolding SetRetry_def
  by (auto simp: Let_def split_beta row_step_def intro!: preservesD [OF occ_keeps])

lemma Suspend_keeps: "P s \<Longrightarrow> valid_time ra \<Longrightarrow> P (snd (Suspend wid ra occ s))"
  using clock_now [of s] unfolding Suspend_def
  by (auto simp: Let_def split_beta row_step_def intro!: preservesD [OF occ_keeps])

lemmas op_keeps = calm_keeps UpdateStatus_keeps SetError_keeps SetRetry_keeps Suspend_keeps

end

subsection \<open>The table invariant\<close>

lemma wf_row_step: "wf_workflow_row r \<Longrightarrow> row_step r r' \<Longrightarrow> wf_workflow_row r'"
  by (auto simp: wf_workflow_row_def row_step_def)

lemma replace_step_keys_distinct:
  "distinct (map step_key rows) \<Longrightarrow> distinct (map step_key (replace_step x rows))"
  by (auto simp: replace_step_def distinct_map intro: inj_on_subset)

lemma row_at_replace_step:
  "row_at step_key k (replace_step x rows) =
     (if k = step_key x then Some x else row_at step_key k rows)"
proof (cases "k = step_key x")
  case True
  have "row_at step_key k (filter (\<lambda>y. step_key y \<noteq> step_key x) rows) = None"
    using True by (auto simp: row_at_None_iff)
  then show ?thesis using True by (simp add: replace_step_def row_at_append)
next
  case False
  then have "row_at step_key k (filter (\<lambda>y. step_key y \<noteq> step_key x) rows) = row_at step_key k rows"
    by (intro row_at_filter_other) auto
  then show ?thesis using False by (simp add: replace_step_def row_at_append split: option.splits)
qed

lemma wf_store_change:
  assumes "wf_store s" and "\<And>r. p r \<Longrightarrow> row_step r (f r)"
  shows "wf_store (s\<lparr>workflows := snd (sql_update p f (workflows s))\<rparr>)"
proof -
  let ?g = "\<lambda>r. if p r then f r else r"
  have "c_id \<circ> ?g = c_id"
    using assms(2) by (auto simp: row_step_def)
  moreover have "\<forall>r \<in> set (map ?g (workflows s)). wf_workflow_row r"
    using assms wf_row_step by (auto simp: wf_store_def)
  ultimately show ?thesis
    using assms(1) by (simp add: wf_store_def sql_update_def comp_def del: set_map)
qed

interpretation tables_wf: store_invariant wf_store
proof unfold_locales
  show "wf_store (restore s s')" if "wf_store s" "wf_store s'" for s s'
    using that by (simp add: wf_store_def)
  show "wf_store (s\<lparr>workflows := snd (sql_update p f (workflows s))\<rparr>)"
    if "wf_store s" "\<And>r. p r \<Longrightarrow> calm_step r (f r)" for s p f
    using that by (auto simp: calm_step_def intro: wf_store_change)
  show "wf_store (s\<lparr>workflows := snd (sql_update (\<lambda>r. c_id r = wid \<and> c_occ_version r = occ) f (workflows s))\<rparr>)"
    if "wf_store s" "\<And>r. row_step r (f r)" for s wid occ f
    using that by (rule wf_store_change)
  show "wf_store (s\<lparr>step_results := replace_step x (step_results s)\<rparr>)"
    if "wf_store s" "good_text (s_created_at x)" for s x
    using that replace_step_keys_distinct [of "step_results s" x]
    by (auto simp: wf_store_def replace_step_def)
  show "wf_store (s\<lparr>subscriptions := delete_sub key (subscriptions s)\<rparr>)"
    if "wf_store s" for s key
    using that by (auto simp: wf_store_def delete_sub_def distinct_map intro: inj_on_subset)
qed (auto simp: wf_table_pred wf_store_def row_at_None_iff)

subsection \<open>The history of a row\<close>

text \<open>
  What later versions of a row have in common with an earlier one: the identity, the payload and
  the creation time; the counters only grow; and while the version is the same, so is everything
  the engine decides on.
\<close>

definition row_evolves :: "workflow_row \<Rightarrow> workflow_row \<Rightarrow> bool" where
  "row_evolves r r' \<longleftrightarrow>
     c_id r' = c_id r \<and> c_type r' = c_type r \<and> c_version r' = c_version r \<and>
     c_payload r' = c_payload r \<and> c_created_at r' = c_created_at r \<and>
     c_attempts r \<le> c_attempts r' \<and> c_occ_version r \<le> c_occ_version r' \<and>
     (c_occ_version r' = c_occ_version r \<longrightarrow>
        c_status r' = c_status r \<and> c_result r' = c_result r \<and> c_error r' = c_error r \<and>
        c_retry_after r' = c_retry_after r \<and> c_attempts r' = c_attempts r)"

lemma row_evolves_refl [simp]: "row_evolves r r"
  by (simp add: row_evolves_def)

lemma row_evolves_trans: "row_evolves r r' \<Longrightarrow> row_evolves r' r'' \<Longrightarrow> row_evolves r r''"
  by (auto simp: row_evolves_def)

lemma row_step_evolves: "row_step r r' \<Longrightarrow> row_evolves r r'"
  by (auto simp: row_evolves_def row_step_def)

definition store_evolves :: "store \<Rightarrow> store \<Rightarrow> bool" where
  "store_evolves s s' \<longleftrightarrow>
     (\<forall>wid r. row_at c_id wid (workflows s) = Some r \<longrightarrow>
        (\<exists>r'. row_at c_id wid (workflows s') = Some r' \<and> row_evolves r r')) \<and>
     (\<forall>k. row_at step_key k (step_results s) \<noteq> None \<longrightarrow> row_at step_key k (step_results s') \<noteq> None)"

lemma store_evolves_refl [simp]: "store_evolves s s"
  by (auto simp: store_evolves_def)

lemma store_evolves_trans: "store_evolves s s' \<Longrightarrow> store_evolves s' s'' \<Longrightarrow> store_evolves s s''"
  unfolding store_evolves_def by (meson row_evolves_trans)

lemma store_evolves_workflow:
  "store_evolves s s' \<Longrightarrow> row_at c_id wid (workflows s) = Some r \<Longrightarrow>
   \<exists>r'. row_at c_id wid (workflows s') = Some r' \<and> row_evolves r r'"
  by (auto simp: store_evolves_def)

lemma store_evolves_change:
  assumes "\<And>r. p r \<Longrightarrow> row_step r (f r)"
  shows "store_evolves s (s\<lparr>workflows := snd (sql_update p f (workflows s))\<rparr>)"
proof -
  let ?g = "\<lambda>r. if p r then f r else r"
  have key: "c_id (?g r) = c_id r" for r
    using assms by (auto simp: row_step_def)
  have "row_at c_id wid (snd (sql_update p f (workflows s))) =
      map_option ?g (row_at c_id wid (workflows s))" for wid
    unfolding sql_update_def snd_conv by (rule row_at_map_same_key) (rule key)
  moreover have "row_evolves r (?g r)" for r
    using assms row_step_evolves by auto
  ultimately show ?thesis
    by (auto simp: store_evolves_def)
qed

interpretation history: store_invariant "\<lambda>s. wf_store s \<and> store_evolves s0 s" for s0
proof (unfold_locales, goal_cases)
  case 1
  show ?case by (simp add: table_pred_def) (simp add: store_evolves_def)
next
  case (2 s n)
  then show ?case by (simp add: tables_wf.clock)
next
  case (3 s s')
  then show ?case by (simp add: tables_wf.rollback) (simp add: store_evolves_def)
next
  case (4 s p f)
  then show ?case
    using store_evolves_trans [OF _ store_evolves_change]
    by (auto simp: calm_step_def intro: wf_store_change)
next
  case (5 s r)
  then show ?case
    using tables_wf.insert_workflow by (fastforce simp: store_evolves_def row_at_append)
next
  case (6 s x)
  then show ?case
    using tables_wf.save_step by (auto simp: store_evolves_def row_at_replace_step)
next
  case (7 s b)
  then show ?case
    using tables_wf.insert_sub by (auto simp: store_evolves_def)
next
  case (8 s key)
  then show ?case
    using tables_wf.remove_sub by (auto simp: store_evolves_def)
next
  case (9 s f wid occ)
  then show ?case
    using store_evolves_trans [OF _ store_evolves_change] by (auto intro: wf_store_change)
qed

subsection \<open>What a finished workflow ended with\<close>

definition frozen :: "store \<Rightarrow> store \<Rightarrow> bool" where
  "frozen s s' \<longleftrightarrow> (\<forall>wid r. row_at c_id wid (workflows s) = Some r \<longrightarrow> terminal (c_status r) \<longrightarrow>
     (\<exists>r'. row_at c_id wid (workflows s') = Some r' \<and>
        c_status r' = c_status r \<and> c_result r' = c_result r \<and> c_error r' = c_error r))"

lemma frozen_refl [simp]: "frozen s s"
  by (simp add: frozen_def)

lemma frozen_trans: "frozen s s' \<Longrightarrow> frozen s' s'' \<Longrightarrow> frozen s s''"
  unfolding frozen_def by metis

lemma frozen_change:
  assumes "\<And>r. p r \<Longrightarrow> c_id (f r) = c_id r"
    and "\<And>r. r \<in> set (workflows s) \<Longrightarrow> p r \<Longrightarrow> terminal (c_status r) \<Longrightarrow>
      c_status (f r) = c_status r \<and> c_result (f r) = c_result r \<and> c_error (f r) = c_error r"
    and "workflows s' = snd (sql_update p f (workflows s))"
  shows "frozen s s'"
proof -
  let ?g = "\<lambda>r. if p r then f r else r"
  have "row_at c_id wid (workflows s') = map_option ?g (row_at c_id wid (workflows s))" for wid
    unfolding assms(3) sql_update_def snd_conv by (rule row_at_map_same_key) (simp add: assms(1))
  then show ?thesis
    using assms(2) by (auto simp: frozen_def dest: row_at_mem)
qed

interpretation ended: calm_invariant "\<lambda>s. wf_store s \<and> frozen s0 s" for s0
proof (unfold_locales, goal_cases)
  case 1
  show ?case by (simp add: table_pred_def) (simp add: frozen_def)
next
  case (2 s n)
  then show ?case by (simp add: tables_wf.clock)
next
  case (3 s s')
  then show ?case by (simp add: tables_wf.rollback) (simp add: frozen_def)
next
  case (4 s p f)
  have "frozen s (s\<lparr>workflows := snd (sql_update p f (workflows s))\<rparr>)"
    by (rule frozen_change [where p = p and f = f]) (use 4(2) in \<open>auto simp: calm_step_def row_step_def\<close>)
  with 4 show ?case using frozen_trans tables_wf.change by blast
next
  case (5 s r)
  then show ?case
    using tables_wf.insert_workflow by (fastforce simp: frozen_def row_at_append)
next
  case (6 s x)
  then show ?case using tables_wf.save_step by (auto simp: frozen_def)
next
  case (7 s b)
  then show ?case using tables_wf.insert_sub by (auto simp: frozen_def)
next
  case (8 s key)
  then show ?case using tables_wf.remove_sub by (auto simp: frozen_def)
qed

end
