(* ===== verification/StoreProps.thy ===== *)
theory StoreProps
  imports StoreInv
begin

section \<open>What the store promises\<close>

text \<open>
  The contract of \<open>WorkflowStore\<close> (\<^verbatim>\<open>store.go\<close>) as the SQLite store fulfils it: any sequence of
  calls keeps the table invariant and lets rows only evolve; a transaction that returns an error
  leaves the tables alone; an event is delivered at most once; the versioned updates apply exactly
  when the version is current; the scheduler's query returns due pending rows, oldest first.
\<close>

subsection \<open>Sequences of calls\<close>

text \<open>One constructor per method of the interface.\<close>

datatype store_call =
    CallCreate WorkflowRecord
  | CallGet string
  | CallUpdateStatus string status "bytes option" int
  | CallSetError string status string int
  | CallSetRetry string time int
  | CallSuspend string time int
  | CallPromoteSuspended time
  | CallListSchedulable int
  | CallSaveStepResult StepResult
  | CallGetStepResult string string string string
  | CallListStepResults string string string
  | CallGetSignal string
  | CallSetSignal string signal
  | CallSaveSubscription Subscription
  | CallResumeSubscription string "bytes option"
  | CallTimeOutSubscriptions time

fun exec_call :: "store_call \<Rightarrow> store \<Rightarrow> store" where
  "exec_call (CallCreate r) s = snd (snd (Create r s))"
| "exec_call (CallGet wid) s = snd (Get wid s)"
| "exec_call (CallUpdateStatus wid st result occ) s = snd (UpdateStatus wid st result occ s)"
| "exec_call (CallSetError wid st err occ) s = snd (SetError wid st err occ s)"
| "exec_call (CallSetRetry wid ra occ) s = snd (SetRetry wid ra occ s)"
| "exec_call (CallSuspend wid ra occ) s = snd (Suspend wid ra occ s)"
| "exec_call (CallPromoteSuspended t) s = snd (PromoteSuspended t s)"
| "exec_call (CallListSchedulable limit) s = snd (ListSchedulable limit s)"
| "exec_call (CallSaveStepResult r) s = snd (SaveStepResult r s)"
| "exec_call (CallGetStepResult ty ver wid name) s = snd (GetStepResult ty ver wid name s)"
| "exec_call (CallListStepResults ty ver wid) s = snd (ListStepResults ty ver wid s)"
| "exec_call (CallGetSignal wid) s = snd (GetSignal wid s)"
| "exec_call (CallSetSignal wid sig) s = snd (SetSignal wid sig s)"
| "exec_call (CallSaveSubscription b) s = snd (SaveSubscription b s)"
| "exec_call (CallResumeSubscription key payload) s = snd (ResumeSubscription key payload s)"
| "exec_call (CallTimeOutSubscriptions t) s = snd (TimeOutSubscriptions t s)"

text \<open>The instants a call passes are instants the text format can express.\<close>

fun call_ok :: "store_call \<Rightarrow> bool" where
  "call_ok (CallCreate r) = valid_time (wr_RetryAfter r)"
| "call_ok (CallSetRetry wid ra occ) = valid_time ra"
| "call_ok (CallSuspend wid ra occ) = valid_time ra"
| "call_ok (CallPromoteSuspended t) = valid_time t"
| "call_ok (CallSaveStepResult r) = good_time (sr_CreatedAt r)"
| "call_ok (CallSaveSubscription b) = (valid_time (sub_Deadline b) \<and> valid_time (sub_CreatedAt b))"
| "call_ok (CallTimeOutSubscriptions t) = good_time t"
| "call_ok _ = True"

lemma exec_call_keeps:
  assumes "wf_store s \<and> store_evolves s0 s" and "call_ok c"
  shows "wf_store (exec_call c s) \<and> store_evolves s0 (exec_call c s)"
  by (insert assms(2), cases c, simp_all only: exec_call.simps call_ok.simps)
    (rule history.op_keeps [OF assms(1)]; (assumption | erule conjunct1 conjunct2)?)+

lemma exec_calls_keep:
  "wf_store s \<and> store_evolves s0 s \<Longrightarrow> list_all call_ok calls \<Longrightarrow>
   wf_store (fold exec_call calls s) \<and> store_evolves s0 (fold exec_call calls s)"
proof (induction calls arbitrary: s)
  case Nil
  then show ?case by simp
next
  case (Cons c calls)
  from Cons.IH [OF exec_call_keeps [OF Cons.prems(1)]] Cons.prems(2) show ?case by simp
qed

subsection \<open>A driver without faults\<close>

definition no_fault :: "store \<Rightarrow> bool" where
  "no_fault s \<longleftrightarrow> (\<forall>n. dbFault s n = None)"

lemma no_fault_fields [simp]:
  "no_fault (s\<lparr>dbCalls := n\<rparr>) = no_fault s" "no_fault (s\<lparr>nowCalls := n\<rparr>) = no_fault s"
  "no_fault (s\<lparr>workflows := w\<rparr>) = no_fault s" "no_fault (s\<lparr>step_results := x\<rparr>) = no_fault s"
  "no_fault (s\<lparr>subscriptions := b\<rparr>) = no_fault s" "no_fault (snd (now s)) = no_fault s"
  by (simp_all add: no_fault_def)

lemma db_call_no_fault:
  "no_fault s \<Longrightarrow> db_call werr k s = k (s\<lparr>dbCalls := Suc (dbCalls s)\<rparr>)"
  by (simp add: db_call_def no_fault_def)

lemma db_call_okD: "db_call werr k s = (Inr a, s') \<Longrightarrow> k (s\<lparr>dbCalls := Suc (dbCalls s)\<rparr>) = (Inr a, s')"
  by (auto simp: db_call_def Let_def split: option.splits)

subsection \<open>Transactions\<close>

lemma tables_of_simps [simp]:
  "tables_of (s\<lparr>dbCalls := n\<rparr>) = tables_of s" "tables_of (s\<lparr>nowCalls := n\<rparr>) = tables_of s"
  "tables_of (snd (now s)) = tables_of s" "tables_of (restore s0 s) = tables_of s0"
  by (simp_all add: tables_of_def tables.defs now_def restore_def)

lemma tables_of_eq_iff:
  "tables_of s = tables_of s' \<longleftrightarrow>
     workflows s = workflows s' \<and> step_results s = step_results s' \<and> subscriptions s = subscriptions s'"
  by (simp add: tables_of_def tables.defs)

lemma in_tx_error: "in_tx cerr body s = (Inl e, s') \<Longrightarrow> tables_of s' = tables_of s"
  by (auto simp: in_tx_def db_call_def Let_def split: option.splits prod.splits sum.splits)

lemma in_tx_ok:
  assumes "in_tx cerr body s = (Inr a, s')"
  shows "\<exists>s1. body (s\<lparr>dbCalls := Suc (dbCalls s)\<rparr>) = (Inr a, s1) \<and> tables_of s' = tables_of s1"
  using assms
  by (auto simp: in_tx_def db_call_def Let_def split: option.splits prod.splits sum.splits)

text \<open>What \<open>ResumeSubscription\<close> did when it returns no error: all three changes, and only them.\<close>

lemma ResumeSubscription_ok:
  assumes "ResumeSubscription key payload s = (Inr (), s')"
  shows "\<exists>b t t'. row_at k_correlation_key key (subscriptions s) = Some b \<and>
           step_results s' = replace_step (event_row b payload '''' t) (step_results s) \<and>
           subscriptions s' = delete_sub key (subscriptions s) \<and>
           workflows s' = wake (k_workflow_id b) t' (workflows s) \<and>
           t = nowFn s (nowCalls s) \<and> t' = nowFn s (Suc (nowCalls s))"
  using in_tx_ok [OF assms [unfolded ResumeSubscription_def]]
  by (auto simp: tables_of_eq_iff now_def dest!: db_call_okD split: option.splits)

lemma ResumeSubscription_unknown:
  assumes "row_at k_correlation_key key (subscriptions s) = None" and "no_fault s"
  shows "fst (ResumeSubscription key payload s) = Inl SubscriptionNotFoundError"
  using assms by (simp add: ResumeSubscription_def in_tx_def db_call_no_fault)

lemma ResumeSubscription_known:
  assumes "row_at k_correlation_key key (subscriptions s) = Some b" and "no_fault s"
  shows "fst (ResumeSubscription key payload s) = Inr ()"
  using assms
  by (simp add: ResumeSubscription_def in_tx_def db_call_no_fault Let_def case_prod_unfold)

lemma delete_sub_gone [simp]: "row_at k_correlation_key key (delete_sub key rows) = None"
  by (auto simp: delete_sub_def row_at_None_iff)

lemma delete_sub_other:
  "k \<noteq> key \<Longrightarrow> row_at k_correlation_key k (delete_sub key rows) = row_at k_correlation_key k rows"
  unfolding delete_sub_def by (rule row_at_filter_other) auto

lemma row_at_wake:
  "row_at c_id wid (wake wid' t rows) =
     map_option (\<lambda>r. if c_id r = wid' \<and> c_status r = StatusSuspended
        then r\<lparr>c_status := StatusPending, c_retry_after := '''',
               c_occ_version := c_occ_version r + 1, c_updated_at := formatTime t\<rparr> else r)
       (row_at c_id wid rows)"
  unfolding wake_def by (rule row_at_sql_update) simp

text \<open>Waking the workflows of several subscriptions is one update of the table: a second wake finds the row pending.\<close>

definition woken :: "time \<Rightarrow> workflow_row \<Rightarrow> workflow_row" where
  "woken t r = r\<lparr>c_status := StatusPending, c_retry_after := '''',
     c_occ_version := c_occ_version r + 1, c_updated_at := formatTime t\<rparr>"

lemma woken_simps [simp]: "c_id (woken t r) = c_id r" "c_status (woken t r) = StatusPending" "schedulable t' (woken t r)"
  by (simp_all add: woken_def schedulable_def)

lemma wake_map: "wake wid t rows = map (\<lambda>r. if c_id r = wid \<and> c_status r = StatusSuspended then woken t r else r) rows"
  by (simp add: wake_def sql_update_def woken_def)

lemma fold_wake:
  "fold (\<lambda>b. wake (k_workflow_id b) t) bs rows =
     map (\<lambda>r. if c_id r \<in> k_workflow_id ` set bs \<and> c_status r = StatusSuspended then woken t r else r) rows"
  by (induction bs arbitrary: rows) (auto simp: wake_map status_defs)

text \<open>
  The step result an event leaves behind: what \<open>GetStepResult\<close> of the waiting step reads back.
\<close>

lemma GetStepResult_replaced:
  assumes "good_text (s_created_at x)" and "step_results s = replace_step x rows" and "no_fault s"
  shows "\<exists>t. fst (GetStepResult (s_type x) (s_version x) (s_workflow_id x) (s_step_name x) s) =
    Inr \<lparr>sr_Type = s_type x, sr_Version = s_version x, sr_WorkflowID = s_workflow_id x,
         sr_StepName = s_step_name x, sr_Result = s_result x, sr_Error = s_error x, sr_CreatedAt = t\<rparr>"
proof -
  obtain t where t: "good_time t" "s_created_at x = formatTime t"
    using assms(1) by (auto simp: good_text_def)
  have "row_at step_key (s_type x, s_version x, s_workflow_id x, s_step_name x) (step_results s) = Some x"
    using row_at_replace_step [of "step_key x" x rows] assms(2) by (simp add: step_key_def)
  with t assms(3) show ?thesis
    by (simp add: GetStepResult_def db_call_no_fault scanStepResult_def good_time_def
        formatTime_def parseTime_rfc3339nano)
qed

subsection \<open>Expired subscriptions\<close>

lemma timeout_all_ok:
  assumes "timeout_all t bs s = (Inr (), s')"
  shows "subscriptions s' = filter (\<lambda>b. k_correlation_key b \<notin> k_correlation_key ` set bs) (subscriptions s)"
    and "workflows s' = fold (\<lambda>b. wake (k_workflow_id b) t) bs (workflows s)"
    and "step_results s' = fold (\<lambda>b. replace_step (event_row b None ''event_timeout'' t)) bs (step_results s)"
proof -
  have "subscriptions s' = filter (\<lambda>b. k_correlation_key b \<notin> k_correlation_key ` set bs) (subscriptions s) \<and>
    workflows s' = fold (\<lambda>b. wake (k_workflow_id b) t) bs (workflows s) \<and>
    step_results s' = fold (\<lambda>b. replace_step (event_row b None ''event_timeout'' t)) bs (step_results s)"
    using assms
  proof (induction bs arbitrary: s)
    case Nil
    then show ?case by simp
  next
    case (Cons b bs)
    from Cons.prems obtain s1 where rest: "timeout_all t bs s1 = (Inr (), s')"
      and s1: "workflows s1 = wake (k_workflow_id b) t (workflows s)"
        "subscriptions s1 = delete_sub (k_correlation_key b) (subscriptions s)"
        "step_results s1 = replace_step (event_row b None ''event_timeout'' t) (step_results s)"
      by (auto dest!: db_call_okD)
    from Cons.IH [OF rest] show ?case
      by (auto simp: s1 delete_sub_def intro: filter_cong)
  qed
  then show "subscriptions s' = filter (\<lambda>b. k_correlation_key b \<notin> k_correlation_key ` set bs) (subscriptions s)"
    and "workflows s' = fold (\<lambda>b. wake (k_workflow_id b) t) bs (workflows s)"
    and "step_results s' = fold (\<lambda>b. replace_step (event_row b None ''event_timeout'' t)) bs (step_results s)"
    by simp_all
qed

lemma TimeOutSubscriptions_ok:
  assumes "TimeOutSubscriptions t s = (Inr n, s')"
  shows "n = int (length (filter (expired t) (subscriptions s))) \<and>
    subscriptions s' = filter (\<lambda>b. k_correlation_key b \<notin> k_correlation_key ` {b \<in> set (subscriptions s). expired t b}) (subscriptions s) \<and>
    workflows s' = fold (\<lambda>b. wake (k_workflow_id b) t) (filter (expired t) (subscriptions s)) (workflows s) \<and>
    step_results s' = fold (\<lambda>b. replace_step (event_row b None ''event_timeout'' t))
      (filter (expired t) (subscriptions s)) (step_results s)"
proof -
  from in_tx_ok [OF assms [unfolded TimeOutSubscriptions_def]] obtain s0 s1 where
    loop: "timeout_all t (filter (expired t) (subscriptions s)) s0 = (Inr (), s1)"
    and n: "n = int (length (filter (expired t) (subscriptions s)))"
    and s0: "tables_of s0 = tables_of s" and s1: "tables_of s' = tables_of s1"
    by (auto simp: Let_def dest!: db_call_okD split: prod.splits sum.splits)
  show ?thesis
    using timeout_all_ok [OF loop] n s0 s1 by (simp add: tables_of_eq_iff)
qed

subsection \<open>Creating and reading a workflow\<close>

lemma Create_ok:
  assumes "no_fault s" and "wf_store s" and "wr_Status r = StatusPending" and "valid_time (wr_RetryAfter r)"
    and "Create r s = (Inr (), r', s')"
  shows "r' = r\<lparr>wr_CreatedAt := nowFn s (nowCalls s), wr_UpdatedAt := nowFn s (nowCalls s), wr_OCCVersion := 1\<rparr>"
    and "row_at c_id (wr_ID r) (workflows s') = Some (row_of_record r' (nowFn s (nowCalls s)))"
    and "scanWorkflow (row_of_record r' (nowFn s (nowCalls s))) = Inr r'"
    and "no_fault s'" and "wf_store s'"
proof -
  have clock: "good_time (nowFn s (nowCalls s))" using assms(2) by (rule tables_wf.clock)
  have none: "row_at c_id (wr_ID r) (workflows s) = None"
    and s': "s' = s\<lparr>nowCalls := Suc (nowCalls s), dbCalls := Suc (dbCalls s), workflows := workflows s @
      [row_of_record r' (nowFn s (nowCalls s))]\<rparr>"
    and r': "r' = r\<lparr>wr_CreatedAt := nowFn s (nowCalls s), wr_UpdatedAt := nowFn s (nowCalls s), wr_OCCVersion := 1\<rparr>"
    using assms by (auto simp: Create_def now_def db_call_no_fault Let_def split: if_splits)
  show "r' = r\<lparr>wr_CreatedAt := nowFn s (nowCalls s), wr_UpdatedAt := nowFn s (nowCalls s), wr_OCCVersion := 1\<rparr>"
    by (rule r')
  show "row_at c_id (wr_ID r) (workflows s') = Some (row_of_record r' (nowFn s (nowCalls s)))"
    using none by (simp add: s' row_at_append row_of_record_def r')
  show "scanWorkflow (row_of_record r' (nowFn s (nowCalls s))) = Inr r'"
    using clock assms(4) by (simp add: scanWorkflow_def row_of_record_def parse_column_formatTime r')
  show "no_fault s'" using assms(1) s' by simp
  show "wf_store s'" using tables_wf.Create_keeps [OF assms(2,4)] assms(5) by simp
qed

lemma Create_taken:
  assumes "no_fault s" and "row_at c_id (wr_ID r) (workflows s) \<noteq> None"
  shows "\<exists>err. fst (Create r s) = Inl err" and "tables_of (snd (snd (Create r s))) = tables_of s"
  using assms by (auto simp: Create_def now_def db_call_no_fault Let_def tables_of_eq_iff)

lemma Create_new:
  assumes "no_fault s" and "row_at c_id (wr_ID r) (workflows s) = None"
  shows "fst (Create r s) = Inr ()"
  using assms by (simp add: Create_def now_def db_call_no_fault Let_def)

end
