(* ===== verification/StepRun.thy ===== *)
theory StepRun
  imports StoreProps
begin

section \<open>Durable steps\<close>

text \<open>
  \<^verbatim>\<open>run.go\<close>, \<^verbatim>\<open>context.go\<close>, \<^verbatim>\<open>provider.go\<close> and \<^verbatim>\<open>providers.go\<close>: what a workflow can call. The
  JSON codec of a step's type is a parameter (\<open>codec\<close>), as is the step function; a step function may
  do anything to the environment, return a value, a nil pointer (\<open>None\<close>) or an error, or panic.

  The environment holds what the contexts of one execution share: the store, the set \<open>seenSteps\<close>
  behind the shared mutex, the engine's clock and id generator (the n-th call gives the n-th value)
  and the rest of the world the step functions act on. A \<open>WorkflowContext\<close> is a value holding
  the fields of the struct; its counters are the mutable part, so the operations that advance one
  return the new context. Telemetry and logging change nothing else and are left out; the store of a
  context is never nil, as in every context the runner builds.
\<close>

record 'v codec =
  marshal :: "'v option \<Rightarrow> bytes res"
  unmarshal :: "bytes option \<Rightarrow> 'v res"

record provider =
  p_prefix :: string
  p_counter :: nat

record wctx =
  wc_id :: string
  wc_wfType :: string
  wc_version :: string
  stepCache :: "string \<rightharpoonup> StepResult"
  prefix :: string
  sleepCounter :: nat
  TimeProvider :: provider
  IDProvider :: provider

record 'w env =
  the_store :: store
  seenSteps :: "string set"
  engineNow :: "nat \<Rightarrow> time"
  engineNows :: nat
  engineID :: "nat \<Rightarrow> string"
  engineIDs :: nat
  world :: 'w

type_synonym ('a, 'w) act = "'w env \<Rightarrow> 'a \<times> 'w env"

definition on_store :: "(store \<Rightarrow> 'a \<times> store) \<Rightarrow> ('a, 'w) act" where
  "on_store f e = (let (a, s) = f (the_store e) in (a, e\<lparr>the_store := s\<rparr>))"

definition nowFunc :: "(time, 'w) act" where
  "nowFunc e = (engineNow e (engineNows e), e\<lparr>engineNows := Suc (engineNows e)\<rparr>)"

definition idFunc :: "(string, 'w) act" where
  "idFunc e = (engineID e (engineIDs e), e\<lparr>engineIDs := Suc (engineIDs e)\<rparr>)"

subsection \<open>Names\<close>

definition resolveStepName :: "wctx \<Rightarrow> string \<Rightarrow> string" where
  "resolveStepName wc name = (if prefix wc = '''' then name else prefix wc @ ''/'' @ name)"

definition trackStep :: "string \<Rightarrow> (unit res, 'w) act" where
  "trackStep name e =
     (if name \<in> seenSteps e
      then (Inl (ErrorString (''duplicate step name '' @ go_quote name @
                   '': each step must have a unique name'')), e)
      else (Inr (), e\<lparr>seenSteps := insert name (seenSteps e)\<rparr>))"

definition NewProvider :: "string \<Rightarrow> provider" where
  "NewProvider pre = \<lparr>p_prefix = pre, p_counter = 0\<rparr>"

definition NewTimeProvider :: provider where "NewTimeProvider = NewProvider ''_time.now''"
definition NewIDProvider :: provider where "NewIDProvider = NewProvider ''_id.new''"

definition Scope :: "wctx \<Rightarrow> string \<Rightarrow> wctx" where
  "Scope wc name = wc\<lparr>prefix := (if prefix wc \<noteq> '''' then prefix wc @ ''/'' @ name else name),
     sleepCounter := 0, TimeProvider := NewTimeProvider, IDProvider := NewIDProvider\<rparr>"

subsection \<open>\<open>Run\<close>\<close>

definition stepErrorTimeout :: string where
  "stepErrorTimeout = ''event_timeout''"

definition cachedStepError :: "string \<Rightarrow> gerror" where
  "cachedStepError errStr =
     (if errStr = stepErrorTimeout then ErrEventTimeout
      else ErrorString (''cached step error: '' @ errStr))"

text \<open>The prefetched cache first, then the store; a step that was not found is a miss.\<close>

definition lookup_step :: "wctx \<Rightarrow> string \<Rightarrow> (StepResult option res, 'w) act" where
  "lookup_step wc stepName e =
     (case stepCache wc stepName of
        Some c \<Rightarrow> (Inr (Some c), e)
      | None \<Rightarrow>
          (case on_store (GetStepResult (wc_wfType wc) (wc_version wc) (wc_id wc) stepName) e of
             (Inr c, e) \<Rightarrow> (Inr (Some c), e)
           | (Inl err, e) \<Rightarrow>
               if is_step_not_found err then (Inr None, e)
               else (Inl (WrapError (''get step '' @ go_quote stepName @ '' result'') err), e)))"

definition cache_hit :: "'v codec \<Rightarrow> string \<Rightarrow> StepResult \<Rightarrow> 'v option res" where
  "cache_hit cd stepName c =
     (if sr_Error c \<noteq> '''' then Inl (cachedStepError (sr_Error c))
      else case unmarshal cd (sr_Result c) of
             Inl err \<Rightarrow> Inl (WrapError (''unmarshal step '' @ go_quote stepName @ '' cached result'') err)
           | Inr v \<Rightarrow> Inr (Some v))"

definition save_result :: "wctx \<Rightarrow> string \<Rightarrow> bytes \<Rightarrow> (unit res, 'w) act" where
  "save_result wc stepName data e =
     (let (t, e) = nowFunc e in
      on_store (SaveStepResult \<lparr>sr_Type = wc_wfType wc, sr_Version = wc_version wc,
        sr_WorkflowID = wc_id wc, sr_StepName = stepName, sr_Result = Some data, sr_Error = '''',
        sr_CreatedAt = t\<rparr>) e)"

definition cache_miss :: "'v codec \<Rightarrow> wctx \<Rightarrow> string \<Rightarrow> ('v option go_outcome, 'w) act \<Rightarrow>
    ('v option res, 'w) act" where
  "cache_miss cd wc stepName fn e =
     (let (out, e) = fn e in
      case panicToError out of
        Inl err \<Rightarrow> (Inl err, e)
      | Inr result \<Rightarrow>
          (case marshal cd result of
             Inl err \<Rightarrow> (Inl (WrapError (''marshal step '' @ go_quote stepName @ '' result'') err), e)
           | Inr data \<Rightarrow>
               (case save_result wc stepName data e of
                  (Inl err, e) \<Rightarrow>
                    (Inl (WrapError (''save step '' @ go_quote stepName @ '' result'') err), e)
                | (Inr _, e) \<Rightarrow> (Inr result, e))))"

definition Run :: "'v codec \<Rightarrow> wctx \<Rightarrow> string \<Rightarrow> ('v option go_outcome, 'w) act \<Rightarrow>
    ('v option res, 'w) act" where
  "Run cd wc name fn e =
     (let stepName = resolveStepName wc name in
      case trackStep stepName e of (Inl err, e) \<Rightarrow> (Inl err, e) | (Inr _, e) \<Rightarrow>
      case on_store (GetSignal (wc_id wc)) e of
        (Inl err, e) \<Rightarrow> (Inl (WrapError (''check signal for step '' @ go_quote stepName) err), e)
      | (Inr signal, e) \<Rightarrow>
          if signal = SignalCancelRequested then (Inl ErrCancelled, e)
          else case lookup_step wc stepName e of
                 (Inl err, e) \<Rightarrow> (Inl err, e)
               | (Inr (Some c), e) \<Rightarrow> (cache_hit cd stepName c, e)
               | (Inr None, e) \<Rightarrow> cache_miss cd wc stepName fn e)"

subsection \<open>Providers, sleeping, events\<close>

text \<open>Reading through a nil pointer panics.\<close>

definition deref :: "'a option res \<Rightarrow> 'a go_outcome" where
  "deref r = (case r of Inl err \<Rightarrow> Returned (Inl err) | Inr (Some v) \<Rightarrow> Returned (Inr v)
     | Inr None \<Rightarrow> Panicked ''runtime error: invalid memory address or nil pointer dereference'' '''')"

definition step_number :: "string \<Rightarrow> nat \<Rightarrow> string" where
  "step_number pre n = pre @ '':'' @ dec_nat n"

definition ProviderGet :: "'v codec \<Rightarrow> wctx \<Rightarrow> provider \<Rightarrow> ('v go_outcome, 'w) act \<Rightarrow> 'w env \<Rightarrow>
    'v go_outcome \<times> provider \<times> 'w env" where
  "ProviderGet cd wc p gen e =
     (let p = p\<lparr>p_counter := Suc (p_counter p)\<rparr>;
          (r, e) = Run cd wc (step_number (p_prefix p) (p_counter p))
            (\<lambda>e. case gen e of
                   (Returned (Inr v), e) \<Rightarrow> (Returned (Inr (Some v)), e)
                 | (Returned (Inl err), e) \<Rightarrow> (Returned (Inl err), e)
                 | (Panicked v stack, e) \<Rightarrow> (Panicked v stack, e)) e
      in (deref r, p, e))"

definition TimeNow :: "time codec \<Rightarrow> wctx \<Rightarrow> 'w env \<Rightarrow> time go_outcome \<times> wctx \<times> 'w env" where
  "TimeNow cd wc e =
     (let (r, p, e) = ProviderGet cd wc (TimeProvider wc)
            (\<lambda>e. let (t, e) = nowFunc e in (Returned (Inr t), e)) e
      in (r, wc\<lparr>TimeProvider := p\<rparr>, e))"

definition IDNew :: "string codec \<Rightarrow> wctx \<Rightarrow> 'w env \<Rightarrow> string go_outcome \<times> wctx \<times> 'w env" where
  "IDNew cd wc e =
     (let (r, p, e) = ProviderGet cd wc (IDProvider wc)
            (\<lambda>e. let (i, e) = idFunc e in (Returned (Inr i), e)) e
      in (r, wc\<lparr>IDProvider := p\<rparr>, e))"

definition SleepUntil :: "time codec \<Rightarrow> wctx \<Rightarrow> time \<Rightarrow> 'w env \<Rightarrow> unit go_outcome \<times> wctx \<times> 'w env" where
  "SleepUntil cd wc resumeAt e =
     (let wc = wc\<lparr>sleepCounter := Suc (sleepCounter wc)\<rparr>;
          (r, e) = Run cd wc (step_number ''_sleep.until'' (sleepCounter wc))
            (\<lambda>e. (Returned (Inr (Some resumeAt)), e)) e
      in case r of
           Inl err \<Rightarrow> (Returned (Inl err), wc, e)
         | Inr cached \<Rightarrow>
             (let (t, e) = nowFunc e in
              case deref (Inr cached) of
                Panicked v stack \<Rightarrow> (Panicked v stack, wc, e)
              | Returned (Inl err) \<Rightarrow> (Returned (Inl err), wc, e)
              | Returned (Inr c) \<Rightarrow>
                  (if t < c then (Returned (Inl (SuspendError c)), wc, e)
                   else (Returned (Inr ()), wc, e))))"

definition add_time :: "time \<Rightarrow> duration \<Rightarrow> time" where
  "add_time t d = t + sint d"

text \<open>The step function of a wait: subscribe, then suspend until the deadline.\<close>

definition subscribe :: "wctx \<Rightarrow> string \<Rightarrow> string \<Rightarrow> duration \<Rightarrow> ('v option go_outcome, 'w) act" where
  "subscribe wc resolvedName key timeout e =
     (let (t, e) = nowFunc e; deadline = add_time t timeout; (t', e) = nowFunc e;
          (r, e) = on_store (SaveSubscription \<lparr>sub_WorkflowID = wc_id wc, sub_Type = wc_wfType wc,
             sub_Version = wc_version wc, sub_StepName = resolvedName, sub_CorrelationKey = key,
             sub_Deadline = deadline, sub_CreatedAt = t'\<rparr>) e
      in case r of
           Inl err \<Rightarrow> (Returned (Inl (WrapError ''save subscription'' err)), e)
         | Inr _ \<Rightarrow> (Returned (Inl (SuspendError deadline)), e))"

definition WaitForEvent :: "'v codec \<Rightarrow> wctx \<Rightarrow> string \<Rightarrow> string \<Rightarrow> duration \<Rightarrow> ('v option res, 'w) act" where
  "WaitForEvent cd wc stepName key timeout e =
     (let resolvedName = resolveStepName wc stepName;
          (r, e) = Run cd wc stepName (subscribe wc resolvedName key timeout) e
      in case r of
           Inl err \<Rightarrow>
             if IsSuspend err \<noteq> None then (Inl err, e)
             else if is_event_timeout err then (Inl ErrEventTimeout, e)
             else (Inl err, e)
         | Inr result \<Rightarrow> (Inr result, e))"

end
