(* ===== verification/Replay.thy ===== *)
theory Replay
  imports StepRun
begin

section \<open>Durable execution\<close>

text \<open>
  Why a workflow may be executed again after a crash, a retry or a suspension: a step that completed
  is settled, that is, its row holds what \<open>Run\<close> returned; running a settled step again returns the
  same without calling the step function, and a whole workflow whose steps are settled replays to
  the same result without touching the outside world. The workflow is a parameter, given as the tree
  of the calls it makes.
\<close>

subsection \<open>The step table as a keyed table\<close>

text \<open>A table in which a row replaces the one with its key.\<close>

locale keyed_table =
  fixes key :: "'r \<Rightarrow> 'k" and put :: "'r \<Rightarrow> 't \<Rightarrow> 't" and look :: "'k \<Rightarrow> 't \<Rightarrow> 'r option"
  assumes look_put: "look k (put r t) = (if k = key r then Some r else look k t)"
begin

lemma look_fold_other: "k \<notin> key ` set rs \<Longrightarrow> look k (fold put rs t) = look k t"
  by (induction rs arbitrary: t) (auto simp: look_put)

lemma look_fold_put:
  "look k (fold put rs t) = (case find (\<lambda>r. key r = k) (rev rs) of Some r \<Rightarrow> Some r | None \<Rightarrow> look k t)"
proof (induction rs rule: rev_induct)
  case Nil
  then show ?case by simp
next
  case (snoc r rs)
  then show ?case by (auto simp: look_put)
qed

text \<open>When rows with the same key are the same row, every row that was put is found.\<close>

lemma look_fold_mem:
  assumes "r \<in> set rs" and "\<And>x. x \<in> set rs \<Longrightarrow> key x = key r \<Longrightarrow> x = r"
  shows "look (key r) (fold put rs t) = Some r"
proof -
  obtain x where x: "find (\<lambda>x. key x = key r) (rev rs) = Some x"
    using assms(1) find_None_iff [of "\<lambda>x. key x = key r" "rev rs"]
    by (cases "find (\<lambda>x. key x = key r) (rev rs)") auto
  then have "row_at key (key r) (rev rs) = Some x" by (simp add: row_at_def)
  from row_at_mem [OF this] row_at_key [OF this] have "x \<in> set rs" "key x = key r" by simp_all
  with x assms(2) show ?thesis by (simp add: look_fold_put)
qed

end

interpretation step_table: keyed_table step_key replace_step "row_at step_key"
  by unfold_locales (rule row_at_replace_step)

subsection \<open>Settled steps\<close>

definition stored :: "wctx \<Rightarrow> string \<Rightarrow> 'w env \<Rightarrow> step_row option" where
  "stored wc n e = row_at step_key (wc_wfType wc, wc_version wc, wc_id wc, n) (step_results (the_store e))"

text \<open>The prefetched cache agrees with the table.\<close>

definition cache_consistent :: "wctx \<Rightarrow> 'w env \<Rightarrow> bool" where
  "cache_consistent wc e \<longleftrightarrow>
     (\<forall>n c. stepCache wc n = Some c \<longrightarrow> (\<exists>row. stored wc n e = Some row \<and> scanStepResult row = Inr c))"

definition settled :: "'v codec \<Rightarrow> wctx \<Rightarrow> string \<Rightarrow> 'w env \<Rightarrow> 'v option res \<Rightarrow> bool" where
  "settled cd wc n e r \<longleftrightarrow>
     (\<exists>row c. stored wc n e = Some row \<and> scanStepResult row = Inr c \<and> cache_hit cd n c = r)"

text \<open>No driver faults, and the workflow exists and is not asked to stop.\<close>

definition quiet :: "wctx \<Rightarrow> 'w env \<Rightarrow> bool" where
  "quiet wc e \<longleftrightarrow> no_fault (the_store e) \<and>
     (\<exists>r. row_at c_id (wc_id wc) (workflows (the_store e)) = Some r \<and> c_signal r \<noteq> SignalCancelRequested)"

text \<open>Two environments that differ in the names seen and the count of driver calls only.\<close>

definition only_seen :: "string set \<Rightarrow> 'w env \<Rightarrow> 'w env \<Rightarrow> bool" where
  "only_seen ns e e' \<longleftrightarrow>
     (\<exists>k. e' = e\<lparr>seenSteps := ns \<union> seenSteps e, the_store := (the_store e)\<lparr>dbCalls := k\<rparr>\<rparr>)"

lemma stored_counters [simp]:
  "stored (wc\<lparr>sleepCounter := n\<rparr>) = stored wc" "stored (wc\<lparr>TimeProvider := p\<rparr>) = stored wc"
  "stored (wc\<lparr>IDProvider := p\<rparr>) = stored wc"
  by (simp_all add: stored_def fun_eq_iff)

lemma on_store_quiet_signal:
  assumes "quiet wc e"
  shows "\<exists>sig. on_store (GetSignal (wc_id wc)) e =
    (Inr sig, e\<lparr>the_store := (the_store e)\<lparr>dbCalls := Suc (dbCalls (the_store e))\<rparr>\<rparr>) \<and>
    sig \<noteq> SignalCancelRequested"
  using assms by (auto simp: quiet_def on_store_def GetSignal_def db_call_no_fault)

lemma Run_hit:
  assumes "quiet wc e" and "resolveStepName wc name \<notin> seenSteps e"
    and "cache_consistent wc e"
    and "settled cd wc (resolveStepName wc name) e r"
  shows "\<exists>e'. Run cd wc name fn e = (r, e') \<and> only_seen {resolveStepName wc name} e e'"
proof -
  let ?n = "resolveStepName wc name"
  let ?e = "e\<lparr>seenSteps := insert ?n (seenSteps e)\<rparr>"
  have "quiet wc ?e" using assms(1) by (simp add: quiet_def)
  from on_store_quiet_signal [OF this] obtain sig where
    sig: "on_store (GetSignal (wc_id wc)) ?e =
      (Inr sig, ?e\<lparr>the_store := (the_store e)\<lparr>dbCalls := Suc (dbCalls (the_store e))\<rparr>\<rparr>)"
      "sig \<noteq> SignalCancelRequested"
    by auto
  obtain row c where row: "stored wc ?n e = Some row" "scanStepResult row = Inr c" "cache_hit cd ?n c = r"
    using assms(4) by (auto simp: settled_def)
  have cached: "x = c" if "stepCache wc ?n = Some x" for x
    using assms(3) row that by (fastforce simp: cache_consistent_def)
  have "no_fault (the_store e)" using assms(1) by (simp add: quiet_def)
  then have "\<exists>k. lookup_step wc ?n (?e\<lparr>the_store := (the_store e)\<lparr>dbCalls := Suc (dbCalls (the_store e))\<rparr>\<rparr>) =
      (Inr (Some c), ?e\<lparr>the_store := (the_store e)\<lparr>dbCalls := k\<rparr>\<rparr>)"
    using row cached
    by (cases "stepCache wc ?n")
      (auto simp: lookup_step_def on_store_def GetStepResult_def db_call_no_fault stored_def)
  then show ?thesis
    using sig row(3) assms(2) unfolding Run_def Let_def only_seen_def
    by (auto simp: trackStep_def)
qed

text \<open>What a run of an unrecorded step leaves behind when it succeeds.\<close>

lemma save_result_ok:
  assumes "save_result wc n data e = (Inr (), e')"
  shows "stored wc n e' = Some \<lparr>s_type = wc_wfType wc, s_version = wc_version wc,
      s_workflow_id = wc_id wc, s_step_name = n, s_result = Some data, s_error = '''',
      s_created_at = formatTime (engineNow e (engineNows e))\<rparr>"
  using assms
  by (auto simp: save_result_def on_store_def nowFunc_def SaveStepResult_def step_row_of_def stored_def
      row_at_replace_step step_key_def dest!: db_call_okD split: prod.splits)

definition round_trip :: "'v codec \<Rightarrow> bool" where
  "round_trip cd \<longleftrightarrow> (\<forall>v d. marshal cd (Some v) = Inr d \<longrightarrow> unmarshal cd (Some d) = Inr v)"

lemma cache_miss_settles:
  assumes "cache_miss cd wc n fn e = (Inr (Some v), e')"
    and "round_trip cd" and "\<And>k. good_time (engineNow (snd (fn e)) k)"
  shows "settled cd wc n e' (Inr (Some v))"
proof -
  obtain out e1 where fn: "fn e = (out, e1)" by (cases "fn e")
  obtain data where data: "panicToError out = Inr (Some v)" "marshal cd (Some v) = Inr data"
    "save_result wc n data e1 = (Inr (), e')"
    using assms(1) by (auto simp: cache_miss_def fn split: sum.splits prod.splits)
  have "unmarshal cd (Some data) = Inr v" using assms(2) data(2) by (simp add: round_trip_def)
  moreover have "good_time (engineNow e1 (engineNows e1))" using assms(3) fn by simp
  ultimately show ?thesis
    using save_result_ok [OF data(3)]
    by (simp add: settled_def scanStepResult_def formatTime_def parseTime_rfc3339nano good_time_def
        cache_hit_def)
qed

subsection \<open>A workflow as the tree of its durable calls\<close>

text \<open>
  \<open>Execute\<close> of a user workflow: what it does next depends on what its durable calls returned. A
  step function acts on the world only. A panic of a call ends the execution.
\<close>

datatype ('v, 'w) wprog =
    WReturn "'v res"
  | WRun string "'w \<Rightarrow> 'v option go_outcome \<times> 'w" "'v option res \<Rightarrow> ('v, 'w) wprog"
  | WSleep time "unit res \<Rightarrow> ('v, 'w) wprog"
  | WNow "time res \<Rightarrow> ('v, 'w) wprog"
  | WNewID "string res \<Rightarrow> ('v, 'w) wprog"
  | WWait string string duration "'v option res \<Rightarrow> ('v, 'w) wprog"

record 'v json =
  jv :: "'v codec"
  jt :: "time codec"
  ji :: "string codec"

definition on_world :: "('w \<Rightarrow> 'a \<times> 'w) \<Rightarrow> ('a, 'w) act" where
  "on_world f e = (let (a, w) = f (world e) in (a, e\<lparr>world := w\<rparr>))"

definition continue :: "'a go_outcome \<times> wctx \<times> 'w env \<Rightarrow> ('a res \<Rightarrow> wctx \<Rightarrow> 'w env \<Rightarrow> 'b go_outcome \<times> 'w env) \<Rightarrow>
    'b go_outcome \<times> 'w env" where
  "continue x f = (case x of (Returned r, wc, e) \<Rightarrow> f r wc e | (Panicked v stack, wc, e) \<Rightarrow> (Panicked v stack, e))"

primrec exec :: "'v json \<Rightarrow> ('v, 'w) wprog \<Rightarrow> wctx \<Rightarrow> 'w env \<Rightarrow> 'v go_outcome \<times> 'w env" where
  "exec js (WReturn r) wc e = (Returned r, e)"
| "exec js (WRun n f k) wc e = (let (r, e) = Run (jv js) wc n (on_world f) e in exec js (k r) wc e)"
| "exec js (WSleep t k) wc e = continue (SleepUntil (jt js) wc t e) (\<lambda>r. exec js (k r))"
| "exec js (WNow k) wc e = continue (TimeNow (jt js) wc e) (\<lambda>r. exec js (k r))"
| "exec js (WNewID k) wc e = continue (IDNew (ji js) wc e) (\<lambda>r. exec js (k r))"
| "exec js (WWait n key d k) wc e =
     (let (r, e) = WaitForEvent (jv js) wc n key d e in exec js (k r) wc e)"

text \<open>
  The workflows replay is meant for: an error of a call ends the workflow with an error (the
  timeout of an event is a settled answer and may be handled), and step functions do not return a
  nil pointer without an error.
\<close>

definition fails :: "('v, 'w) wprog \<Rightarrow> bool" where
  "fails p \<longleftrightarrow> (\<exists>err. p = WReturn (Inl err))"

primrec replayable :: "('v, 'w) wprog \<Rightarrow> bool" where
  "replayable (WReturn r) = True"
| "replayable (WRun n f k) = ((\<forall>w. fst (f w) \<noteq> Returned (Inr None)) \<and> (\<forall>err. fails (k (Inl err))) \<and>
     (\<forall>v. replayable (k (Inr v))))"
| "replayable (WSleep t k) = ((\<forall>err. fails (k (Inl err))) \<and> (\<forall>v. replayable (k (Inr v))))"
| "replayable (WNow k) = ((\<forall>err. fails (k (Inl err))) \<and> (\<forall>v. replayable (k (Inr v))))"
| "replayable (WNewID k) = ((\<forall>err. fails (k (Inl err))) \<and> (\<forall>v. replayable (k (Inr v))))"
| "replayable (WWait n key d k) = ((\<forall>err. err \<noteq> ErrEventTimeout \<longrightarrow> fails (k (Inl err))) \<and>
     replayable (k (Inl ErrEventTimeout)) \<and> (\<forall>v. replayable (k (Inr v))))"

lemma exec_fails: "fails p \<Longrightarrow> \<exists>err. exec js p wc e = (Returned (Inl err), e)"
  by (auto simp: fails_def)

subsection \<open>What a call may change\<close>

text \<open>
  Between two points of an execution the clock function is the same and only advances, names are
  only added to those seen, and the rows of the names seen before, and of prefetched names, stay.
\<close>

definition progress :: "wctx \<Rightarrow> 'w env \<Rightarrow> 'w env \<Rightarrow> bool" where
  "progress wc e e' \<longleftrightarrow>
     seenSteps e \<subseteq> seenSteps e' \<and> engineNow e' = engineNow e \<and> engineNows e \<le> engineNows e' \<and>
     (\<forall>n. n \<in> seenSteps e \<or> stepCache wc n \<noteq> None \<longrightarrow> stored wc n e' = stored wc n e)"

text \<open>A step function that leaves the engine's state alone.\<close>

definition tame :: "('a, 'w) act \<Rightarrow> bool" where
  "tame fn \<longleftrightarrow> (\<forall>e. seenSteps (snd (fn e)) = seenSteps e \<and> engineNow (snd (fn e)) = engineNow e \<and>
     engineNows e \<le> engineNows (snd (fn e)) \<and>
     step_results (the_store (snd (fn e))) = step_results (the_store e))"

lemma progress_refl [simp]: "progress wc e e"
  by (simp add: progress_def)

lemma progress_trans: "progress wc e e' \<Longrightarrow> progress wc e' e'' \<Longrightarrow> progress wc e e''"
  unfolding progress_def by (metis le_trans subset_iff)

lemma progress_counters [simp]:
  "progress (wc\<lparr>sleepCounter := n\<rparr>) = progress wc" "progress (wc\<lparr>TimeProvider := p\<rparr>) = progress wc"
  "progress (wc\<lparr>IDProvider := p\<rparr>) = progress wc"
  by (simp_all add: progress_def fun_eq_iff)

lemma cache_consistent_counters [simp]:
  "cache_consistent (wc\<lparr>sleepCounter := n\<rparr>) = cache_consistent wc"
  "cache_consistent (wc\<lparr>TimeProvider := p\<rparr>) = cache_consistent wc"
  "cache_consistent (wc\<lparr>IDProvider := p\<rparr>) = cache_consistent wc"
  by (simp_all add: cache_consistent_def fun_eq_iff)

lemma cache_consistent_progress:
  "cache_consistent wc e \<Longrightarrow> progress wc e e' \<Longrightarrow> cache_consistent wc e'"
  by (auto simp: cache_consistent_def progress_def)

lemma tame_on_world [simp]: "tame (on_world f)"
  by (simp add: tame_def on_world_def split_beta Let_def)

lemma db_call_tables:
  assumes "\<And>s'. tables_of s' = tables_of s \<Longrightarrow> P (snd (k s'))" and "\<And>s'. tables_of s' = tables_of s \<Longrightarrow> P s'"
  shows "P (snd (db_call werr k s))"
  using assms by (auto simp: db_call_def Let_def split: option.splits)

lemma GetSignal_tables: "tables_of (snd (GetSignal wid s)) = tables_of s"
  unfolding GetSignal_def by (rule db_call_tables) (auto split: option.splits)

lemma GetStepResult_tables: "tables_of (snd (GetStepResult ty ver wid n s)) = tables_of s"
  unfolding GetStepResult_def by (rule db_call_tables) (auto split: option.splits)

lemma SaveSubscription_steps: "step_results (snd (SaveSubscription b s)) = step_results s"
  unfolding SaveSubscription_def
  by (rule db_call_tables) (auto simp: tables_of_eq_iff)

lemma tame_subscribe [simp]: "tame (subscribe wc n key d)"
  by (auto simp: tame_def subscribe_def on_store_def nowFunc_def SaveSubscription_steps
      Let_def split_beta split: sum.splits)

subsection \<open>One call of \<open>Run\<close>\<close>

lemma progress_same_rows:
  assumes "seenSteps e \<subseteq> seenSteps e'" and "engineNow e' = engineNow e"
    and "engineNows e \<le> engineNows e'"
    and "step_results (the_store e') = step_results (the_store e)"
  shows "progress wc e e'"
  using assms by (simp add: progress_def stored_def)

lemma on_store_fields [simp]:
  "seenSteps (snd (on_store f e)) = seenSteps e" "engineNow (snd (on_store f e)) = engineNow e"
  "engineNows (snd (on_store f e)) = engineNows e" "world (snd (on_store f e)) = world e"
  "the_store (snd (on_store f e)) = snd (f (the_store e))"
  "fst (on_store f e) = fst (f (the_store e))"
  by (simp_all add: on_store_def split_beta Let_def)

lemma nowFunc_fields [simp]:
  "seenSteps (snd (nowFunc e)) = seenSteps e" "engineNow (snd (nowFunc e)) = engineNow e"
  "engineNows (snd (nowFunc e)) = Suc (engineNows e)" "world (snd (nowFunc e)) = world e"
  "the_store (snd (nowFunc e)) = the_store e" "fst (nowFunc e) = engineNow e (engineNows e)"
  by (simp_all add: nowFunc_def)

lemma SaveStepResult_other:
  assumes "k \<noteq> (sr_Type r, sr_Version r, sr_WorkflowID r, sr_StepName r)"
  shows "row_at step_key k (step_results (snd (SaveStepResult r s))) = row_at step_key k (step_results s)"
proof -
  have "step_key (step_row_of r) = (sr_Type r, sr_Version r, sr_WorkflowID r, sr_StepName r)"
    by (simp add: step_key_def step_row_of_def)
  with assms show ?thesis
    unfolding SaveStepResult_def
    by (rule_tac db_call_tables) (simp_all add: row_at_replace_step tables_of_eq_iff)
qed

lemma save_result_frame:
  "seenSteps (snd (save_result wc n data e)) = seenSteps e \<and>
   engineNow (snd (save_result wc n data e)) = engineNow e \<and>
   engineNows e \<le> engineNows (snd (save_result wc n data e)) \<and>
   (\<forall>m. m \<noteq> n \<longrightarrow> stored wc m (snd (save_result wc n data e)) = stored wc m e)"
  by (simp add: save_result_def case_prod_unfold Let_def stored_def SaveStepResult_other)

lemma save_result_progress:
  assumes "n \<notin> seenSteps e0" and "stepCache wc n = None" and "progress wc e0 e"
  shows "progress wc e0 (snd (save_result wc n data e))"
proof -
  have "stored wc m (snd (save_result wc n data e)) = stored wc m e"
    if m: "m \<in> seenSteps e0 \<or> stepCache wc m \<noteq> None" for m
  proof -
    have "m \<noteq> n" using m assms(1,2) by auto
    with save_result_frame [of wc n data e] show ?thesis by simp
  qed
  then show ?thesis
    using assms(3) save_result_frame [of wc n data e] unfolding progress_def by simp
qed

lemma tame_progress: "tame fn \<Longrightarrow> progress wc e (snd (fn e))"
  by (rule progress_same_rows) (simp_all add: tame_def)

lemma cache_miss_progress:
  assumes "tame fn" and "n \<notin> seenSteps e0" and "stepCache wc n = None" and "progress wc e0 e"
  shows "progress wc e0 (snd (cache_miss cd wc n fn e))"
    and "seenSteps (snd (cache_miss cd wc n fn e)) = seenSteps e"
proof -
  have e1: "progress wc e0 (snd (fn e))"
    using progress_trans [OF assms(4) tame_progress [OF assms(1)]] .
  note save = save_result_progress [OF assms(2,3) e1]
  show "progress wc e0 (snd (cache_miss cd wc n fn e))"
    using e1 save by (auto simp: cache_miss_def case_prod_unfold Let_def split: sum.splits)
  have "seenSteps (snd (fn e)) = seenSteps e" using assms(1) by (simp add: tame_def)
  then show "seenSteps (snd (cache_miss cd wc n fn e)) = seenSteps e"
    using save_result_frame [of wc n _ "snd (fn e)"]
    by (auto simp: cache_miss_def case_prod_unfold Let_def split: sum.splits)
qed

lemma lookup_step_frame:
  "seenSteps (snd (lookup_step wc n e)) = seenSteps e \<and>
   engineNow (snd (lookup_step wc n e)) = engineNow e \<and>
   engineNows (snd (lookup_step wc n e)) = engineNows e \<and>
   step_results (the_store (snd (lookup_step wc n e))) = step_results (the_store e) \<and>
   (fst (lookup_step wc n e) = Inr None \<longrightarrow> stepCache wc n = None)"
  using GetStepResult_tables [of "wc_wfType wc" "wc_version wc" "wc_id wc" n "the_store e"]
  by (auto simp: lookup_step_def case_prod_unfold tables_of_eq_iff split: option.splits sum.splits)

text \<open>A record the lookup returns is the stored one.\<close>

lemma lookup_step_found:
  assumes "fst (lookup_step wc n e) = Inr (Some c)" and "cache_consistent wc e"
  shows "\<exists>row. stored wc n e = Some row \<and> scanStepResult row = Inr c"
proof (cases "stepCache wc n")
  case None
  then have "fst (GetStepResult (wc_wfType wc) (wc_version wc) (wc_id wc) n (the_store e)) = Inr c"
    using assms(1) by (auto simp: lookup_step_def case_prod_unfold split: sum.splits if_splits)
  then show ?thesis
    by (auto simp: GetStepResult_def db_call_def Let_def stored_def split: option.splits)
next
  case (Some x)
  with assms show ?thesis by (auto simp: lookup_step_def cache_consistent_def)
qed

text \<open>The answers of a call that later executions give again.\<close>

definition final_answer :: "'v option res \<Rightarrow> bool" where
  "final_answer r \<longleftrightarrow> (\<exists>v. r = Inr (Some v)) \<or> r = Inl ErrEventTimeout"

text \<open>The ways a call with a new name goes.\<close>

lemma Run_fresh:
  assumes "Run cd wc name fn e = (r, e')" and "n = resolveStepName wc name" and "n \<notin> seenSteps e"
  defines "e1 \<equiv> e\<lparr>seenSteps := insert n (seenSteps e)\<rparr>"
  defines "e2 \<equiv> snd (on_store (GetSignal (wc_id wc)) e1)"
  defines "e3 \<equiv> snd (lookup_step wc n e2)"
  obtains (sig) x where "fst (GetSignal (wc_id wc) (the_store e)) = Inl x"
      "r = Inl (WrapError (''check signal for step '' @ go_quote n) x)" "e' = e2"
    | (cancel) "r = Inl ErrCancelled" "e' = e2"
    | (err) x where "fst (lookup_step wc n e2) = Inl x" "r = Inl x" "e' = e3"
    | (found) c where "fst (lookup_step wc n e2) = Inr (Some c)" "r = cache_hit cd n c" "e' = e3"
    | (run) "(r, e') = cache_miss cd wc n fn e3" "fst (lookup_step wc n e2) = Inr None"
proof -
  have run_eq: "(r, e') = (case fst (on_store (GetSignal (wc_id wc)) e1) of
      Inl err \<Rightarrow> (Inl (WrapError (''check signal for step '' @ go_quote n) err), e2)
    | Inr signal \<Rightarrow>
        if signal = SignalCancelRequested then (Inl ErrCancelled, e2)
        else case fst (lookup_step wc n e2) of
               Inl err \<Rightarrow> (Inl err, e3)
             | Inr (Some c) \<Rightarrow> (cache_hit cd n c, e3)
             | Inr None \<Rightarrow> cache_miss cd wc n fn e3)"
    using assms(3)
    unfolding assms(1) [symmetric] assms(2) Run_def Let_def trackStep_def case_prod_unfold e1_def e2_def e3_def
    by (simp only: if_False fst_conv snd_conv sum.case)
  show thesis
  proof (cases "fst (on_store (GetSignal (wc_id wc)) e1)")
    case (Inl x)
    with run_eq sig show thesis by (simp add: e1_def)
  next
    case (Inr s)
    note s = this
    show thesis
    proof (cases "s = SignalCancelRequested")
      case True
      with run_eq s cancel show thesis by simp
    next
      case no: False
      show thesis
      proof (cases "fst (lookup_step wc n e2)")
        case (Inl x)
        with run_eq s no err show thesis by simp
      next
        case (Inr c)
        with run_eq s no found run show thesis by (cases c) simp_all
      qed
    qed
  qed
qed

lemma Run_first:
  assumes "Run cd wc name fn e = (r, e')" and "n = resolveStepName wc name"
    and "tame fn" and "cache_consistent wc e"
  shows "progress wc e e'"
    and "r = Inl (ErrorString (''duplicate step name '' @ go_quote n @
           '': each step must have a unique name'')) \<or>
         n \<notin> seenSteps e \<and> seenSteps e' = insert n (seenSteps e)"
proof -
  let ?e1 = "e\<lparr>seenSteps := insert n (seenSteps e)\<rparr>"
  let ?e2 = "snd (on_store (GetSignal (wc_id wc)) ?e1)"
  let ?e3 = "snd (lookup_step wc n ?e2)"
  have e2: "progress wc e ?e2" "seenSteps ?e2 = insert n (seenSteps e)"
    using GetSignal_tables [of "wc_id wc" "the_store e"]
    by (auto intro!: progress_same_rows simp: tables_of_eq_iff)
  have e3: "progress wc e ?e3" "seenSteps ?e3 = insert n (seenSteps e)"
    using lookup_step_frame [of wc n ?e2] e2
    by (simp_all add: progress_trans [OF e2(1) progress_same_rows])
  have miss: "progress wc e (snd (cache_miss cd wc n fn ?e3))"
    "seenSteps (snd (cache_miss cd wc n fn ?e3)) = insert n (seenSteps e)"
    if "n \<notin> seenSteps e" "fst (lookup_step wc n ?e2) = Inr None"
    using cache_miss_progress [OF assms(3) that(1) _ e3(1), of cd] lookup_step_frame [of wc n ?e2] that e3(2)
    by auto
  have "progress wc e e' \<and>
      (r = Inl (ErrorString (''duplicate step name '' @ go_quote n @
         '': each step must have a unique name'')) \<or>
       n \<notin> seenSteps e \<and> seenSteps e' = insert n (seenSteps e))"
  proof (cases "n \<in> seenSteps e")
    case True
    with assms(1,2) show ?thesis by (simp add: Run_def trackStep_def Let_def)
  next
    case False
    have run: "e' = ?e2 \<or> e' = ?e3 \<or> (fst (lookup_step wc n ?e2) = Inr None \<and> e' = snd (cache_miss cd wc n fn ?e3))"
      using assms(1,2) False
    proof (cases rule: Run_fresh)
      case run
      from arg_cong [OF run(1), where f = snd] run(2) show ?thesis by (simp only: snd_conv simp_thms)
    qed (simp_all only: simp_thms)
    then show ?thesis
    proof (elim disjE conjE)
      assume "e' = ?e2"
      then show ?thesis using e2 False by (simp only: simp_thms)
    next
      assume "e' = ?e3"
      then show ?thesis using e3 False by (simp only: simp_thms)
    next
      assume "fst (lookup_step wc n ?e2) = Inr None" "e' = snd (cache_miss cd wc n fn ?e3)"
      then show ?thesis using miss [OF False] False by (simp only: simp_thms)
    qed
  qed
  then show "progress wc e e'" "r = Inl (ErrorString (''duplicate step name '' @ go_quote n @
           '': each step must have a unique name'')) \<or>
         n \<notin> seenSteps e \<and> seenSteps e' = insert n (seenSteps e)"
    by auto
qed

lemma GetSignal_error: "fst (GetSignal wid s) = Inl err \<Longrightarrow> \<not> is_event_timeout err"
  by (auto simp: GetSignal_def db_call_def Let_def is_event_timeout_def split: option.splits)

lemma scanStepResult_error: "scanStepResult r = Inl err \<Longrightarrow> \<not> is_event_timeout err"
  by (auto simp: scanStepResult_def parse_error_def split: option.splits)

lemma GetStepResult_error: "fst (GetStepResult ty ver wid n s) = Inl err \<Longrightarrow> \<not> is_event_timeout err"
  by (auto simp: GetStepResult_def db_call_def Let_def is_event_timeout_def
      dest: scanStepResult_error [unfolded is_event_timeout_def] split: option.splits)

lemma lookup_step_error: "fst (lookup_step wc n e) = Inl err \<Longrightarrow> \<not> is_event_timeout err"
  by (auto simp: lookup_step_def case_prod_unfold split: option.splits sum.splits if_splits
      dest: GetStepResult_error)

text \<open>Where an answer comes from: the record of the step, its function, or neither.\<close>

lemma Run_answer:
  assumes "Run cd wc name fn e = (r, e')" and "n = resolveStepName wc name"
    and "cache_consistent wc e"
  obtains (hit) "settled cd wc n e' r"
  | (miss) e1 where "progress wc e e1" "engineNow e1 = engineNow e" "(r, e') = cache_miss cd wc n fn e1"
  | (refused) err where "r = Inl err" "\<not> is_event_timeout err"
proof -
  let ?e1 = "e\<lparr>seenSteps := insert n (seenSteps e)\<rparr>"
  let ?e2 = "snd (on_store (GetSignal (wc_id wc)) ?e1)"
  let ?e3 = "snd (lookup_step wc n ?e2)"
  have e2: "progress wc e ?e2"
    using GetSignal_tables [of "wc_id wc" "the_store e"]
    by (auto intro!: progress_same_rows simp: tables_of_eq_iff)
  have e3: "progress wc e ?e3"
    using lookup_step_frame [of wc n ?e2] by (simp add: progress_trans [OF e2 progress_same_rows])
  have rows: "step_results (the_store ?e3) = step_results (the_store ?e2)"
    using lookup_step_frame [of wc n ?e2] by simp
  show ?thesis
  proof (cases "n \<in> seenSteps e")
    case True
    then show thesis using assms(1,2)
      by (intro refused) (auto simp: Run_def trackStep_def Let_def is_event_timeout_def)
  next
    case False
    from assms(1,2) False show thesis
    proof (cases rule: Run_fresh)
      case (found c)
      from lookup_step_found [OF found(1) cache_consistent_progress [OF assms(3) e2]] obtain row where
        "stored wc n ?e2 = Some row" "scanStepResult row = Inr c" by (elim exE conjE)
      moreover have "stored wc n e' = stored wc n ?e2"
        unfolding found(3) stored_def by (simp only: rows)
      ultimately have "settled cd wc n e' r" unfolding settled_def found(2) by metis
      then show ?thesis by (rule hit)
    next
      case run
      then show ?thesis using e3 by (intro miss) (auto simp: progress_def)
    next
      case sig
      then show ?thesis by (intro refused) (auto dest: GetSignal_error)
    next
      case err
      from lookup_step_error [OF err(1)] err(2) show ?thesis by (intro refused)
    qed (auto intro: refused simp: is_event_timeout_def ErrCancelled_def)
  qed
qed

lemma Run_settles:
  assumes "Run cd wc name fn e = (Inr (Some v), e')" and "n = resolveStepName wc name"
    and "cache_consistent wc e" and "tame fn" and "round_trip cd"
    and "\<And>k. good_time (engineNow e k)"
  shows "settled cd wc n e' (Inr (Some v))"
  using assms(1-3)
proof (cases rule: Run_answer)
  case (miss e1)
  show ?thesis
    by (rule cache_miss_settles [OF miss(3) [symmetric] assms(5)])
      (use assms(4,6) miss(2) in \<open>simp add: tame_def\<close>)
qed auto

subsection \<open>Replaying a call\<close>

text \<open>What a replayed call does to the environment: it marks its name as seen, and nothing else that matters.\<close>

definition replayed :: "'w env \<Rightarrow> 'w env \<Rightarrow> bool" where
  "replayed e e' \<longleftrightarrow> world e' = world e \<and> tables_of (the_store e') = tables_of (the_store e) \<and>
     dbFault (the_store e') = dbFault (the_store e) \<and> engineNow e' = engineNow e \<and>
     engineNows e \<le> engineNows e'"

lemma replayed_refl [simp]: "replayed e e"
  by (simp add: replayed_def)

lemma replayed_trans: "replayed e e' \<Longrightarrow> replayed e' e'' \<Longrightarrow> replayed e e''"
  by (auto simp: replayed_def)

lemma replayed_only_seen: "only_seen ns e e' \<Longrightarrow> replayed e e'"
  by (auto simp: only_seen_def replayed_def)

lemma replayed_now: "replayed e (snd (nowFunc e))"
  by (simp add: replayed_def)

lemma replayed_keeps:
  assumes "replayed e e'"
  shows "quiet wc e' = quiet wc e" and "stored wc n e' = stored wc n e"
    and "cache_consistent wc e' = cache_consistent wc e" and "settled cd wc n e' r = settled cd wc n e r"
  using assms
  by (simp_all add: replayed_def quiet_def no_fault_def stored_def cache_consistent_def settled_def tables_of_eq_iff)

text \<open>The two executions: the second starts with the names the first had seen, after it in time,
  and with the rows the first left.\<close>

lemma Run_again:
  assumes "quiet wc e" and "n \<notin> seenSteps e" and "cache_consistent wc e" and "settled cd wc n e r"
    and "n = resolveStepName wc name"
  obtains e' where "Run cd wc name fn e = (r, e')" "replayed e e'" "seenSteps e' = insert n (seenSteps e)"
proof -
  from Run_hit [OF assms(1) _ assms(3), of name cd r fn] assms(2,4,5) obtain e' where
    e': "Run cd wc name fn e = (r, e')" "only_seen {n} e e'" by auto
  from e' replayed_only_seen [OF e'(2)] show thesis
    by (intro that [of e']) (auto simp: only_seen_def)
qed

definition run_duplicate :: "string \<Rightarrow> 'v option res" where
  "run_duplicate n = Inl (ErrorString (''duplicate step name '' @ go_quote n @
     '': each step must have a unique name''))"

lemmas Run_first' = Run_first [folded run_duplicate_def]

lemma cache_hit_not_nil: "cache_hit cd n c \<noteq> Inr None"
  by (auto simp: cache_hit_def split: sum.splits)

lemma settled_not_nil: "\<not> settled cd wc n e (Inr None)"
  using cache_hit_not_nil by (fastforce simp: settled_def)

text \<open>A step function that never returns a nil pointer makes a call that never does.\<close>

lemma Run_not_nil:
  assumes "Run cd wc name fn e = (Inr x, e')" and "cache_consistent wc e"
    and "\<And>e. fst (fn e) \<noteq> Returned (Inr None)"
  shows "x \<noteq> None"
  using assms(1) refl assms(2)
proof (cases rule: Run_answer)
  case hit
  then show ?thesis using settled_not_nil by (cases x) auto
next
  case (miss e1)
  obtain out e2 where fn: "fn e1 = (out, e2)" by (cases "fn e1")
  then have "out \<noteq> Returned (Inr None)" using assms(3) [of e1] by simp
  then have "panicToError out \<noteq> Inr None" by (cases out) auto
  with miss(3) show ?thesis
    by (auto simp: cache_miss_def fn split: sum.splits prod.splits)
qed auto

subsection \<open>The calls of a workflow, first and again\<close>

lemma ProviderGet_first:
  assumes "ProviderGet cd wc p gen e = (Returned r, p', e')" and "cache_consistent wc e"
    and "tame gen" and "round_trip cd" and "\<And>k. good_time (engineNow e k)"
  defines "n \<equiv> resolveStepName wc (step_number (p_prefix p) (Suc (p_counter p)))"
  shows "p' = p\<lparr>p_counter := Suc (p_counter p)\<rparr>" and "progress wc e e'"
    and "r = Inr v \<Longrightarrow> n \<notin> seenSteps e \<and> seenSteps e' = insert n (seenSteps e) \<and>
           settled cd wc n e' (Inr (Some v))"
proof -
  define fn where "fn = (\<lambda>e. case gen e of
                   (Returned (Inr v), e) \<Rightarrow> (Returned (Inr (Some v)), e)
                 | (Returned (Inl err), e) \<Rightarrow> (Returned (Inl err), e)
                 | (Panicked v stack, e) \<Rightarrow> (Panicked v stack, e))"
  have snd_fn: "snd (fn e) = snd (gen e)" for e
    by (auto simp: fn_def split: prod.splits go_outcome.splits sum.splits)
  then have fn: "tame fn" using assms(3) by (simp add: tame_def)
  obtain q e1 where run: "Run cd wc (step_number (p_prefix p) (Suc (p_counter p))) fn e = (q, e1)"
    by (cases "Run cd wc (step_number (p_prefix p) (Suc (p_counter p))) fn e")
  with assms(1) have eqs: "deref q = Returned r" "p' = p\<lparr>p_counter := Suc (p_counter p)\<rparr>" "e' = e1"
    by (simp_all add: ProviderGet_def Let_def fn_def)
  from eqs show "p' = p\<lparr>p_counter := Suc (p_counter p)\<rparr>" by simp
  note first = Run_first' [OF run refl fn assms(2), folded n_def]
  from first(1) eqs show "progress wc e e'" by simp
  show "n \<notin> seenSteps e \<and> seenSteps e' = insert n (seenSteps e) \<and> settled cd wc n e' (Inr (Some v))"
    if "r = Inr v"
  proof -
    have q: "q = Inr (Some v)" using eqs(1) that by (auto simp: deref_def split: sum.splits option.splits)
    with Run_settles [OF _ refl assms(2) fn assms(4,5)] run have "settled cd wc n e1 (Inr (Some v))"
      by (simp add: n_def)
    with first(2) q eqs show ?thesis by (auto simp: run_duplicate_def)
  qed
qed

lemma ProviderGet_again:
  assumes "quiet wc e" and "cache_consistent wc e"
    and "n = resolveStepName wc (step_number (p_prefix p) (Suc (p_counter p)))" and "n \<notin> seenSteps e"
    and "settled cd wc n e (Inr (Some v))"
  obtains e' where
    "ProviderGet cd wc p gen e = (Returned (Inr v), p\<lparr>p_counter := Suc (p_counter p)\<rparr>, e')"
    "replayed e e'" "seenSteps e' = insert n (seenSteps e)"
proof -
  from Run_again [OF assms(1,4,2,5,3)] obtain e' where
    "Run cd wc (step_number (p_prefix p) (Suc (p_counter p))) (\<lambda>e. case gen e of
                   (Returned (Inr v), e) \<Rightarrow> (Returned (Inr (Some v)), e)
                 | (Returned (Inl err), e) \<Rightarrow> (Returned (Inl err), e)
                 | (Panicked v stack, e) \<Rightarrow> (Panicked v stack, e)) e = (Inr (Some v), e')"
    "replayed e e'" "seenSteps e' = insert n (seenSteps e)" .
  then show thesis by (intro that [of e']) (simp_all add: ProviderGet_def Let_def deref_def)
qed

subsection \<open>Durable calls\<close>

text \<open>
  A call is durable when every answer it gives that does not fail is settled: it marks one new
  name, and any later execution that finds the row of that name gets the same answer from the call,
  whatever was prefetched, without touching the world. Later means that no clock reading of the
  second execution is before one of the first.
\<close>

definition same_flow :: "wctx \<Rightarrow> wctx \<Rightarrow> bool" where
  "same_flow wc wc' \<longleftrightarrow> wc_id wc' = wc_id wc \<and> wc_wfType wc' = wc_wfType wc \<and>
     wc_version wc' = wc_version wc \<and> stepCache wc' = stepCache wc"

lemma same_flow_simps:
  assumes "same_flow wc wc'"
  shows "stored wc' = stored wc" and "cache_consistent wc' = cache_consistent wc"
    and "progress wc' = progress wc" and "quiet wc' = quiet wc"
  using assms by (simp_all add: same_flow_def stored_def cache_consistent_def progress_def quiet_def fun_eq_iff)

lemma same_flow_counters [simp]:
  "same_flow wc wc" "same_flow wc (wc\<lparr>sleepCounter := k\<rparr>)" "same_flow wc (wc\<lparr>TimeProvider := p\<rparr>)"
  "same_flow wc (wc\<lparr>IDProvider := p\<rparr>)"
  by (simp_all add: same_flow_def)

definition good_clock :: "'w env \<Rightarrow> bool" where
  "good_clock e \<longleftrightarrow> (\<forall>k. good_time (engineNow e k))"

definition later :: "'w env \<Rightarrow> 'w env \<Rightarrow> bool" where
  "later e e2 \<longleftrightarrow> (\<forall>i < engineNows e. \<forall>j \<ge> engineNows e2. engineNow e i \<le> engineNow e2 j)"

definition durable_call :: "(wctx \<Rightarrow> 'w env \<Rightarrow> 'a go_outcome \<times> wctx \<times> 'w env) \<Rightarrow> ('a res \<Rightarrow> bool) \<Rightarrow> bool" where
  "durable_call op fin \<longleftrightarrow>
     (\<forall>wc e r wc' e'. op wc e = (Returned r, wc', e') \<longrightarrow> cache_consistent wc e \<longrightarrow> good_clock e \<longrightarrow>
        progress wc e e' \<and> same_flow wc wc' \<and>
        (fin r \<longrightarrow> (\<exists>n. n \<notin> seenSteps e \<and> seenSteps e' = insert n (seenSteps e) \<and>
           (\<forall>c e2. quiet wc e2 \<longrightarrow> cache_consistent (wc\<lparr>stepCache := c\<rparr>) e2 \<longrightarrow> n \<notin> seenSteps e2 \<longrightarrow>
              stored wc n e2 = stored wc n e' \<longrightarrow> later e' e2 \<longrightarrow>
              (\<exists>e2'. op (wc\<lparr>stepCache := c\<rparr>) e2 = (Returned r, wc'\<lparr>stepCache := c\<rparr>, e2') \<and>
                 replayed e2 e2' \<and> seenSteps e2' = insert n (seenSteps e2))))))"

definition succeeded :: "'a res \<Rightarrow> bool" where
  "succeeded r \<longleftrightarrow> (\<exists>v. r = Inr v)"

definition as_call :: "(wctx \<Rightarrow> 'w env \<Rightarrow> 'a res \<times> 'w env) \<Rightarrow> wctx \<Rightarrow> 'w env \<Rightarrow> 'a go_outcome \<times> wctx \<times> 'w env" where
  "as_call op wc e = (let (r, e) = op wc e in (Returned r, wc, e))"

lemma prefetch_simps [simp]:
  "resolveStepName (wc\<lparr>stepCache := c\<rparr>) = resolveStepName wc" "stored (wc\<lparr>stepCache := c\<rparr>) = stored wc"
  "quiet (wc\<lparr>stepCache := c\<rparr>) = quiet wc" "settled cd (wc\<lparr>stepCache := c\<rparr>) = settled cd wc"
  by (simp_all add: resolveStepName_def stored_def quiet_def settled_def fun_eq_iff)

lemma counter_simps [simp]:
  "resolveStepName (wc\<lparr>sleepCounter := k\<rparr>) = resolveStepName wc"
  "quiet (wc\<lparr>sleepCounter := k\<rparr>) = quiet wc" "settled cd (wc\<lparr>sleepCounter := k\<rparr>) = settled cd wc"
  by (simp_all add: resolveStepName_def quiet_def settled_def fun_eq_iff)

lemma settled_row:
  "settled cd wc n e r \<Longrightarrow> stored wc n e2 = stored wc n e \<Longrightarrow> settled cd wc n e2 r"
  by (simp add: settled_def)

lemma durableI:
  assumes "\<And>wc e r wc' e'. op wc e = (Returned r, wc', e') \<Longrightarrow> cache_consistent wc e \<Longrightarrow> good_clock e \<Longrightarrow>
      progress wc e e' \<and> same_flow wc wc'"
    and "\<And>wc e r wc' e'. op wc e = (Returned r, wc', e') \<Longrightarrow> cache_consistent wc e \<Longrightarrow> good_clock e \<Longrightarrow> fin r \<Longrightarrow>
      \<exists>n. n \<notin> seenSteps e \<and> seenSteps e' = insert n (seenSteps e) \<and>
           (\<forall>c e2. quiet wc e2 \<longrightarrow> cache_consistent (wc\<lparr>stepCache := c\<rparr>) e2 \<longrightarrow> n \<notin> seenSteps e2 \<longrightarrow>
              stored wc n e2 = stored wc n e' \<longrightarrow> later e' e2 \<longrightarrow>
              (\<exists>e2'. op (wc\<lparr>stepCache := c\<rparr>) e2 = (Returned r, wc'\<lparr>stepCache := c\<rparr>, e2') \<and>
                 replayed e2 e2' \<and> seenSteps e2' = insert n (seenSteps e2)))"
  shows "durable_call op fin"
  unfolding durable_call_def using assms by blast

lemma durable_Run:
  assumes "tame fn" and "\<And>e. fst (fn e) \<noteq> Returned (Inr None)" and "round_trip cd"
  shows "durable_call (as_call (\<lambda>wc. Run cd wc name fn)) succeeded"
proof (rule durableI, goal_cases)
  case (1 wc e r wc' e')
  then have "Run cd wc name fn e = (r, e')" "wc' = wc" by (auto simp: as_call_def split: prod.splits)
  with Run_first' [OF this(1) refl assms(1) 1(2)] show ?case by simp
next
  case (2 wc e r wc' e')
  then obtain x where x: "r = Inr x" and run: "Run cd wc name fn e = (Inr x, e')" and wc: "wc' = wc"
    by (auto simp: as_call_def succeeded_def split: prod.splits)
  obtain v where v: "x = Some v" using Run_not_nil [OF run 2(2) assms(2)] by auto
  let ?n = "resolveStepName wc name"
  have seen: "?n \<notin> seenSteps e" "seenSteps e' = insert ?n (seenSteps e)"
    using Run_first' (2) [OF run refl assms(1) 2(2)] by (auto simp: run_duplicate_def)
  have "\<And>k. good_time (engineNow e k)" using 2(3) by (simp add: good_clock_def)
  from Run_settles [OF run [unfolded v] refl 2(2) assms(1,3) this]
  have s: "settled cd wc ?n e' (Inr (Some v))" .
  have "\<exists>e2'. as_call (\<lambda>wc. Run cd wc name fn) (wc\<lparr>stepCache := c\<rparr>) e2 =
        (Returned r, wc'\<lparr>stepCache := c\<rparr>, e2') \<and>
      replayed e2 e2' \<and> seenSteps e2' = insert ?n (seenSteps e2)"
    if q: "quiet wc e2" "cache_consistent (wc\<lparr>stepCache := c\<rparr>) e2" "?n \<notin> seenSteps e2"
      "stored wc ?n e2 = stored wc ?n e'" for c e2
  proof -
    have "quiet (wc\<lparr>stepCache := c\<rparr>) e2" "settled cd (wc\<lparr>stepCache := c\<rparr>) ?n e2 (Inr (Some v))"
      "?n = resolveStepName (wc\<lparr>stepCache := c\<rparr>) name"
      using q settled_row [OF s q(4)] by simp_all
    from Run_again [OF this(1) q(3,2) this(2,3)] obtain e2' where
      "Run cd (wc\<lparr>stepCache := c\<rparr>) name fn e2 = (Inr (Some v), e2')" "replayed e2 e2'"
      "seenSteps e2' = insert ?n (seenSteps e2)" .
    then show ?thesis using x v wc by (auto simp: as_call_def)
  qed
  with seen show ?case by blast
qed

lemma durable_SleepUntil:
  assumes "round_trip cd"
  shows "durable_call (\<lambda>wc (e::'w env). SleepUntil cd wc t e) succeeded"
proof -
  define fn :: "(time option go_outcome, 'w) act" where "fn = (\<lambda>e. (Returned (Inr (Some t)), e))"
  have tame: "tame fn" by (simp add: fn_def tame_def)
  let ?nm = "\<lambda>wc. step_number ''_sleep.until'' (Suc (sleepCounter wc))"
  let ?wc = "\<lambda>wc. wc\<lparr>sleepCounter := Suc (sleepCounter wc)\<rparr>"
  have call: "\<exists>q e1. Run cd (?wc wc) (?nm wc) fn e = (q, e1) \<and> wc' = ?wc wc \<and>
      (e' = e1 \<or> e' = snd (nowFunc e1)) \<and>
      (succeeded r \<longrightarrow> (\<exists>c. q = Inr (Some c) \<and> e' = snd (nowFunc e1) \<and> c \<le> engineNow e1 (engineNows e1)))"
    if "SleepUntil cd wc t e = (Returned r, wc', e')" for wc e r wc' e'
    using that
    by (auto simp: SleepUntil_def fn_def Let_def case_prod_unfold succeeded_def deref_def prod_eq_iff
        split: sum.splits option.splits if_splits go_outcome.splits)
  show ?thesis
  proof (rule durableI, goal_cases)
    case (1 wc e r wc' e')
    from call [OF 1(1)] obtain q e1 where run: "Run cd (?wc wc) (?nm wc) fn e = (q, e1)"
      and e': "wc' = ?wc wc" "e' = e1 \<or> e' = snd (nowFunc e1)" by blast
    have "progress wc e e1" using Run_first' (1) [OF run refl tame] 1(2) by simp
    moreover have "progress wc e1 (snd (nowFunc e1))" by (rule progress_same_rows) simp_all
    ultimately show ?case using e' progress_trans by auto
  next
    case (2 wc e r wc' e')
    from call [OF 2(1)] 2(4) obtain c e1 where run: "Run cd (?wc wc) (?nm wc) fn e = (Inr (Some c), e1)"
      and e': "wc' = ?wc wc" "e' = snd (nowFunc e1)" and c: "c \<le> engineNow e1 (engineNows e1)" by blast
    let ?n = "resolveStepName wc (?nm wc)"
    have seen: "?n \<notin> seenSteps e" "seenSteps e1 = insert ?n (seenSteps e)"
      using Run_first' (2) [OF run refl tame] 2(2) by (auto simp: run_duplicate_def)
    have s: "settled cd wc ?n e1 (Inr (Some c))"
      using Run_settles [OF run refl _ tame assms] 2(2,3) by (simp add: good_clock_def)
    have "\<exists>e2'. SleepUntil cd (wc\<lparr>stepCache := ca\<rparr>) t e2 = (Returned r, wc'\<lparr>stepCache := ca\<rparr>, e2') \<and>
        replayed e2 e2' \<and> seenSteps e2' = insert ?n (seenSteps e2)"
      if q: "quiet wc e2" "cache_consistent (wc\<lparr>stepCache := ca\<rparr>) e2" "?n \<notin> seenSteps e2"
        "stored wc ?n e2 = stored wc ?n e'" "later e' e2" for ca e2
    proof -
      have st: "stored wc ?n e2 = stored wc ?n e1" using q(4) e'(2) by (simp add: stored_def)
      obtain e3 where run2: "Run cd (?wc (wc\<lparr>stepCache := ca\<rparr>)) (?nm wc) fn e2 = (Inr (Some c), e3)"
        "replayed e2 e3" "seenSteps e3 = insert ?n (seenSteps e2)"
        by (rule Run_again [of "?wc (wc\<lparr>stepCache := ca\<rparr>)" e2 ?n cd "Inr (Some c)" "?nm wc" fn])
          (use q settled_row [OF s st] in simp_all)
      have "c \<le> engineNow e3 (engineNows e3)"
      proof -
        have "engineNow e1 (engineNows e1) \<le> engineNow e2 (engineNows e3)"
          using q(5) e'(2) run2(2) by (simp add: later_def replayed_def)
        with c run2(2) show ?thesis by (simp add: replayed_def)
      qed
      then have "SleepUntil cd (wc\<lparr>stepCache := ca\<rparr>) t e2 =
          (Returned r, wc'\<lparr>stepCache := ca\<rparr>, snd (nowFunc e3))"
        using run2(1) e'(1) 2(4)
        by (simp add: SleepUntil_def fn_def Let_def case_prod_unfold deref_def succeeded_def)
      moreover have "replayed e2 (snd (nowFunc e3))"
        using run2(2) replayed_now replayed_trans by blast
      ultimately show ?thesis using run2(3) by auto
    qed
    with seen e'(2) show ?case by auto
  qed
qed

lemma durable_ProviderGet:
  assumes "round_trip cd" and "tame gen"
    and get: "\<And>wc e. op wc e = (let (r, p, e) = ProviderGet cd wc (get wc) gen e in (r, put p wc, e))"
    and "\<And>p wc. same_flow wc (put p wc)" and "\<And>c wc. get (wc\<lparr>stepCache := c\<rparr>) = get wc"
    and "\<And>p c wc. put p (wc\<lparr>stepCache := c\<rparr>) = (put p wc)\<lparr>stepCache := c\<rparr>"
  shows "durable_call op succeeded"
proof -
  let ?nm = "\<lambda>wc. step_number (p_prefix (get wc)) (Suc (p_counter (get wc)))"
  have call: "\<exists>p'. ProviderGet cd wc (get wc) gen e = (Returned r, p', e') \<and> wc' = put p' wc"
    if "op wc e = (Returned r, wc', e')" for wc e r wc' e'
    using that by (auto simp: get split: prod.splits)
  show ?thesis
  proof (rule durableI, goal_cases)
    case (1 wc e r wc' e')
    from call [OF 1(1)] obtain p' where "ProviderGet cd wc (get wc) gen e = (Returned r, p', e')" "wc' = put p' wc"
      by blast
    with ProviderGet_first (2) [OF this(1) 1(2) assms(2,1)] 1(3) assms(4) show ?case
      by (simp add: good_clock_def)
  next
    case (2 wc e r wc' e')
    from call [OF 2(1)] obtain p' where p: "ProviderGet cd wc (get wc) gen e = (Returned r, p', e')" "wc' = put p' wc"
      by blast
    obtain v where r: "r = Inr v" using 2(4) by (auto simp: succeeded_def)
    let ?n = "resolveStepName wc (?nm wc)"
    have clock: "\<And>k. good_time (engineNow e k)" using 2(3) by (simp add: good_clock_def)
    note first = ProviderGet_first (1,3) [OF p(1) 2(2) assms(2,1) clock]
    from first(2) [OF r] have seen: "?n \<notin> seenSteps e" "seenSteps e' = insert ?n (seenSteps e)"
      and s: "settled cd wc ?n e' (Inr (Some v))" by auto
    have "\<exists>e2'. op (wc\<lparr>stepCache := c\<rparr>) e2 = (Returned r, wc'\<lparr>stepCache := c\<rparr>, e2') \<and>
        replayed e2 e2' \<and> seenSteps e2' = insert ?n (seenSteps e2)"
      if q: "quiet wc e2" "cache_consistent (wc\<lparr>stepCache := c\<rparr>) e2" "?n \<notin> seenSteps e2"
        "stored wc ?n e2 = stored wc ?n e'" for c e2
    proof -
      obtain e3 where
        "ProviderGet cd (wc\<lparr>stepCache := c\<rparr>) (get wc) gen e2 =
          (Returned (Inr v), (get wc)\<lparr>p_counter := Suc (p_counter (get wc))\<rparr>, e3)"
        "replayed e2 e3" "seenSteps e3 = insert ?n (seenSteps e2)"
        by (rule ProviderGet_again [of "wc\<lparr>stepCache := c\<rparr>" e2 ?n "get wc" cd v gen])
          (use q settled_row [OF s q(4)] in simp_all)
      then show ?thesis using first(1) p(2) r assms(5,6) by (simp add: get)
    qed
    with seen show ?case by blast
  qed
qed

lemma durable_TimeNow: "round_trip cd \<Longrightarrow> durable_call (TimeNow cd) succeeded"
  by (rule durable_ProviderGet [where get = TimeProvider and put = "\<lambda>p wc. wc\<lparr>TimeProvider := p\<rparr>",
        OF _ _ TimeNow_def])
    (simp_all add: tame_def nowFunc_def)

lemma durable_IDNew: "round_trip cd \<Longrightarrow> durable_call (IDNew cd) succeeded"
  by (rule durable_ProviderGet [where get = IDProvider and put = "\<lambda>p wc. wc\<lparr>IDProvider := p\<rparr>",
        OF _ _ IDNew_def])
    (simp_all add: tame_def idFunc_def)

text \<open>What \<open>WaitForEvent\<close> makes of the answer of \<open>Run\<close>.\<close>

definition wait_answer :: "'v option res \<Rightarrow> 'v option res" where
  "wait_answer r = (case r of Inl err \<Rightarrow> if IsSuspend err \<noteq> None then Inl err
       else if is_event_timeout err then Inl ErrEventTimeout else Inl err | Inr x \<Rightarrow> Inr x)"

lemma WaitForEvent_alt:
  "WaitForEvent cd wc name key d e =
     (let (r, e) = Run cd wc name (subscribe wc (resolveStepName wc name) key d) e in (wait_answer r, e))"
  by (auto simp: WaitForEvent_def wait_answer_def Let_def split: prod.splits sum.splits)

lemma WaitForEvent_call:
  assumes "as_call (\<lambda>wc. WaitForEvent cd wc name key d) wc e = (Returned r, wc', e')"
  obtains r0 where "Run cd wc name (subscribe wc (resolveStepName wc name) key d) e = (r0, e')"
    "wc' = wc" "r = wait_answer r0"
  using assms
  by (cases "Run cd wc name (subscribe wc (resolveStepName wc name) key d) e")
    (simp add: as_call_def WaitForEvent_alt)

definition event_answer :: "'v option res \<Rightarrow> bool" where
  "event_answer r \<longleftrightarrow> (\<exists>v. r = Inr v) \<or> r = Inl ErrEventTimeout"

text \<open>The subscribing step function never succeeds and never reports a timeout.\<close>

lemma subscribe_answer:
  "\<exists>err. fst (subscribe wc n key d e) = Returned (Inl err) \<and> \<not> is_event_timeout err"
proof -
  have "\<not> is_event_timeout err" if "fst (SaveSubscription b s) = Inl err" for b s err
    using that
    by (auto simp: SaveSubscription_def db_call_def Let_def is_event_timeout_def split: option.splits if_splits)
  then show ?thesis
    by (auto simp: subscribe_def Let_def case_prod_unfold is_event_timeout_def split: sum.splits)
qed

lemma WaitForEvent_settles:
  fixes r :: "'v option res" and e :: "'w env"
  assumes "Run cd wc name (subscribe wc n key d) e = (r, e')" and "event_answer (wait_answer r)"
    and "cache_consistent wc e"
  shows "settled cd wc (resolveStepName wc name) e' r"
  using assms(1) refl assms(3)
proof (cases rule: Run_answer)
  case (miss e1)
  obtain err e2 where "subscribe wc n key d e1 = (Returned (Inl err) :: 'v option go_outcome, e2)"
    "\<not> is_event_timeout err"
    using subscribe_answer by (metis prod.collapse)
  with miss(3) have "r = Inl err" "\<not> is_event_timeout err"
    by (simp_all add: cache_miss_def)
  with assms(2) show ?thesis
    by (auto simp: event_answer_def wait_answer_def ErrEventTimeout_def split: if_splits)
next
  case (refused err)
  with assms(2) show ?thesis
    by (auto simp: event_answer_def wait_answer_def ErrEventTimeout_def split: if_splits)
qed

lemma durable_WaitForEvent:
  "durable_call (as_call (\<lambda>wc. WaitForEvent cd wc name key d)) event_answer"
proof (rule durableI, goal_cases)
  case (1 wc e r wc' e')
  obtain r0 where run: "Run cd wc name (subscribe wc (resolveStepName wc name) key d) e = (r0, e')"
    and "wc' = wc"
    by (rule WaitForEvent_call [OF 1(1)])
  with Run_first' (1) [OF run refl tame_subscribe 1(2)] show ?case by simp
next
  case (2 wc e r wc' e')
  let ?n = "resolveStepName wc name"
  obtain r0 where run: "Run cd wc name (subscribe wc ?n key d) e = (r0, e')" and wc: "wc' = wc"
    and r: "r = wait_answer r0"
    by (rule WaitForEvent_call [OF 2(1)])
  have s: "settled cd wc ?n e' r0"
    by (rule WaitForEvent_settles [OF run _ 2(2)]) (use 2(4) r in simp)
  have seen: "?n \<notin> seenSteps e" "seenSteps e' = insert ?n (seenSteps e)"
    using Run_first' (2) [OF run refl tame_subscribe 2(2)] 2(4) r
    by (auto simp: run_duplicate_def event_answer_def wait_answer_def is_event_timeout_def
        ErrEventTimeout_def)
  have "\<exists>e2'. as_call (\<lambda>wc. WaitForEvent cd wc name key d) (wc\<lparr>stepCache := c\<rparr>) e2 =
        (Returned r, wc'\<lparr>stepCache := c\<rparr>, e2') \<and>
      replayed e2 e2' \<and> seenSteps e2' = insert ?n (seenSteps e2)"
    if q: "quiet wc e2" "cache_consistent (wc\<lparr>stepCache := c\<rparr>) e2" "?n \<notin> seenSteps e2"
      "stored wc ?n e2 = stored wc ?n e'" for c e2
  proof -
    obtain e2' where
      "Run cd (wc\<lparr>stepCache := c\<rparr>) name (subscribe (wc\<lparr>stepCache := c\<rparr>) ?n key d) e2 = (r0, e2')"
      "replayed e2 e2'" "seenSteps e2' = insert ?n (seenSteps e2)"
      by (rule Run_again [of "wc\<lparr>stepCache := c\<rparr>" e2 ?n cd r0 name "subscribe (wc\<lparr>stepCache := c\<rparr>) ?n key d"])
        (use q settled_row [OF s q(4)] in simp_all)
    then show ?thesis using r wc by (auto simp: as_call_def WaitForEvent_alt)
  qed
  with seen show ?case by blast
qed

subsection \<open>Replaying a workflow\<close>

lemma exec_calls:
  "exec js (WRun n f k) wc e = continue (as_call (\<lambda>wc. Run (jv js) wc n (on_world f)) wc e) (\<lambda>r. exec js (k r))"
  "exec js (WWait n key d k) wc e =
     continue (as_call (\<lambda>wc. WaitForEvent (jv js) wc n key d) wc e) (\<lambda>r. exec js (k r))"
  by (simp_all add: continue_def as_call_def case_prod_unfold Let_def)

text \<open>
  A piece of code that ended in \<open>out\<close>: a later execution that finds the rows of its steps, in an
  environment where \<open>ok\<close> holds, gets without touching the world to where it goes on as one of the
  continuations \<open>Q\<close>. \<open>replays\<close> is the case of a value, which is returned again.
\<close>

definition comes_back :: "'b go_outcome \<Rightarrow> ('w env \<Rightarrow> bool) \<Rightarrow> (wctx \<Rightarrow> 'w env \<Rightarrow> 'b go_outcome \<times> 'w env) set \<Rightarrow>
    (wctx \<Rightarrow> 'w env \<Rightarrow> 'b go_outcome \<times> 'w env) \<Rightarrow> bool" where
  "comes_back out ok Q P \<longleftrightarrow> (\<forall>wc e e'. P wc e = (out, e') \<longrightarrow> cache_consistent wc e \<longrightarrow> good_clock e \<longrightarrow>
     progress wc e e' \<and>
     (\<forall>c e2. quiet wc e2 \<longrightarrow> cache_consistent (wc\<lparr>stepCache := c\<rparr>) e2 \<longrightarrow> seenSteps e2 = seenSteps e \<longrightarrow>
        (\<forall>n \<in> seenSteps e' - seenSteps e. stored wc n e2 = stored wc n e') \<longrightarrow> later e' e2 \<longrightarrow> ok e2 \<longrightarrow>
        (\<exists>k \<in> Q. \<exists>wc3 e3. P (wc\<lparr>stepCache := c\<rparr>) e2 = k wc3 e3 \<and> replayed e2 e3)))"

definition replays :: "(wctx \<Rightarrow> 'w env \<Rightarrow> 'b go_outcome \<times> 'w env) \<Rightarrow> bool" where
  "replays P \<longleftrightarrow>
     (\<forall>v. comes_back (Returned (Inr v)) (\<lambda>_. True) {\<lambda>wc e. (Returned (Inr v), e)} P)"

definition ends_in_error :: "(wctx \<Rightarrow> 'w env \<Rightarrow> 'b go_outcome \<times> 'w env) \<Rightarrow> bool" where
  "ends_in_error P \<longleftrightarrow> (\<forall>wc e. \<exists>err. fst (P wc e) = Returned (Inl err))"

lemma fails_ends_in_error: "fails p \<Longrightarrow> ends_in_error (exec js p)"
  by (auto simp: ends_in_error_def fails_def)

lemma later_mono:
  assumes "later e' e2" and "engineNows e1 \<le> engineNows e'" and "engineNow e1 = engineNow e'"
    and "engineNow e3 = engineNow e2" and "engineNows e2 \<le> engineNows e3"
  shows "later e1 e3"
  using assms by (auto simp: later_def)

text \<open>The induction step is the same for every durable call.\<close>

lemma comes_back_step:
  assumes p: "\<And>wc e. P wc e = continue (op wc e) K"
    and op: "durable_call op fin"
    and rest: "\<And>r. fin r \<Longrightarrow> comes_back out ok Q (K r)"
    and bad: "\<And>wc e r wc' e'. op wc e = (Returned r, wc', e') \<Longrightarrow> \<not> fin r \<Longrightarrow> fst (K r wc' e') \<noteq> out"
    and panic: "\<And>v stack. out \<noteq> Panicked v stack"
    and ok: "\<And>e e'. ok e \<Longrightarrow> replayed e e' \<Longrightarrow> ok e'"
  shows "comes_back out ok Q P"
  unfolding comes_back_def
proof (intro allI impI)
  fix wc e e'
  assume run: "P wc e = (out, e')" and cc: "cache_consistent wc e" and clock: "good_clock e"
  obtain r wc1 e1 where first: "op wc e = (Returned r, wc1, e1)"
    and cont: "K r wc1 e1 = (out, e')"
    using run panic by (cases "op wc e") (auto simp: p continue_def split: go_outcome.splits)
  have fin: "fin r"
    using bad [OF first] cont by auto
  note d = op [unfolded durable_call_def, rule_format, OF first cc clock]
  then have prog1: "progress wc e e1" and flow: "same_flow wc wc1" by auto
  obtain n where n: "n \<notin> seenSteps e" "seenSteps e1 = insert n (seenSteps e)"
    and again: "\<And>c e2. quiet wc e2 \<Longrightarrow> cache_consistent (wc\<lparr>stepCache := c\<rparr>) e2 \<Longrightarrow> n \<notin> seenSteps e2 \<Longrightarrow>
        stored wc n e2 = stored wc n e1 \<Longrightarrow> later e1 e2 \<Longrightarrow>
        \<exists>e2'. op (wc\<lparr>stepCache := c\<rparr>) e2 = (Returned r, wc1\<lparr>stepCache := c\<rparr>, e2') \<and>
           replayed e2 e2' \<and> seenSteps e2' = insert n (seenSteps e2)"
    using d fin by metis
  have cc1: "cache_consistent wc1 e1"
    using cache_consistent_progress [OF cc prog1] flow by (simp add: same_flow_simps)
  have clock1: "good_clock e1" using clock prog1 by (simp add: good_clock_def progress_def)
  note ih = rest [OF fin, unfolded comes_back_def, rule_format, OF cont cc1 clock1]
  have prog2: "progress wc e1 e'" using ih flow by (simp add: same_flow_simps)
  have row: "stored wc n e' = stored wc n e1" using prog2 n(2) by (simp add: progress_def)
  show "progress wc e e' \<and>
     (\<forall>c e2. quiet wc e2 \<longrightarrow> cache_consistent (wc\<lparr>stepCache := c\<rparr>) e2 \<longrightarrow> seenSteps e2 = seenSteps e \<longrightarrow>
        (\<forall>n \<in> seenSteps e' - seenSteps e. stored wc n e2 = stored wc n e') \<longrightarrow> later e' e2 \<longrightarrow> ok e2 \<longrightarrow>
        (\<exists>k \<in> Q. \<exists>wc3 e3. P (wc\<lparr>stepCache := c\<rparr>) e2 = k wc3 e3 \<and> replayed e2 e3))"
  proof (intro conjI allI impI)
    show "progress wc e e'" by (rule progress_trans [OF prog1 prog2])
    fix c e2
    assume q: "quiet wc e2" and cc2: "cache_consistent (wc\<lparr>stepCache := c\<rparr>) e2" and seen: "seenSteps e2 = seenSteps e"
      and rows: "\<forall>n \<in> seenSteps e' - seenSteps e. stored wc n e2 = stored wc n e'" and late: "later e' e2"
      and ok2: "ok e2"
    have in': "n \<in> seenSteps e'" using prog2 n(2) by (auto simp: progress_def)
    have late1: "later e1 e2"
      by (rule later_mono [OF late]) (use prog2 in \<open>auto simp: progress_def\<close>)
    obtain e3 where e3: "op (wc\<lparr>stepCache := c\<rparr>) e2 = (Returned r, wc1\<lparr>stepCache := c\<rparr>, e3)"
      "replayed e2 e3" "seenSteps e3 = insert n (seenSteps e2)"
      using again [OF q cc2 _ _ late1] n(1) in' seen rows row by auto
    have "\<exists>k \<in> Q. \<exists>wc4 e4. K r (wc1\<lparr>stepCache := c\<rparr>) e3 = k wc4 e4 \<and> replayed e3 e4"
    proof (rule ih [THEN conjunct2, rule_format])
      show "quiet wc1 e3" using q flow e3(2) by (simp add: same_flow_simps replayed_keeps)
      have "same_flow (wc\<lparr>stepCache := c\<rparr>) (wc1\<lparr>stepCache := c\<rparr>)" using flow by (simp add: same_flow_def)
      then show "cache_consistent (wc1\<lparr>stepCache := c\<rparr>) e3"
        using cc2 e3(2) by (simp add: same_flow_simps replayed_keeps)
      show "seenSteps e3 = seenSteps e1" using e3(3) n(2) seen by simp
      show "stored wc1 m e3 = stored wc1 m e'" if "m \<in> seenSteps e' - seenSteps e1" for m
        using that rows n(2) flow e3(2) by (simp add: same_flow_simps replayed_keeps)
      show "later e' e3"
        by (rule later_mono [OF late]) (use e3(2) in \<open>auto simp: replayed_def\<close>)
      show "ok e3" by (rule ok [OF ok2 e3(2)])
    qed
    then show "\<exists>k \<in> Q. \<exists>wc3 e3. P (wc\<lparr>stepCache := c\<rparr>) e2 = k wc3 e3 \<and> replayed e2 e3"
      using e3(1,2) replayed_trans by (auto simp: p continue_def) blast
  qed
qed

lemma replays_step:
  assumes "\<And>wc e. P wc e = continue (op wc e) K" and "durable_call op fin"
    and "\<And>r. fin r \<Longrightarrow> replays (K r)" and bad: "\<And>r. \<not> fin r \<Longrightarrow> ends_in_error (K r)"
  shows "replays P"
  unfolding replays_def
proof
  fix v
  show "comes_back (Returned (Inr v)) (\<lambda>_. True) {\<lambda>wc e. (Returned (Inr v), e)} P"
    by (rule comes_back_step [OF assms(1,2)])
      (use assms(3) bad in \<open>auto simp: replays_def ends_in_error_def, metis go_outcome.inject(1) sum.distinct(1)\<close>)
qed

lemma replays_value:
  assumes "replays P" and "P wc e = (Returned (Inr v), e')" and "cache_consistent wc e" and "good_clock e"
    and "quiet wc e2" and "cache_consistent (wc\<lparr>stepCache := c\<rparr>) e2" and "seenSteps e2 = seenSteps e"
    and "\<forall>n \<in> seenSteps e' - seenSteps e. stored wc n e2 = stored wc n e'" and "later e' e2"
  obtains e2' where "P (wc\<lparr>stepCache := c\<rparr>) e2 = (Returned (Inr v), e2')" "replayed e2 e2'"
  using assms(1) [unfolded replays_def comes_back_def, rule_format, OF assms(2-4), THEN conjunct2, rule_format,
      OF assms(5-7) _ assms(9)] assms(8) by blast

lemma replays_return: "replays (\<lambda>wc e. (Returned r, e))"
  unfolding replays_def comes_back_def by (auto intro: replayed_refl)

lemma exec_replays:
  assumes "round_trip (jv js)" and "round_trip (jt js)" and "round_trip (ji js)"
  shows "replayable p \<Longrightarrow> replays (exec js p)"
proof (induction p)
  case (WReturn r)
  have "exec js (WReturn r) = (\<lambda>wc e. (Returned r, e))" by (simp add: fun_eq_iff)
  then show ?case using replays_return by simp
next
  case (WRun n f k)
  have "fst (on_world f e) \<noteq> Returned (Inr None)" for e :: "'b env"
    using WRun.prems by (simp add: on_world_def case_prod_unfold Let_def)
  from durable_Run [OF tame_on_world this assms(1)] show ?case
    by (rule replays_step [OF exec_calls(1)])
      (use WRun in \<open>auto intro!: fails_ends_in_error simp: succeeded_def split: sum.splits, (metis old.sum.exhaust)+\<close>)
next
  case (WSleep t k)
  from durable_SleepUntil [OF assms(2)] show ?case
    by (rule replays_step [OF exec.simps(3)])
      (use WSleep in \<open>auto intro!: fails_ends_in_error simp: succeeded_def, (metis old.sum.exhaust old.unit.exhaust)+\<close>)
next
  case (WNow k)
  from durable_TimeNow [OF assms(2)] show ?case
    by (rule replays_step [OF exec.simps(4)])
      (use WNow in \<open>auto intro!: fails_ends_in_error simp: succeeded_def, (metis old.sum.exhaust)+\<close>)
next
  case (WNewID k)
  from durable_IDNew [OF assms(3)] show ?case
    by (rule replays_step [OF exec.simps(5)])
      (use WNewID in \<open>auto intro!: fails_ends_in_error simp: succeeded_def, (metis old.sum.exhaust)+\<close>)
next
  case (WWait n key d k)
  from durable_WaitForEvent show ?case
    by (rule replays_step [OF exec_calls(2)])
      (use WWait in \<open>auto intro!: fails_ends_in_error simp: event_answer_def, (metis old.sum.exhaust)+\<close>)
qed

end
