(* ===== verification/OccContract.thy ===== *)
theory OccContract
  imports StoreProps
begin

section \<open>Optimistic concurrency\<close>

text \<open>
  The contract behind \<open>occ_version\<close>: an update names the version its caller read; it takes effect
  only on that version, and then the version moves on. Stated once over any such store, with its
  consequence (of all the updates that rest on the same reading of a row, at most one succeeds, and
  without faults the first one does), and discharged on \<open>UpdateStatus\<close>, \<open>SetError\<close>, \<open>SetRetry\<close> and
  \<open>Suspend\<close> of the SQLite store, driver faults included.
\<close>

text \<open>
  How many of the given updates that name version \<open>v\<close> of row \<open>k\<close> succeed, when all are run in order.
\<close>

definition wins :: "('u \<Rightarrow> 'k \<Rightarrow> int \<Rightarrow> 's \<Rightarrow> ('e + unit) \<times> 's) \<Rightarrow> 'k \<Rightarrow> int \<Rightarrow> ('u \<times> 'k \<times> int) list \<Rightarrow> 's \<Rightarrow> nat" where
  "wins upd k v us s =
     length (filter (\<lambda>((u, k', v'), r). k' = k \<and> v' = v \<and> r = Inr ())
       (zip us (fst (run_ops (map (\<lambda>(u, k, v). upd u k v) us) s))))"

lemma wins_Nil: "wins upd k v [] s = 0"
  by (simp add: wins_def)

lemma wins_Cons:
  "wins upd k v ((u, k', v') # us) s =
     (if k' = k \<and> v' = v \<and> fst (upd u k' v' s) = Inr () then 1 else 0) + wins upd k v us (snd (upd u k' v' s))"
  by (auto simp: wins_def)

locale occ_store =
  fixes inv :: "'s \<Rightarrow> bool"
    and healthy :: "'s \<Rightarrow> bool"
    and version :: "'s \<Rightarrow> 'k \<Rightarrow> int option"
    and upd :: "'u \<Rightarrow> 'k \<Rightarrow> int \<Rightarrow> 's \<Rightarrow> ('e + unit) \<times> 's"
  assumes inv_kept: "inv s \<Longrightarrow> inv (snd (upd u k v s))"
    and won: "inv s \<Longrightarrow> fst (upd u k v s) = Inr () \<Longrightarrow>
      version s k = Some v \<and> version (snd (upd u k v s)) k = Some (v + 1)"
    and grows: "inv s \<Longrightarrow> version s k' = Some n \<Longrightarrow>
      \<exists>n'. version (snd (upd u k v s)) k' = Some n' \<and> n \<le> n'"
    and takes: "inv s \<Longrightarrow> healthy s \<Longrightarrow> version s k = Some v \<Longrightarrow> fst (upd u k v s) = Inr ()"
begin

text \<open>Once the version has moved past \<open>v\<close>, no update with version \<open>v\<close> succeeds.\<close>

lemma stale_loses:
  assumes "inv s" and "version s k = Some n" and "v < n"
  shows "wins upd k v us s = 0"
  using assms
proof (induction us arbitrary: s n)
  case Nil
  show ?case by (rule wins_Nil)
next
  case (Cons a us)
  obtain u k' v' where a: "a = (u, k', v')" by (cases a)
  obtain n' where "version (snd (upd u k' v' s)) k = Some n'" "n \<le> n'"
    using grows [OF Cons.prems(1,2)] by blast
  with Cons.IH [OF inv_kept [OF Cons.prems(1)]] Cons.prems(3)
  have "wins upd k v us (snd (upd u k' v' s)) = 0" by simp
  moreover have "\<not> (k' = k \<and> v' = v \<and> fst (upd u k' v' s) = Inr ())"
    using won [OF Cons.prems(1), of u k' v'] Cons.prems by auto
  ultimately show ?case by (simp only: a wins_Cons if_False)
qed

lemma one_winner: "inv s \<Longrightarrow> wins upd k v us s \<le> 1"
proof (induction us arbitrary: s)
  case Nil
  show ?case by (simp only: wins_Nil)
next
  case (Cons a us)
  obtain u k' v' where a: "a = (u, k', v')" by (cases a)
  show ?case
  proof (cases "k' = k \<and> v' = v \<and> fst (upd u k' v' s) = Inr ()")
    case True
    with won [OF Cons.prems, of u k v]
    have "version (snd (upd u k' v' s)) k = Some (v + 1)" by auto
    from stale_loses [OF inv_kept [OF Cons.prems] this, of v us]
    show ?thesis using True by (simp add: a wins_Cons)
  next
    case False
    with Cons.IH [OF inv_kept [OF Cons.prems]] show ?thesis by (simp only: a wins_Cons if_False) simp
  qed
qed

lemma first_wins:
  assumes "inv s" and "healthy s" and "version s k = Some v"
  shows "wins upd k v ((u, k, v) # us) s = 1"
  using takes [OF assms, of u] one_winner [OF assms(1), of k v "(u, k, v) # us"]
  by (simp add: wins_Cons)

end

subsection \<open>The versioned updates of the store\<close>

datatype occ_update =
    OccStatus status "bytes option"
  | OccError status string
  | OccRetry time
  | OccSuspend time

fun occ_apply :: "occ_update \<Rightarrow> string \<Rightarrow> int \<Rightarrow> unit op" where
  "occ_apply (OccStatus st result) wid occ = UpdateStatus wid st result occ"
| "occ_apply (OccError st err) wid occ = SetError wid st err occ"
| "occ_apply (OccRetry t) wid occ = SetRetry wid t occ"
| "occ_apply (OccSuspend t) wid occ = Suspend wid t occ"

definition occ_version :: "store \<Rightarrow> string \<Rightarrow> int option" where
  "occ_version s wid = map_option c_occ_version (row_at c_id wid (workflows s))"

definition unique_ids :: "store \<Rightarrow> bool" where
  "unique_ids s \<longleftrightarrow> distinct (map c_id (workflows s))"

text \<open>The row an update leaves, at store time \<open>t\<close>.\<close>

fun occ_row :: "occ_update \<Rightarrow> time \<Rightarrow> workflow_row \<Rightarrow> workflow_row" where
  "occ_row (OccStatus st result) t r = r\<lparr>c_status := st, c_result := result,
     c_occ_version := c_occ_version r + 1, c_updated_at := formatTime t\<rparr>"
| "occ_row (OccError st err) t r = r\<lparr>c_status := st, c_error := err,
     c_occ_version := c_occ_version r + 1, c_updated_at := formatTime t\<rparr>"
| "occ_row (OccRetry ra) t r = r\<lparr>c_status := StatusPending, c_retry_after := formatTime ra,
     c_attempts := c_attempts r + 1, c_occ_version := c_occ_version r + 1, c_updated_at := formatTime t\<rparr>"
| "occ_row (OccSuspend ra) t r = r\<lparr>c_status := StatusSuspended, c_retry_after := formatTime ra,
     c_occ_version := c_occ_version r + 1, c_updated_at := formatTime t\<rparr>"

lemma occ_row_id [simp]: "c_id (occ_row u t r) = c_id r"
  and occ_row_version [simp]: "c_occ_version (occ_row u t r) = c_occ_version r + 1"
  by (cases u; simp)+

definition occ_ctx :: "occ_update \<Rightarrow> string" where
  "occ_ctx u = (case u of OccStatus _ _ \<Rightarrow> ''update status'' | OccError _ _ \<Rightarrow> ''set error''
     | OccRetry _ \<Rightarrow> ''set retry'' | OccSuspend _ \<Rightarrow> ''suspend'')"

lemma occ_apply_exec:
  "occ_apply u wid occ s =
     occ_exec (occ_ctx u) wid occ (occ_row u (fst (now s))) (snd (now s))"
  by (cases u) (simp_all add: UpdateStatus_def SetError_def SetRetry_def Suspend_def occ_ctx_def
      case_prod_unfold Let_def occ_row.simps [abs_def] cong: if_cong)

lemma checkRows_fields [simp]:
  "workflows (snd (checkRowsAffected n s)) = workflows s"
  "dbFault (snd (checkRowsAffected n s)) = dbFault s"
  by (simp_all add: checkRowsAffected_def db_call_def Let_def split: option.splits)

definition occ_pred :: "string \<Rightarrow> int \<Rightarrow> workflow_row \<Rightarrow> bool" where
  "occ_pred wid occ r \<longleftrightarrow> c_id r = wid \<and> c_occ_version r = occ"

lemma occ_exec_alt: "occ_exec ctx wid occ f = db_call (WrapError ctx) (\<lambda>s.
     checkRowsAffected (fst (sql_update (occ_pred wid occ) f (workflows s)))
       (s\<lparr>workflows := snd (sql_update (occ_pred wid occ) f (workflows s))\<rparr>))"
  by (simp add: occ_exec_def occ_pred_def [abs_def] case_prod_unfold Let_def)

lemma occ_exec_tables:
  "workflows (snd (occ_exec ctx wid occ f s)) = workflows s \<or>
   workflows (snd (occ_exec ctx wid occ f s)) = snd (sql_update (occ_pred wid occ) f (workflows s))"
  by (auto simp: occ_exec_alt db_call_def Let_def split: option.splits)

lemma occ_exec_ok:
  assumes "fst (occ_exec ctx wid occ f s) = Inr ()"
  shows "workflows (snd (occ_exec ctx wid occ f s)) = snd (sql_update (occ_pred wid occ) f (workflows s))"
    and "fst (sql_update (occ_pred wid occ) f (workflows s)) \<noteq> 0"
  using assms
  by (auto simp: occ_exec_alt checkRowsAffected_def db_call_def Let_def split: option.splits if_splits)

lemma occ_selected:
  assumes "unique_ids s" and "fst (sql_update (occ_pred wid occ) f (workflows s)) \<noteq> 0"
  shows "\<exists>r. row_at c_id wid (workflows s) = Some r \<and> c_occ_version r = occ"
proof -
  obtain r where "r \<in> set (workflows s)" "c_id r = wid" "c_occ_version r = occ"
    using assms(2) unfolding sql_update_count_pos occ_pred_def by blast
  with assms(1) show ?thesis
    using row_at_distinct [of c_id "workflows s" r] by (auto simp: unique_ids_def)
qed

lemma occ_version_sql_update:
  assumes "\<And>r. c_id (f r) = c_id r" and "workflows s' = snd (sql_update p f (workflows s))"
  shows "occ_version s' k =
    map_option (\<lambda>r. c_occ_version (if p r then f r else r)) (row_at c_id k (workflows s))"
  using assms by (simp add: occ_version_def row_at_sql_update option.map_comp comp_def)

interpretation sqlite_occ: occ_store unique_ids no_fault occ_version occ_apply
proof (unfold_locales, goal_cases)
  case (1 s u k v)
  let ?f = "occ_row u (fst (now s))"
  from occ_exec_tables [of "occ_ctx u" k v ?f "snd (now s)"] 1
  show ?case by (auto simp: unique_ids_def occ_apply_exec sql_update_keys)
next
  case (2 s u k v)
  let ?f = "occ_row u (fst (now s))"
  have ok: "fst (occ_exec (occ_ctx u) k v ?f (snd (now s))) = Inr ()"
    using 2 by (simp add: occ_apply_exec)
  note after = occ_exec_ok [OF ok]
  obtain r where r: "row_at c_id k (workflows s) = Some r" "c_occ_version r = v"
    using occ_selected [of "snd (now s)" k v ?f] after(2) 2(1) by (auto simp: unique_ids_def)
  have "occ_version (snd (occ_apply u k v s)) k = Some (v + 1)"
    using occ_version_sql_update [of ?f "snd (occ_apply u k v s)" "occ_pred k v" s k] after(1) r
      row_at_key [OF r(1)]
    by (simp add: occ_apply_exec occ_pred_def)
  with r show ?case by (simp add: occ_version_def)
next
  case (3 s k' n u k v)
  let ?f = "occ_row u (fst (now s))"
  from occ_exec_tables [of "occ_ctx u" k v ?f "snd (now s)"] show ?case
  proof
    assume "workflows (snd (occ_exec (occ_ctx u) k v ?f (snd (now s)))) = workflows (snd (now s))"
    with 3 show ?thesis by (auto simp: occ_version_def occ_apply_exec)
  next
    assume "workflows (snd (occ_exec (occ_ctx u) k v ?f (snd (now s)))) =
      snd (sql_update (occ_pred k v) ?f (workflows (snd (now s))))"
    then have "occ_version (snd (occ_apply u k v s)) k' =
        map_option (\<lambda>r. c_occ_version (if occ_pred k v r then ?f r else r)) (row_at c_id k' (workflows s))"
      by (intro occ_version_sql_update) (simp_all add: occ_apply_exec)
    moreover obtain z where "row_at c_id k' (workflows s) = Some z" "n = c_occ_version z"
      using 3 by (auto simp: occ_version_def)
    ultimately show ?thesis by simp
  qed
next
  case (4 s k v u)
  let ?f = "occ_row u (fst (now s))"
  obtain r where r: "row_at c_id k (workflows s) = Some r" "c_occ_version r = v"
    using 4 by (auto simp: occ_version_def)
  have "fst (sql_update (occ_pred k v) ?f (workflows s)) \<noteq> 0"
    using row_at_mem [OF r(1)] row_at_key [OF r(1)] r(2)
    unfolding sql_update_count_pos occ_pred_def by blast
  with 4(2) show ?case
    by (simp add: occ_apply_exec occ_exec_alt checkRowsAffected_def db_call_no_fault)
qed

text \<open>An update that names any other version does nothing.\<close>

lemma occ_stale:
  assumes "unique_ids s" and "no_fault s" and "occ_version s wid \<noteq> Some v"
  shows "fst (occ_apply u wid v s) = Inl OCCConflictError \<and> tables_of (snd (occ_apply u wid v s)) = tables_of s"
proof -
  let ?upd = "sql_update (occ_pred wid v) (occ_row u (fst (now s))) (workflows s)"
  have none: "fst ?upd = 0"
    using occ_selected [OF assms(1), of wid v "occ_row u (fst (now s))"] assms(3)
    by (fastforce simp: occ_version_def)
  then have "snd ?upd = workflows s" by (rule sql_update_none)
  with none assms(2) show ?thesis
    by (simp add: occ_apply_exec occ_exec_alt checkRowsAffected_def db_call_no_fault tables_of_eq_iff)
qed

end
