(* ===== verification/Lease.thy ===== *)
theory Lease
  imports GoErrors
begin

section \<open>Leases\<close>

text \<open>
  \<^verbatim>\<open>lease.go\<close>: the interface \<open>LeaseStore\<close> and the in-process implementation, a map used as a set of
  workflow ids behind a mutex (so its methods are atomic). The contract is a locale over the three
  methods; its consequence is mutual exclusion.
\<close>

type_synonym memory_leases = "string set"

definition NewMemoryLeaseStore :: memory_leases where
  "NewMemoryLeaseStore = {}"

definition Acquire :: "string \<Rightarrow> memory_leases \<Rightarrow> bool res \<times> memory_leases" where
  "Acquire wid leases = (if wid \<in> leases then (Inr False, leases) else (Inr True, insert wid leases))"

definition Release :: "string \<Rightarrow> memory_leases \<Rightarrow> unit res \<times> memory_leases" where
  "Release wid leases = (Inr (), leases - {wid})"

definition IsHeld :: "string \<Rightarrow> memory_leases \<Rightarrow> bool res \<times> memory_leases" where
  "IsHeld wid leases = (Inr (wid \<in> leases), leases)"

datatype lease_call = LAcquire string | LRelease string | LIsHeld string

text \<open>
  Calls from several workers in the order the mutex lets them in; \<open>granted\<close> tells which of them were
  granted a lease.
\<close>

fun granted :: "(string \<Rightarrow> 's \<Rightarrow> bool res \<times> 's) \<Rightarrow> (string \<Rightarrow> 's \<Rightarrow> unit res \<times> 's) \<Rightarrow>
    (string \<Rightarrow> 's \<Rightarrow> bool res \<times> 's) \<Rightarrow> lease_call list \<Rightarrow> 's \<Rightarrow> bool list" where
  "granted acq rel isheld [] s = []"
| "granted acq rel isheld (LAcquire w # cs) s =
     (fst (acq w s) = Inr True) # granted acq rel isheld cs (snd (acq w s))"
| "granted acq rel isheld (LRelease w # cs) s = False # granted acq rel isheld cs (snd (rel w s))"
| "granted acq rel isheld (LIsHeld w # cs) s = False # granted acq rel isheld cs (snd (isheld w s))"

lemma length_granted [simp]: "length (granted acq rel isheld cs s) = length cs"
  by (induction acq rel isheld cs s rule: granted.induct) simp_all

locale lease_store =
  fixes acq :: "string \<Rightarrow> 's \<Rightarrow> bool res \<times> 's"
    and rel :: "string \<Rightarrow> 's \<Rightarrow> unit res \<times> 's"
    and isheld :: "string \<Rightarrow> 's \<Rightarrow> bool res \<times> 's"
    and held :: "'s \<Rightarrow> string \<Rightarrow> bool"
  assumes acq_answer: "fst (acq w s) = Inr True \<longleftrightarrow> \<not> held s w"
    and acq_held: "held (snd (acq w s)) v \<longleftrightarrow> held s v \<or> v = w"
    and rel_held: "held (snd (rel w s)) v \<longleftrightarrow> held s v \<and> v \<noteq> w"
    and isheld_answer: "fst (isheld w s) = Inr (held s w)"
    and isheld_frame: "snd (isheld w s) = s"
begin

text \<open>While nobody releases a held lease, it is granted to no one.\<close>

lemma held_not_granted:
  assumes "held s w" and "i < length cs" and "cs ! i = LAcquire w" and "granted acq rel isheld cs s ! i"
  shows "\<exists>j < i. cs ! j = LRelease w"
  using assms
proof (induction cs arbitrary: s i)
  case Nil
  then show ?case by simp
next
  case (Cons c cs)
  show ?case
  proof (cases i)
    case 0
    with Cons.prems show ?thesis by (simp add: acq_answer)
  next
    case (Suc k)
    show ?thesis
    proof (cases "c = LRelease w")
      case True
      then show ?thesis using Suc by (intro exI [of _ 0]) simp
    next
      case False
      have "\<exists>j < k. cs ! j = LRelease w"
      proof (cases c)
        case (LAcquire v)
        show ?thesis
          by (rule Cons.IH [of "snd (acq v s)"]) (use Cons.prems Suc LAcquire acq_held in auto)
      next
        case (LRelease v)
        show ?thesis
          by (rule Cons.IH [of "snd (rel v s)"]) (use Cons.prems Suc LRelease False rel_held in auto)
      next
        case (LIsHeld v)
        show ?thesis
          by (rule Cons.IH [of "snd (isheld v s)"]) (use Cons.prems Suc LIsHeld isheld_frame in auto)
      qed
      then show ?thesis using Suc by auto
    qed
  qed
qed

lemma exclusive:
  assumes "i < j" and "j < length cs" and "cs ! i = LAcquire w" and "cs ! j = LAcquire w"
    and "granted acq rel isheld cs s ! i" and "granted acq rel isheld cs s ! j"
  shows "\<exists>k. i < k \<and> k < j \<and> cs ! k = LRelease w"
  using assms
proof (induction cs arbitrary: s i j)
  case Nil
  then show ?case by simp
next
  case (Cons c cs)
  obtain j' where j: "j = Suc j'" using Cons.prems(1) by (cases j) auto
  show ?case
  proof (cases i)
    case 0
    with Cons.prems have c: "c = LAcquire w" by simp
    have "\<exists>k < j'. cs ! k = LRelease w"
      by (rule held_not_granted [of "snd (acq w s)"])
        (use Cons.prems j 0 c acq_held in auto)
    then show ?thesis using 0 j by auto
  next
    case (Suc i')
    define s' where "s' = (case c of LAcquire v \<Rightarrow> snd (acq v s) | LRelease v \<Rightarrow> snd (rel v s)
      | LIsHeld v \<Rightarrow> snd (isheld v s))"
    have "granted acq rel isheld (c # cs) s ! Suc m = granted acq rel isheld cs s' ! m" for m
      by (cases c) (simp_all add: s'_def)
    then have "\<exists>k. i' < k \<and> k < j' \<and> cs ! k = LRelease w"
      using Cons.prems j Suc by (intro Cons.IH [of i' j' s']) simp_all
    then show ?thesis using j Suc by auto
  qed
qed

end

interpretation memory_lease: lease_store Acquire Release IsHeld "\<lambda>leases w. w \<in> leases"
  by unfold_locales (auto simp: Acquire_def Release_def IsHeld_def)

end
