(* ===== verification/Runner.thy ===== *)
theory Runner
  imports Replay OccContract Lease
begin

section \<open>Executing a workflow\<close>

text \<open>
  \<^verbatim>\<open>runner.go\<close> and \<open>executeWorkflow\<close> of \<^verbatim>\<open>registry.go\<close>: one execution of a workflow record, from the
  lease to the durable outcome. A registered workflow is its type-erased \<open>definition\<close>; the request and
  response codecs and the user's \<open>Execute\<close> are parameters of the definition. The lease store is
  the in-process one. \<open>seenSteps\<close> of the environment is the map the runner makes for this execution.
\<close>

subsection \<open>Definitions\<close>

record ('r, 'resp, 'w) WorkflowDef =
  wd_name :: string
  wd_version :: string
  wd_unmarshal :: "bytes option \<Rightarrow> 'r res"
  wd_marshal :: "'resp \<Rightarrow> bytes res"
  wd_execute :: "wctx \<Rightarrow> 'r \<Rightarrow> ('resp go_outcome, 'w) act"

record 'w definition_iface =
  d_name :: string
  d_version :: string
  d_execute :: "wctx \<Rightarrow> bytes option \<Rightarrow> (bytes go_outcome, 'w) act"

definition Define :: "string \<Rightarrow> string \<Rightarrow> (bytes option \<Rightarrow> 'r res) \<Rightarrow> ('resp \<Rightarrow> bytes res) \<Rightarrow>
    (wctx \<Rightarrow> 'r \<Rightarrow> ('resp go_outcome, 'w) act) \<Rightarrow> ('r, 'resp, 'w) WorkflowDef" where
  "Define name version unm mar factory =
     \<lparr>wd_name = name, wd_version = version, wd_unmarshal = unm, wd_marshal = mar, wd_execute = factory\<rparr>"

definition defName :: "('r, 'resp, 'w) WorkflowDef \<Rightarrow> string" where
  "defName d = wd_name d @ '':'' @ wd_version d"

definition defVersion :: "('r, 'resp, 'w) WorkflowDef \<Rightarrow> string" where
  "defVersion d = wd_version d"

definition executeWorkflow :: "('r, 'resp, 'w) WorkflowDef \<Rightarrow> wctx \<Rightarrow> bytes option \<Rightarrow> (bytes go_outcome, 'w) act" where
  "executeWorkflow d wc payload e =
     (case wd_unmarshal d payload of
        Inl err \<Rightarrow> (Returned (Inl (WrapError ''unmarshal request'' err)), e)
      | Inr req \<Rightarrow>
          (case wd_execute d wc req e of
             (Panicked v stack, e) \<Rightarrow> (Panicked v stack, e)
           | (Returned (Inl err), e) \<Rightarrow> (Returned (Inl err), e)
           | (Returned (Inr resp), e) \<Rightarrow>
               (case wd_marshal d resp of
                  Inl err \<Rightarrow> (Returned (Inl (WrapError ''marshal result'' err)), e)
                | Inr result \<Rightarrow> (Returned (Inr result), e))))"

definition erase :: "('r, 'resp, 'w) WorkflowDef \<Rightarrow> 'w definition_iface" where
  "erase d = \<lparr>d_name = defName d, d_version = defVersion d, d_execute = executeWorkflow d\<rparr>"

record 'w registryEntry =
  re_def :: "'w definition_iface"
  retryPolicy :: RetryPolicy

type_synonym 'w registry = "string \<rightharpoonup> 'w registryEntry"

subsection \<open>The outcome of an execution\<close>

text \<open>\<open>BaseDelay << Attempts\<close> on a signed 64-bit duration, cut off at \<open>MaxDelay\<close>.\<close>

definition retry_delay :: "RetryPolicy \<Rightarrow> int \<Rightarrow> duration" where
  "retry_delay p attempts =
     (let delay = push_bit (nat attempts) (BaseDelay p) in
      if sint (MaxDelay p) < sint delay then MaxDelay p else delay)"

definition resolveOutcome :: "WorkflowRecord \<Rightarrow> RetryPolicy \<Rightarrow> int \<Rightarrow> bytes res \<Rightarrow> (unit res, 'w) act" where
  "resolveOutcome record p occVersion r e =
     (case r of
        Inl execErr \<Rightarrow>
          if as_cancelled execErr
          then on_store (UpdateStatus (wr_ID record) StatusCancelled None occVersion) e
          else (case as_permanent execErr of
            Some err \<Rightarrow> on_store (SetError (wr_ID record) StatusFailed (error_text err) occVersion) e
          | None \<Rightarrow> (case IsSuspend execErr of
              Some resumeAt \<Rightarrow> on_store (Suspend (wr_ID record) resumeAt occVersion) e
            | None \<Rightarrow>
                if wr_Attempts record + 1 \<ge> MaxAttempts p
                then on_store (SetError (wr_ID record) StatusFailed (error_text execErr) occVersion) e
                else let (t, e) = nowFunc e in
                     on_store (SetRetry (wr_ID record) (add_time t (retry_delay p (wr_Attempts record))) occVersion) e))
      | Inr resultJSON \<Rightarrow>
          on_store (UpdateStatus (wr_ID record) StatusCompleted (Some resultJSON) occVersion) e)"

subsection \<open>One execution\<close>

text \<open>The prefetched map: the later of two results with one name wins.\<close>

definition step_cache :: "StepResult list \<Rightarrow> string \<rightharpoonup> StepResult" where
  "step_cache steps = fold (\<lambda>s m. m(sr_StepName s \<mapsto> s)) steps Map.empty"

definition new_context :: "WorkflowRecord \<Rightarrow> (string \<rightharpoonup> StepResult) \<Rightarrow> wctx" where
  "new_context record cache =
     \<lparr>wc_id = wr_ID record, wc_wfType = wr_Type record, wc_version = wr_Version record,
      stepCache = cache, prefix = '''', sleepCounter = 0,
      TimeProvider = NewTimeProvider, IDProvider = NewIDProvider\<rparr>"

definition run_leased :: "'w registryEntry \<Rightarrow> WorkflowRecord \<Rightarrow> (unit res, 'w) act" where
  "run_leased entry record e =
     (case on_store (ListStepResults (wr_Type record) (wr_Version record) (wr_ID record)) e of
        (Inl err, e) \<Rightarrow> (Inl (WrapError ''prefetch step results'' err), e)
      | (Inr steps, e) \<Rightarrow>
          let wc = new_context record (step_cache steps); e = e\<lparr>seenSteps := {}\<rparr> in
          (case on_store (GetSignal (wr_ID record)) e of
             (Inl err, e) \<Rightarrow> (Inl (WrapError ''get signal'' err), e)
           | (Inr signal, e) \<Rightarrow>
               let (r, e) = (if signal = SignalCancelRequested then (Inl ErrCancelled, e)
                             else let (out, e) = d_execute (re_def entry) wc (wr_Payload record) e
                                  in (panicToError out, e))
               in resolveOutcome record (retryPolicy entry) (wr_OCCVersion record) r e))"

definition RunWorkflow :: "'w registry \<Rightarrow> WorkflowRecord \<Rightarrow> memory_leases \<times> 'w env \<Rightarrow>
    unit res \<times> memory_leases \<times> 'w env" where
  "RunWorkflow reg record x =
     (case x of (leases, e) \<Rightarrow>
        case reg (wr_Type record) of
          None \<Rightarrow> (Inl (DefinitionNotFoundError (wr_Type record)), leases, e)
        | Some entry \<Rightarrow>
            (case Acquire (wr_ID record) leases of
               (Inl err, leases) \<Rightarrow> (Inl (WrapError ''acquire lease'' err), leases, e)
             | (Inr acquired, leases) \<Rightarrow>
                 if \<not> acquired then (Inr (), leases, e)
                 else let (r, e) = run_leased entry record e;
                          (_, leases) = Release (wr_ID record) leases
                      in (r, leases, e)))"

subsection \<open>The decision, as a versioned update\<close>

text \<open>What \<open>resolveOutcome\<close> decides, separated from how it is stored.\<close>

definition decide :: "RetryPolicy \<Rightarrow> int \<Rightarrow> time \<Rightarrow> bytes res \<Rightarrow> occ_update" where
  "decide p attempts t r =
     (case r of
        Inr json \<Rightarrow> OccStatus StatusCompleted (Some json)
      | Inl err \<Rightarrow>
          if as_cancelled err then OccStatus StatusCancelled None
          else case as_permanent err of
                 Some cause \<Rightarrow> OccError StatusFailed (error_text cause)
               | None \<Rightarrow> (case IsSuspend err of
                   Some resumeAt \<Rightarrow> OccSuspend resumeAt
                 | None \<Rightarrow> if MaxAttempts p \<le> attempts + 1 then OccError StatusFailed (error_text err)
                           else OccRetry (add_time t (retry_delay p attempts))))"

fun is_retry :: "occ_update \<Rightarrow> bool" where
  "is_retry (OccRetry t) = True"
| "is_retry _ = False"

lemma resolveOutcome_decides:
  "resolveOutcome record p occ r e =
     (let u = decide p (wr_Attempts record) (engineNow e (engineNows e)) r;
          e1 = (if is_retry u then snd (nowFunc e) else e)
      in on_store (occ_apply u (wr_ID record) occ) e1)"
  by (auto simp: resolveOutcome_def decide_def nowFunc_def split: sum.splits option.splits)

subsection \<open>Leases around an execution\<close>

lemma RunWorkflow_leases: "fst (snd (RunWorkflow reg record (leases, e))) = leases"
  by (auto simp: RunWorkflow_def Acquire_def Release_def Let_def case_prod_unfold split: option.splits)

lemma RunWorkflow_held:
  "reg (wr_Type record) = Some entry \<Longrightarrow> wr_ID record \<in> leases \<Longrightarrow>
   RunWorkflow reg record (leases, e) = (Inr (), leases, e)"
  by (simp add: RunWorkflow_def Acquire_def)

lemma RunWorkflow_free:
  "reg (wr_Type record) = Some entry \<Longrightarrow> wr_ID record \<notin> leases \<Longrightarrow>
   RunWorkflow reg record (leases, e) =
     (fst (run_leased entry record e), leases, snd (run_leased entry record e))"
  by (simp add: RunWorkflow_def Acquire_def Release_def case_prod_unfold Let_def)

lemma RunWorkflow_unknown:
  "reg (wr_Type record) = None \<Longrightarrow>
   RunWorkflow reg record (leases, e) = (Inl (DefinitionNotFoundError (wr_Type record)), leases, e)"
  by (simp add: RunWorkflow_def)

subsection \<open>Backoff\<close>

lemma sint_push_bit:
  fixes w :: duration
  assumes "- (2 ^ 63) \<le> sint w * 2 ^ n" and "sint w * 2 ^ n < 2 ^ 63"
  shows "sint (push_bit n w) = sint w * 2 ^ n"
proof -
  have wide: "sint (word_of_int x :: duration) = signed_take_bit 63 x" for x
    by (simp add: signed_of_int)
  have "push_bit n w = word_of_int (sint w * 2 ^ n)"
    by (simp add: push_bit_eq_mult)
  then have "sint (push_bit n w) = signed_take_bit 63 (sint w * 2 ^ n)"
    by (simp only: wide)
  also have "\<dots> = sint w * 2 ^ n"
    using assms by (intro signed_take_bit_int_eq_self) simp_all
  finally show ?thesis .
qed

lemma retry_delay_no_overflow:
  assumes "0 \<le> sint (BaseDelay p)" and "sint (BaseDelay p) * 2 ^ nat attempts < 2 ^ 63"
  shows "sint (retry_delay p attempts) = min (sint (BaseDelay p) * 2 ^ nat attempts) (sint (MaxDelay p))"
proof -
  have "0 \<le> sint (BaseDelay p) * 2 ^ nat attempts" using assms(1) by simp
  then have "sint (push_bit (nat attempts) (BaseDelay p)) = sint (BaseDelay p) * 2 ^ nat attempts"
    using assms(2) by (intro sint_push_bit) linarith+
  then show ?thesis by (simp add: retry_delay_def Let_def min_def)
qed

subsection \<open>A run without faults\<close>

text \<open>User code that leaves the workflows table and the engine's clock alone.\<close>

definition contained :: "('a, 'w) act \<Rightarrow> bool" where
  "contained f \<longleftrightarrow> (\<forall>e. no_fault (the_store e) \<longrightarrow> wf_store (the_store e) \<longrightarrow>
     workflows (the_store (snd (f e))) = workflows (the_store e) \<and> no_fault (the_store (snd (f e))) \<and>
     wf_store (the_store (snd (f e))) \<and> engineNow (snd (f e)) = engineNow e)"

definition user_contained :: "'w registryEntry \<Rightarrow> bool" where
  "user_contained entry \<longleftrightarrow> (\<forall>wc payload. contained (d_execute (re_def entry) wc payload))"

text \<open>Every retry time the policy can give is a time the text format can express.\<close>

definition clock_in_range :: "'w env \<Rightarrow> RetryPolicy \<Rightarrow> bool" where
  "clock_in_range e p \<longleftrightarrow> (\<forall>k a. valid_time (add_time (engineNow e k) (retry_delay p a)))"

definition healthy :: "'w env \<Rightarrow> bool" where
  "healthy e \<longleftrightarrow> no_fault (the_store e) \<and> wf_store (the_store e)"

lemma sort_key_filter_ok:
  assumes "\<And>r. r \<in> set rows \<Longrightarrow> \<exists>a. f r = Inr a"
  shows "\<exists>as. scan_all f (sort_key key (filter p rows)) = Inr as"
  by (rule scan_all_ok) (use assms in auto)

lemma ListStepResults_healthy:
  assumes "no_fault s" and "wf_store s"
  shows "\<exists>steps k. ListStepResults ty ver wid s = (Inr steps, s\<lparr>dbCalls := k\<rparr>)"
proof -
  have "\<exists>as. scan_all scanStepResult (sort_key s_created_at
      (filter (\<lambda>r. s_type r = ty \<and> s_version r = ver \<and> s_workflow_id r = wid) (step_results s))) = Inr as"
    by (rule sort_key_filter_ok) (use assms(2) scanStepResult_ok in \<open>auto simp: wf_store_def\<close>)
  then show ?thesis
    using assms(1) by (auto simp: ListStepResults_def db_call_no_fault)
qed

lemma Get_healthy:
  assumes "no_fault s" and "wf_store s" and "row_at c_id wid (workflows s) = Some r"
  shows "\<exists>w. Get wid s = (Inr w, s\<lparr>dbCalls := Suc (dbCalls s)\<rparr>) \<and> scanWorkflow r = Inr w"
proof -
  have "wf_workflow_row r" using assms(2) row_at_mem [OF assms(3)] by (simp add: wf_store_def)
  then obtain w where "scanWorkflow r = Inr w" using scanWorkflow_ok by blast
  with assms show ?thesis by (simp add: Get_def db_call_no_fault)
qed

lemma occ_apply_healthy:
  assumes "no_fault s" and "unique_ids s" and "row_at c_id wid (workflows s) = Some r" and "c_occ_version r = occ"
  shows "fst (occ_apply u wid occ s) = Inr ()"
    and "row_at c_id wid (workflows (snd (occ_apply u wid occ s))) = Some (occ_row u (nowFn s (nowCalls s)) r)"
    and "no_fault (snd (occ_apply u wid occ s))"
proof -
  show ok: "fst (occ_apply u wid occ s) = Inr ()"
    using sqlite_occ.takes [OF assms(2,1), of wid occ u] assms(3,4) by (simp add: occ_version_def)
  let ?f = "occ_row u (nowFn s (nowCalls s))"
  have "workflows (snd (occ_apply u wid occ s)) = snd (sql_update (occ_pred wid occ) ?f (workflows s))"
    using occ_exec_ok(1) [of "occ_ctx u" wid occ ?f "snd (now s)"] ok
    by (simp add: occ_apply_exec now_def)
  then show "row_at c_id wid (workflows (snd (occ_apply u wid occ s))) = Some (?f r)"
    using assms(3,4) row_at_key [OF assms(3)] by (simp add: row_at_sql_update occ_pred_def)
  show "no_fault (snd (occ_apply u wid occ s))"
    using assms(1) by (simp add: occ_apply_exec occ_exec_alt checkRowsAffected_def db_call_no_fault
        no_fault_def now_def)
qed

text \<open>
  The effect of a whole execution on the row: the decision on the answer of the user code, or on
  the cancellation, applied once.
\<close>

lemma contained_on_world: "contained (on_world f)"
  by (simp add: contained_def on_world_def case_prod_unfold Let_def)

definition occ_time_ok :: "occ_update \<Rightarrow> bool" where
  "occ_time_ok u = (case u of OccRetry t \<Rightarrow> valid_time t | OccSuspend t \<Rightarrow> valid_time t | _ \<Rightarrow> True)"

lemma occ_apply_wf: "wf_store s \<Longrightarrow> occ_time_ok u \<Longrightarrow> wf_store (snd (occ_apply u wid occ s))"
  by (cases u) (simp_all add: occ_time_ok_def tables_wf.UpdateStatus_keeps tables_wf.SetError_keeps
      tables_wf.SetRetry_keeps tables_wf.Suspend_keeps)

lemma run_leased_healthy:
  assumes "healthy e" and row: "row_at c_id (wr_ID record) (workflows (the_store e)) = Some r"
    and occ: "c_occ_version r = wr_OCCVersion record"
    and user: "user_contained entry"
  obtains wc e0 k t u where
    "good_time t"
    "fst (run_leased entry record e) = Inr ()"
    "u = decide (retryPolicy entry) (wr_Attempts record) (engineNow e k)
         (if c_signal r = SignalCancelRequested then Inl ErrCancelled
          else panicToError (fst (d_execute (re_def entry) wc (wr_Payload record) e0)))"
    "row_at c_id (wr_ID record) (workflows (the_store (snd (run_leased entry record e)))) = Some (occ_row u t r)"
    "occ_time_ok u \<longrightarrow> wf_store (the_store (snd (run_leased entry record e)))"
    "no_fault (the_store (snd (run_leased entry record e)))"
    "engineNow (snd (run_leased entry record e)) = engineNow e"
    "c_signal r = SignalCancelRequested \<longrightarrow> world (snd (run_leased entry record e)) = world e"
proof -
  let ?wid = "wr_ID record"
  have nf: "no_fault (the_store e)" and wf: "wf_store (the_store e)" using assms(1) by (simp_all add: healthy_def)
  obtain steps j where steps: "ListStepResults (wr_Type record) (wr_Version record) ?wid (the_store e) =
      (Inr steps, (the_store e)\<lparr>dbCalls := j\<rparr>)"
    using ListStepResults_healthy [OF nf wf] by blast
  define wc where "wc = new_context record (step_cache steps)"
  define e0 where "e0 = e\<lparr>seenSteps := {}, the_store := (the_store e)\<lparr>dbCalls := Suc j\<rparr>\<rparr>"
  have sig: "GetSignal ?wid ((the_store e)\<lparr>dbCalls := j\<rparr>) = (Inr (c_signal r), (the_store e)\<lparr>dbCalls := Suc j\<rparr>)"
    using nf row by (simp add: GetSignal_def db_call_no_fault)
  define x where "x = (if c_signal r = SignalCancelRequested then (Inl ErrCancelled, e0)
      else let (out, e) = d_execute (re_def entry) wc (wr_Payload record) e0 in (panicToError out, e))"
  have run: "run_leased entry record e = resolveOutcome record (retryPolicy entry) (wr_OCCVersion record) (fst x) (snd x)"
    by (simp add: run_leased_def on_store_def steps sig wc_def e0_def x_def case_prod_unfold Let_def)
  have e0: "no_fault (the_store e0)" "wf_store (the_store e0)" "workflows (the_store e0) = workflows (the_store e)"
    "engineNow e0 = engineNow e" "world e0 = world e"
    using nf wf by (simp_all add: e0_def)
  have x: "no_fault (the_store (snd x))" "wf_store (the_store (snd x))"
    "workflows (the_store (snd x)) = workflows (the_store e)" "engineNow (snd x) = engineNow e"
    using user [unfolded user_contained_def contained_def, rule_format, OF e0(1,2)] e0
    by (simp_all add: x_def case_prod_unfold Let_def)
  define u where "u = decide (retryPolicy entry) (wr_Attempts record) (engineNow e (engineNows (snd x))) (fst x)"
  define e1 where "e1 = (if is_retry u then snd (nowFunc (snd x)) else snd x)"
  have e1: "no_fault (the_store e1)" "wf_store (the_store e1)" "workflows (the_store e1) = workflows (the_store e)"
    "engineNow e1 = engineNow e" "world e1 = world (snd x)"
    using x by (simp_all add: e1_def)
  have run': "run_leased entry record e = on_store (occ_apply u ?wid (wr_OCCVersion record)) e1"
    unfolding run resolveOutcome_decides by (simp add: Let_def u_def e1_def x(4))
  have uniq: "unique_ids (the_store e1)" using e1(2) by (simp add: unique_ids_def wf_store_def)
  note occ_apply_healthy [OF e1(1) uniq _ occ, of ?wid u]
  then have app: "fst (occ_apply u ?wid (wr_OCCVersion record) (the_store e1)) = Inr ()"
    "row_at c_id ?wid (workflows (snd (occ_apply u ?wid (wr_OCCVersion record) (the_store e1)))) =
       Some (occ_row u (nowFn (the_store e1) (nowCalls (the_store e1))) r)"
    "no_fault (snd (occ_apply u ?wid (wr_OCCVersion record) (the_store e1)))"
    using row by (simp_all add: e1(3))
  show thesis
  proof (rule that [of "nowFn (the_store e1) (nowCalls (the_store e1))" u "engineNows (snd x)" wc e0])
    show "good_time (nowFn (the_store e1) (nowCalls (the_store e1)))"
      using e1(2) by (rule tables_wf.clock)
    have "fst x = (if c_signal r = SignalCancelRequested then Inl ErrCancelled
          else panicToError (fst (d_execute (re_def entry) wc (wr_Payload record) e0)))"
      by (simp add: x_def case_prod_unfold Let_def)
    then show "u = decide (retryPolicy entry) (wr_Attempts record) (engineNow e (engineNows (snd x)))
         (if c_signal r = SignalCancelRequested then Inl ErrCancelled
          else panicToError (fst (d_execute (re_def entry) wc (wr_Payload record) e0)))"
      by (simp add: u_def)
    show "occ_time_ok u \<longrightarrow> wf_store (the_store (snd (run_leased entry record e)))"
      using occ_apply_wf [OF e1(2)] by (simp add: run')
    show "c_signal r = SignalCancelRequested \<longrightarrow> world (snd (run_leased entry record e)) = world e"
      using e0(5) e1(5) by (simp add: run' x_def)
  qed (use app e1 in \<open>simp_all add: run'\<close>)
qed

subsection \<open>Retries end\<close>

definition transient :: "gerror \<Rightarrow> bool" where
  "transient err \<longleftrightarrow> \<not> as_cancelled err \<and> as_permanent err = None \<and> IsSuspend err = None"

text \<open>A workflow whose execution always fails with an error that asks for a retry.\<close>

definition always_transient :: "'w registryEntry \<Rightarrow> bool" where
  "always_transient entry \<longleftrightarrow>
     (\<forall>wc payload e. case panicToError (fst (d_execute (re_def entry) wc payload e)) of
        Inl err \<Rightarrow> transient err | Inr _ \<Rightarrow> False)"

text \<open>One round: the workflow as the store has it, executed if it is pending.\<close>

definition execute_round :: "'w registry \<Rightarrow> string \<Rightarrow> memory_leases \<times> 'w env \<Rightarrow> memory_leases \<times> 'w env" where
  "execute_round reg wid x =
     (case x of (leases, e) \<Rightarrow>
        case on_store (Get wid) e of
          (Inl err, e) \<Rightarrow> (leases, e)
        | (Inr record, e) \<Rightarrow>
            if wr_Status record = StatusPending then snd (RunWorkflow reg record (leases, e)) else (leases, e))"

definition the_row :: "string \<Rightarrow> 'w env \<Rightarrow> workflow_row option" where
  "the_row wid e = row_at c_id wid (workflows (the_store e))"

lemma execute_round_transient:
  assumes "healthy e" and "the_row wid e = Some r" and "c_status r = StatusPending"
    and "c_signal r \<noteq> SignalCancelRequested" and "reg (c_type r) = Some entry" and "wid \<notin> leases"
    and user: "user_contained entry" "always_transient entry"
    and clock: "clock_in_range e (retryPolicy entry)"
  obtains e' r' where "execute_round reg wid (leases, e) = (leases, e')" "healthy e'" "the_row wid e' = Some r'"
    "engineNow e' = engineNow e" "c_type r' = c_type r" "c_signal r' = c_signal r"
    "if MaxAttempts (retryPolicy entry) \<le> c_attempts r + 1
     then c_status r' = StatusFailed \<and> c_attempts r' = c_attempts r
     else c_status r' = StatusPending \<and> c_attempts r' = c_attempts r + 1"
proof -
  have nf: "no_fault (the_store e)" and wf: "wf_store (the_store e)" using assms(1) by (simp_all add: healthy_def)
  have row: "row_at c_id wid (workflows (the_store e)) = Some r" using assms(2) by (simp add: the_row_def)
  obtain w where w: "Get wid (the_store e) = (Inr w, (the_store e)\<lparr>dbCalls := Suc (dbCalls (the_store e))\<rparr>)"
    "scanWorkflow r = Inr w"
    using Get_healthy [OF nf wf row] by blast
  note fields = scanWorkflow_fields [OF w(2)]
  have wid: "wr_ID w = wid" using fields(1) row_at_key [OF row] by simp
  define e0 where "e0 = e\<lparr>the_store := (the_store e)\<lparr>dbCalls := Suc (dbCalls (the_store e))\<rparr>\<rparr>"
  have e0: "healthy e0" "row_at c_id (wr_ID w) (workflows (the_store e0)) = Some r" "engineNow e0 = engineNow e"
    using nf wf row wid by (simp_all add: e0_def healthy_def)
  have occ: "c_occ_version r = wr_OCCVersion w" using fields(10) by simp
  obtain wc ea k t u where t: "good_time t" and ok: "fst (run_leased entry w e0) = Inr ()"
    and u: "u = decide (retryPolicy entry) (wr_Attempts w) (engineNow e0 k)
       (if c_signal r = SignalCancelRequested then Inl ErrCancelled
        else panicToError (fst (d_execute (re_def entry) wc (wr_Payload w) ea)))"
    and after: "row_at c_id (wr_ID w) (workflows (the_store (snd (run_leased entry w e0)))) = Some (occ_row u t r)"
    and keep: "occ_time_ok u \<longrightarrow> wf_store (the_store (snd (run_leased entry w e0)))"
    and nf': "no_fault (the_store (snd (run_leased entry w e0)))"
    and clock': "engineNow (snd (run_leased entry w e0)) = engineNow e0"
    and "c_signal r = SignalCancelRequested \<longrightarrow> world (snd (run_leased entry w e0)) = world e0"
    by (rule run_leased_healthy [OF e0(1,2) occ user(1)])
  obtain err where err: "panicToError (fst (d_execute (re_def entry) wc (wr_Payload w) ea)) = Inl err" "transient err"
    using user(2) [unfolded always_transient_def, rule_format, of wc "wr_Payload w" ea]
    by (cases "panicToError (fst (d_execute (re_def entry) wc (wr_Payload w) ea))") auto
  have u': "u = (if MaxAttempts (retryPolicy entry) \<le> c_attempts r + 1 then OccError StatusFailed (error_text err)
      else OccRetry (add_time (engineNow e k) (retry_delay (retryPolicy entry) (c_attempts r))))"
    using u assms(4) err fields(9) e0(3) by (simp add: decide_def transient_def)
  have "execute_round reg wid (leases, e) = (leases, snd (run_leased entry w e0))"
    using assms(3,5,6) fields(2,4) wid w(1) RunWorkflow_free [of reg w entry leases e0]
    by (simp add: execute_round_def on_store_def e0_def)
  moreover have "occ_time_ok u" using clock by (simp add: u' occ_time_ok_def clock_in_range_def)
  ultimately show thesis
    using that [of "snd (run_leased entry w e0)" "occ_row u t r"] keep nf' clock' e0(3) after wid u'
    by (simp add: healthy_def the_row_def)
qed

lemma execute_rounds_transient:
  assumes "healthy e" and "the_row wid e = Some r" and "c_status r = StatusPending"
    and "c_signal r \<noteq> SignalCancelRequested" and "reg (c_type r) = Some entry" and "wid \<notin> leases"
    and user: "user_contained entry" "always_transient entry"
    and clock: "clock_in_range e (retryPolicy entry)"
    and "MaxAttempts (retryPolicy entry) = c_attempts r + 1 + int n"
  shows "\<exists>e' r'. (execute_round reg wid ^^ Suc n) (leases, e) = (leases, e') \<and> the_row wid e' = Some r' \<and>
     c_status r' = StatusFailed \<and> c_attempts r' = c_attempts r + int n"
  using assms
proof (induction n arbitrary: e r)
  case 0
  obtain e' r' where "execute_round reg wid (leases, e) = (leases, e')" "the_row wid e' = Some r'"
    "if MaxAttempts (retryPolicy entry) \<le> c_attempts r + 1
     then c_status r' = StatusFailed \<and> c_attempts r' = c_attempts r
     else c_status r' = StatusPending \<and> c_attempts r' = c_attempts r + 1"
    by (rule execute_round_transient [of e wid r reg entry leases, OF 0(1-9)])
  with 0(10) show ?case by simp
next
  case (Suc n)
  obtain e1 r1 where one: "execute_round reg wid (leases, e) = (leases, e1)" "healthy e1" "the_row wid e1 = Some r1"
    "engineNow e1 = engineNow e" "c_type r1 = c_type r" "c_signal r1 = c_signal r"
    "if MaxAttempts (retryPolicy entry) \<le> c_attempts r + 1
     then c_status r1 = StatusFailed \<and> c_attempts r1 = c_attempts r
     else c_status r1 = StatusPending \<and> c_attempts r1 = c_attempts r + 1"
    by (rule execute_round_transient [of e wid r reg entry leases, OF Suc.prems(1-9)])
  have "\<exists>e' r'. (execute_round reg wid ^^ Suc n) (leases, e1) = (leases, e') \<and> the_row wid e' = Some r' \<and>
     c_status r' = StatusFailed \<and> c_attempts r' = c_attempts r1 + int n"
    by (rule Suc.IH [OF one(2,3)]) (use one Suc.prems in \<open>simp_all add: clock_in_range_def\<close>)
  then show ?case
    using one(1,7) Suc.prems(10) by (simp only: funpow_Suc_right [of "Suc n"] comp_apply) auto
qed

end
