(* ===== verification/Engine.thy ===== *)
theory Engine
  imports Runner
begin

section \<open>The engine and its handles\<close>

text \<open>
  \<^verbatim>\<open>registry.go\<close> (registration, submission, status and result of an instance), \<^verbatim>\<open>engine.go\<close>
  (\<open>register\<close>, \<open>Promote\<close>, \<open>TimeOutSubscriptions\<close>, \<open>SendEvent\<close>, \<open>RunOnce\<close>), \<^verbatim>\<open>trigger.go\<close> and the poll of
  \<^verbatim>\<open>scheduler.go\<close>. The engine owns the registry, the leases and the environment its workflows run
  in; options that only choose other implementations of the pool, the loggers and the telemetry are
  left out.
\<close>

record 'w engine =
  registry :: "'w registry"
  leases :: memory_leases
  workers :: int
  the_env :: "'w env"

definition default_engine :: "int \<Rightarrow> 'w env \<Rightarrow> 'w engine" where
  "default_engine n e = \<lparr>registry = Map.empty, leases = NewMemoryLeaseStore, workers = n, the_env = e\<rparr>"

definition on_env :: "('a, 'w) act \<Rightarrow> 'w engine \<Rightarrow> 'a \<times> 'w engine" where
  "on_env f g = (let (a, e) = f (the_env g) in (a, g\<lparr>the_env := e\<rparr>))"

subsection \<open>Registration\<close>

definition register :: "'w definition_iface \<Rightarrow> RetryPolicy \<Rightarrow> 'w engine \<Rightarrow> 'w engine" where
  "register d p g = g\<lparr>registry := (registry g)(d_name d \<mapsto> \<lparr>re_def = d, retryPolicy = p\<rparr>)\<rparr>"

definition Register :: "('r, 'resp, 'w) WorkflowDef \<Rightarrow> RetryPolicy list \<Rightarrow> 'w engine \<Rightarrow> 'w engine" where
  "Register d policy g = register (erase d) (case policy of [] \<Rightarrow> DefaultRetryPolicy | p # _ \<Rightarrow> p) g"

subsection \<open>Submission\<close>

type_synonym SubmitOption = "string \<Rightarrow> string"

definition WithID :: "string \<Rightarrow> SubmitOption" where
  "WithID wid = (\<lambda>_. wid)"

definition generateID :: "'w engine \<Rightarrow> string \<times> 'w engine" where
  "generateID = on_env idFunc"

definition submit_record :: "('r, 'resp, 'w) WorkflowDef \<Rightarrow> string \<Rightarrow> bytes \<Rightarrow> WorkflowRecord" where
  "submit_record d wid payload =
     \<lparr>wr_ID = wid, wr_Type = defName d, wr_Version = wd_version d, wr_Status = StatusPending,
      wr_Signal = SignalNone, wr_Payload = Some payload, wr_Result = None, wr_Error = '''',
      wr_RetryAfter = zeroTime, wr_Attempts = 0, wr_OCCVersion = 0, wr_CreatedAt = zeroTime,
      wr_UpdatedAt = zeroTime\<rparr>"

definition Submit :: "('r, 'resp, 'w) WorkflowDef \<Rightarrow> ('r \<Rightarrow> bytes res) \<Rightarrow> 'r \<Rightarrow> SubmitOption list \<Rightarrow>
    'w engine \<Rightarrow> string res \<times> 'w engine" where
  "Submit d marshalReq request opts g =
     (let cfg = fold (\<lambda>opt c. opt c) opts '''';
          (wid, g) = (if cfg = '''' then generateID g else (cfg, g))
      in case marshalReq request of
           Inl err \<Rightarrow> (Inl (WrapError ''marshal request'' err), g)
         | Inr payload \<Rightarrow>
             (case on_env (on_store (\<lambda>s. let (r, _, s) = Create (submit_record d wid payload) s in (r, s))) g of
                (Inl err, g) \<Rightarrow> (Inl (WrapError ''create workflow'' err), g)
              | (Inr _, g) \<Rightarrow> (Inr wid, g)))"

subsection \<open>Instances\<close>

text \<open>A handle without a lease store reports the durable status.\<close>

definition deriveStatus :: "string \<Rightarrow> memory_leases option \<Rightarrow> status \<Rightarrow> status res" where
  "deriveStatus wid ls durable =
     (case ls of
        None \<Rightarrow> Inr durable
      | Some l \<Rightarrow>
          if durable \<noteq> StatusPending then Inr durable
          else (case fst (IsHeld wid l) of
                  Inl err \<Rightarrow> Inl (WrapError ''check lease'' err)
                | Inr held \<Rightarrow> if held then Inr StatusRunning else Inr durable))"

definition get_record :: "string \<Rightarrow> 'w engine \<Rightarrow> WorkflowRecord res \<times> 'w engine" where
  "get_record wid g =
     (case on_env (on_store (Get wid)) g of
        (Inl err, g) \<Rightarrow> (Inl (WrapError ''get workflow'' err), g)
      | (Inr record, g) \<Rightarrow> (Inr record, g))"

definition Status :: "string \<Rightarrow> 'w engine \<Rightarrow> status res \<times> 'w engine" where
  "Status wid g =
     (case get_record wid g of
        (Inl err, g) \<Rightarrow> (Inl err, g)
      | (Inr record, g) \<Rightarrow> (deriveStatus wid (Some (leases g)) (wr_Status record), g))"

definition RawResult :: "string \<Rightarrow> 'w engine \<Rightarrow> bytes option res \<times> 'w engine" where
  "RawResult wid g =
     (case get_record wid g of
        (Inl err, g) \<Rightarrow> (Inl err, g)
      | (Inr record, g) \<Rightarrow> (Inr (wr_Result record), g))"

record 'resp WorkflowResult =
  res_ID :: string
  res_Type :: string
  res_Version :: string
  res_Status :: status
  res_Response :: 'resp
  res_Error :: string

text \<open>\<open>zero\<close> is the zero value of the response type.\<close>

definition Result :: "(bytes option \<Rightarrow> 'resp res) \<Rightarrow> 'resp \<Rightarrow> string \<Rightarrow> 'w engine \<Rightarrow>
    'resp WorkflowResult res \<times> 'w engine" where
  "Result unmarshalResp zero wid g =
     (case get_record wid g of
        (Inl err, g) \<Rightarrow> (Inl err, g)
      | (Inr record, g) \<Rightarrow>
          (case deriveStatus wid (Some (leases g)) (wr_Status record) of
             Inl err \<Rightarrow> (Inl err, g)
           | Inr status \<Rightarrow>
               let result = \<lparr>res_ID = wr_ID record, res_Type = wr_Type record,
                     res_Version = wr_Version record, res_Status = status,
                     res_Response = zero, res_Error = wr_Error record\<rparr>
               in if wr_Status record = StatusCompleted \<and> wr_Result record \<noteq> None \<and> wr_Result record \<noteq> Some []
                  then (case unmarshalResp (wr_Result record) of
                          Inl err \<Rightarrow> (Inl (WrapError ''unmarshal result'' err), g)
                        | Inr v \<Rightarrow> (Inr (result\<lparr>res_Response := v\<rparr>), g))
                  else (Inr result, g)))"

subsection \<open>Cycles\<close>

definition promote :: "'w env \<Rightarrow> int res \<times> 'w env" where
  "promote e = (let (t, e) = nowFunc e in on_store (PromoteSuspended t) e)"

definition timeOutSubscriptions :: "'w env \<Rightarrow> int res \<times> 'w env" where
  "timeOutSubscriptions e = (let (t, e) = nowFunc e in on_store (TimeOutSubscriptions t) e)"

definition Promote :: "'w engine \<Rightarrow> int res \<times> 'w engine" where
  "Promote = on_env promote"

definition EngineTimeOut :: "'w engine \<Rightarrow> int res \<times> 'w engine" where
  "EngineTimeOut = on_env timeOutSubscriptions"

definition SendEvent :: "('p \<Rightarrow> bytes res) \<Rightarrow> string \<Rightarrow> 'p \<Rightarrow> 'w engine \<Rightarrow> unit res \<times> 'w engine" where
  "SendEvent marshalPayload key payload g =
     (case marshalPayload payload of
        Inl err \<Rightarrow> (Inl (WrapError ''marshal event payload'' err), g)
      | Inr data \<Rightarrow>
          (case on_env (on_store (ResumeSubscription key (Some data))) g of
             (Inl err, g) \<Rightarrow> (Inl (WrapError ''resume subscription'' err), g)
           | (Inr _, g) \<Rightarrow> (Inr (), g)))"

definition run_record :: "WorkflowRecord \<Rightarrow> 'w engine \<Rightarrow> unit res \<times> 'w engine" where
  "run_record record g =
     (let (r, l, e) = RunWorkflow (registry g) record (leases g, the_env g)
      in (r, g\<lparr>leases := l, the_env := e\<rparr>))"

text \<open>The loop of \<open>RunOnce\<close>: every record runs, the first error is kept.\<close>

fun run_records :: "WorkflowRecord list \<Rightarrow> gerror option \<Rightarrow> 'w engine \<Rightarrow> gerror option \<times> 'w engine" where
  "run_records [] firstErr g = (firstErr, g)"
| "run_records (record # records) firstErr g =
     (case run_record record g of
        (Inr _, g) \<Rightarrow> run_records records firstErr g
      | (Inl err, g) \<Rightarrow> run_records records
          (case firstErr of None \<Rightarrow> Some (WorkflowExecutionError (wr_ID record) err) | Some f \<Rightarrow> Some f) g)"

definition RunOnce :: "'w engine \<Rightarrow> unit res \<times> 'w engine" where
  "RunOnce g =
     (case on_env (on_store (ListSchedulable (workers g))) g of
        (Inl err, g) \<Rightarrow> (Inl (WrapError ''list schedulable'' err), g)
      | (Inr records, g) \<Rightarrow>
          (case run_records records None g of
             (None, g) \<Rightarrow> (Inr (), g)
           | (Some err, g) \<Rightarrow> (Inl err, g)))"

text \<open>One poll of the scheduler: what it hands to \<open>dispatch\<close> (nothing when the query fails).\<close>

definition poll :: "int \<Rightarrow> store \<Rightarrow> WorkflowRecord list \<times> store" where
  "poll limit s =
     (case ListSchedulable limit s of
        (Inl err, s) \<Rightarrow> ([], s)
      | (Inr records, s) \<Rightarrow> (records, s))"

text \<open>One tick of \<open>PollingTimePromoter\<close>: both cycles, and whether the scheduler is nudged.\<close>

definition promoter_tick :: "'w env \<Rightarrow> bool \<times> 'w env" where
  "promoter_tick e =
     (let (promoted, e) = promote e; (timedOut, e) = timeOutSubscriptions e;
          count = (\<lambda>r. case r of Inl _ \<Rightarrow> 0 | Inr n \<Rightarrow> n)
      in (count promoted > 0 \<or> count timedOut > 0, e))"

subsection \<open>Facts\<close>

lemma run_record_leases: "leases (snd (run_record record g)) = leases g"
  using RunWorkflow_leases [of "registry g" "record" "leases g" "the_env g"]
  by (simp add: run_record_def case_prod_unfold Let_def)

lemma run_records_leases: "leases (snd (run_records records firstErr g)) = leases g"
proof (induction records firstErr g rule: run_records.induct)
  case (2 rc records firstErr g)
  then show ?case
    using run_record_leases [of rc g] by (auto split: prod.splits sum.splits)
qed simp

lemma on_env_fields [simp]:
  "leases (snd (on_env f g)) = leases g" "registry (snd (on_env f g)) = registry g"
  "fst (on_env f g) = fst (f (the_env g))" "the_env (snd (on_env f g)) = snd (f (the_env g))"
  by (simp_all add: on_env_def case_prod_unfold Let_def)

lemma RunOnce_leases: "leases (snd (RunOnce g)) = leases g"
proof -
  define x where "x = on_env (on_store (ListSchedulable (workers g))) g"
  have x: "leases (snd x) = leases g" by (simp add: x_def)
  have "RunOnce g = (case fst x of
        Inl err \<Rightarrow> (Inl (WrapError ''list schedulable'' err), snd x)
      | Inr recs \<Rightarrow> (case fst (run_records recs None (snd x)) of
             None \<Rightarrow> (Inr (), snd (run_records recs None (snd x)))
           | Some err \<Rightarrow> (Inl err, snd (run_records recs None (snd x)))))"
    unfolding RunOnce_def x_def case_prod_unfold by (rule refl)
  then show ?thesis
    using run_records_leases [of _ None "snd x"] x by (simp split: sum.splits option.splits)
qed

text \<open>\<open>run_records\<close> keeps the first error and runs all.\<close>

lemma run_records_first:
  "fst (run_records records (Some err) g) = Some err"
proof (induction records arbitrary: g)
  case Nil
  then show ?case by simp
next
  case (Cons a records)
  then show ?case by (auto split: prod.splits sum.splits)
qed

end
