(* ===== verification/System.thy ===== *)
theory System
  imports Engine
begin

section \<open>The running system\<close>

text \<open>
  \<open>Engine.Start\<close> with its scheduler, worker pool, promoter and clients, as a step relation: whatever
  the goroutines interleave, the store changes by one atomic call at a time. A record goes from the
  scheduler's poll into the pool's queue, a worker takes any queued record, acquires its lease or
  drops it, its workflow makes store calls of its own, and the execution ends with the decision of
  \<open>resolveOutcome\<close> and the release of the lease. Between any two steps other workers, the promoter,
  event senders, signals and submissions may act; the driver may fail at any call; the process may
  restart, which loses the leases, the queue and the executions in flight and keeps the store.
\<close>

record sys =
  db :: store
  held :: memory_leases
  queue :: "WorkflowRecord list"
  running :: "WorkflowRecord list"

text \<open>The store calls an execution makes for the steps of its own workflow.\<close>

fun body_call :: "WorkflowRecord \<Rightarrow> store_call \<Rightarrow> bool" where
  "body_call record (CallSaveStepResult r) = (sr_WorkflowID r = wr_ID record)"
| "body_call record (CallSaveSubscription b) = (sub_WorkflowID b = wr_ID record)"
| "body_call record (CallGetStepResult ty ver wid name) = (wid = wr_ID record)"
| "body_call record (CallListStepResults ty ver wid) = (wid = wr_ID record)"
| "body_call record (CallGetSignal wid) = (wid = wr_ID record)"
| "body_call record _ = False"

text \<open>The store calls of the promoter and of clients.\<close>

fun outside_call :: "store_call \<Rightarrow> bool" where
  "outside_call (CallCreate r) = (wr_Status r = StatusPending \<or> wr_Status r = '''')"
| "outside_call (CallPromoteSuspended t) = True"
| "outside_call (CallTimeOutSubscriptions t) = True"
| "outside_call (CallResumeSubscription key payload) = True"
| "outside_call (CallSetSignal wid sig) = True"
| "outside_call (CallGet wid) = True"
| "outside_call _ = False"

inductive sys_step :: "sys \<Rightarrow> sys \<Rightarrow> bool" where
  client: "outside_call c \<Longrightarrow> call_ok c \<Longrightarrow> sys_step x (x\<lparr>db := exec_call c (db x)\<rparr>)"
| polled: "poll limit (db x) = (records, s) \<Longrightarrow> sys_step x (x\<lparr>db := s, queue := queue x @ records\<rparr>)"
| start: "queue x = q1 @ record # q2 \<Longrightarrow> Acquire (wr_ID record) (held x) = (Inr True, l) \<Longrightarrow>
    sys_step x (x\<lparr>queue := q1 @ q2, held := l, running := running x @ [record]\<rparr>)"
| skip: "queue x = q1 @ record # q2 \<Longrightarrow> Acquire (wr_ID record) (held x) = (Inr False, l) \<Longrightarrow>
    sys_step x (x\<lparr>queue := q1 @ q2, held := l\<rparr>)"
| body: "record \<in> set (running x) \<Longrightarrow> body_call record c \<Longrightarrow> call_ok c \<Longrightarrow>
    sys_step x (x\<lparr>db := exec_call c (db x)\<rparr>)"
| finish: "running x = r1 @ record # r2 \<Longrightarrow> u = decide p (wr_Attempts record) t answer \<Longrightarrow> occ_time_ok u \<Longrightarrow>
    sys_step x (x\<lparr>db := snd (occ_apply u (wr_ID record) (wr_OCCVersion record) (db x)),
      held := snd (Release (wr_ID record) (held x)), running := r1 @ r2\<rparr>)"
| abandon: "running x = r1 @ record # r2 \<Longrightarrow>
    sys_step x (x\<lparr>held := snd (Release (wr_ID record) (held x)), running := r1 @ r2\<rparr>)"
| restart: "sys_step x (x\<lparr>held := NewMemoryLeaseStore, queue := [], running := []\<rparr>)"

inductive_cases sys_stepE: "sys_step x x'"

definition sys_init :: "store \<Rightarrow> sys" where
  "sys_init s = \<lparr>db = s, held = NewMemoryLeaseStore, queue = [], running = []\<rparr>"

text \<open>
  What the record a worker holds has to do with the row now: the row is at least as new, and if it
  has not moved on, it is pending as it was when it was listed.
\<close>

definition snapshot :: "store \<Rightarrow> WorkflowRecord \<Rightarrow> bool" where
  "snapshot s record \<longleftrightarrow> (\<exists>r. row_at c_id (wr_ID record) (workflows s) = Some r \<and>
     wr_OCCVersion record \<le> c_occ_version r \<and>
     (c_occ_version r = wr_OCCVersion record \<longrightarrow> c_status r = StatusPending \<and> c_attempts r = wr_Attempts record))"

definition sys_inv :: "sys \<Rightarrow> bool" where
  "sys_inv x \<longleftrightarrow> wf_store (db x) \<and> held x = wr_ID ` set (running x) \<and> distinct (map wr_ID (running x)) \<and>
     (\<forall>record \<in> set (queue x) \<union> set (running x). snapshot (db x) record)"

lemma snapshot_evolves:
  assumes "snapshot s rc" and "store_evolves s s'"
  shows "snapshot s' rc"
proof -
  obtain r where r: "row_at c_id (wr_ID rc) (workflows s) = Some r" "wr_OCCVersion rc \<le> c_occ_version r"
    "c_occ_version r = wr_OCCVersion rc \<longrightarrow> c_status r = StatusPending \<and> c_attempts r = wr_Attempts rc"
    using assms(1) by (auto simp: snapshot_def)
  obtain r' where "row_at c_id (wr_ID rc) (workflows s') = Some r'" "row_evolves r r'"
    using store_evolves_workflow [OF assms(2) r(1)] by blast
  with r(2,3) show ?thesis by (auto simp: snapshot_def row_evolves_def)
qed

lemma listed_row:
  assumes "ListSchedulable limit s = (Inr rcs, s')" and "rc \<in> set rcs"
  obtains r t where "r \<in> set (workflows s)" "schedulable t r" "scanWorkflow r = Inr rc" "t = fst (now s)"
proof -
  have "scan_all scanWorkflow (sql_limit limit (sort_key c_created_at
      (filter (schedulable (fst (now s))) (workflows s)))) = Inr rcs"
    using assms(1)
    by (auto simp: ListSchedulable_def case_prod_unfold Let_def dest!: db_call_okD split: sum.splits)
  from scan_all_mem [OF this assms(2)] obtain r where
    "r \<in> set (sql_limit limit (sort_key c_created_at (filter (schedulable (fst (now s))) (workflows s))))"
    "scanWorkflow r = Inr rc" by blast
  then show thesis
    using sql_limit_subset by (intro that [of r "fst (now s)"]) fastforce+
qed

lemma listed_snapshot:
  assumes "ListSchedulable limit s = (Inr rcs, s')" and "rc \<in> set rcs" and "wf_store s"
  shows "snapshot s rc"
proof -
  obtain r t where r: "r \<in> set (workflows s)" "schedulable t r" "scanWorkflow r = Inr rc"
    using assms(1,2) by (rule listed_row)
  have "row_at c_id (c_id r) (workflows s) = Some r"
    using assms(3) r(1) by (intro row_at_distinct) (simp_all add: wf_store_def)
  with r(2) scanWorkflow_fields [OF r(3)] show ?thesis by (auto simp: snapshot_def schedulable_def)
qed

lemma poll_cases:
  assumes "poll limit s = (rcs, s')" and "wf_store s"
  shows "wf_store s' \<and> store_evolves s s' \<and> frozen s s' \<and> (\<forall>rc \<in> set rcs. snapshot s rc)"
proof -
  have "s' = snd (ListSchedulable limit s)"
    using assms(1) by (auto simp: poll_def split: prod.splits sum.splits)
  moreover have "\<forall>rc \<in> set rcs. snapshot s rc"
    using assms(1) listed_snapshot [OF _ _ assms(2)] by (fastforce simp: poll_def split: prod.splits sum.splits)
  ultimately show ?thesis
    using history.lists_keep(1) [of s s limit] ended.lists_keep(1) [of s s limit] assms(2) by simp
qed

text \<open>All but the versioned updates leave a finished workflow as it ended.\<close>

lemma calm_call:
  assumes "wf_store s" and "call_ok c" and "outside_call c \<or> body_call rc c"
  shows "frozen s (exec_call c s)"
proof -
  have s: "wf_store s \<and> frozen s s" using assms(1) by simp
  have "wf_store (exec_call c s) \<and> frozen s (exec_call c s)"
    using assms(3,2)
    by (cases c; simp only: exec_call.simps call_ok.simps outside_call.simps body_call.simps simp_thms)
      (rule ended.calm_keeps [OF s]; (assumption | erule conjunct1 conjunct2)?)+
  then show ?thesis ..
qed

lemma occ_apply_keeps:
  assumes "wf_store s" and "occ_time_ok u"
  shows "wf_store (snd (occ_apply u wid occ s)) \<and> store_evolves s (snd (occ_apply u wid occ s))"
proof -
  have s: "wf_store s \<and> store_evolves s s" using assms(1) by simp
  show ?thesis
    by (insert assms(2), cases u, simp_all only: occ_apply.simps occ_time_ok_def occ_update.case)
      (rule history.op_keeps [OF s]; assumption?)+
qed

lemma finish_frozen:
  assumes "snapshot s rc" and "wf_store s"
  shows "frozen s (snd (occ_apply u (wr_ID rc) (wr_OCCVersion rc) s))"
proof -
  let ?p = "occ_pred (wr_ID rc) (wr_OCCVersion rc)" and ?f = "occ_row u (fst (now s))"
  have live: "\<not> terminal (c_status r)" if "r \<in> set (workflows s)" "?p r" for r
  proof -
    have "row_at c_id (c_id r) (workflows s) = Some r"
      using assms(2) that(1) by (intro row_at_distinct) (simp_all add: wf_store_def)
    with assms(1) that(2) show ?thesis by (auto simp: snapshot_def occ_pred_def)
  qed
  have "workflows (snd (occ_apply u (wr_ID rc) (wr_OCCVersion rc) s)) = workflows s \<or>
      workflows (snd (occ_apply u (wr_ID rc) (wr_OCCVersion rc) s)) = snd (sql_update ?p ?f (workflows s))"
    using occ_exec_tables [of "occ_ctx u" "wr_ID rc" "wr_OCCVersion rc" ?f "snd (now s)"]
    by (simp add: occ_apply_exec)
  then show ?thesis
  proof
    assume "workflows (snd (occ_apply u (wr_ID rc) (wr_OCCVersion rc) s)) = workflows s"
    then show ?thesis by (simp add: frozen_def)
  next
    assume "workflows (snd (occ_apply u (wr_ID rc) (wr_OCCVersion rc) s)) = snd (sql_update ?p ?f (workflows s))"
    then show ?thesis using live by (intro frozen_change [of ?p ?f]) auto
  qed
qed

subsection \<open>One step\<close>

lemma calm_call_keeps:
  assumes "wf_store s" and "call_ok c"
  shows "wf_store (exec_call c s)" and "store_evolves s (exec_call c s)"
  using exec_call_keeps [of s s c] assms by simp_all

lemma sys_step_db:
  assumes "sys_step x x'" and "sys_inv x"
  shows "wf_store (db x') \<and> store_evolves (db x) (db x') \<and> frozen (db x) (db x')"
  using assms(1)
proof cases
  case (client c)
  with assms(2) calm_call_keeps [of "db x" c] calm_call [of "db x" c] show ?thesis by (simp add: sys_inv_def)
next
  case (polled limit rcs s)
  with assms(2) poll_cases [OF polled(2)] show ?thesis by (simp add: sys_inv_def)
next
  case (body rc c)
  with assms(2) calm_call_keeps [of "db x" c] calm_call [of "db x" c rc] show ?thesis by (simp add: sys_inv_def)
next
  case (finish r1 rc r2 u p t answer)
  have "snapshot (db x) rc" "wf_store (db x)" using assms(2) finish(2) by (simp_all add: sys_inv_def)
  with finish(1) occ_apply_keeps [OF _ finish(4), of "db x" "wr_ID rc" "wr_OCCVersion rc"]
    finish_frozen [of "db x" rc u] show ?thesis by simp
qed (use assms(2) in \<open>simp_all add: sys_inv_def\<close>)

lemma sys_step_records:
  assumes "sys_step x x'" and "sys_inv x"
  shows "\<forall>rc \<in> set (queue x') \<union> set (running x'). snapshot (db x) rc"
  using assms(1)
proof cases
  case (polled limit rcs s)
  have "wf_store (db x)" using assms(2) by (simp add: sys_inv_def)
  from poll_cases [OF polled(2) this] polled(1) assms(2) show ?thesis by (auto simp: sys_inv_def)
qed (use assms(2) in \<open>auto simp: sys_inv_def\<close>)

lemma remove_one_key:
  "distinct (map f (as @ a # bs)) \<Longrightarrow>
   f ` set (as @ a # bs) - {f a} = f ` set (as @ bs) \<and> distinct (map f (as @ bs))"
  by (auto simp: image_iff)

lemma sys_step_leases:
  assumes "sys_step x x'" and "sys_inv x"
  shows "held x' = wr_ID ` set (running x') \<and> distinct (map wr_ID (running x'))"
  using assms(1)
proof cases
  case (start q1 rc q2 l)
  then have "wr_ID rc \<notin> held x" "l = insert (wr_ID rc) (held x)"
    by (simp_all add: Acquire_def split: if_splits)
  with start(1) assms(2) show ?thesis by (auto simp: sys_inv_def)
next
  case (skip q1 rc q2 l)
  with assms(2) show ?thesis by (auto simp: sys_inv_def Acquire_def split: if_splits)
next
  case (finish r1 rc r2 u p t answer)
  with assms(2) remove_one_key [of wr_ID r1 rc r2] show ?thesis by (simp add: sys_inv_def Release_def)
next
  case (abandon r1 rc r2)
  with assms(2) remove_one_key [of wr_ID r1 rc r2] show ?thesis by (simp add: sys_inv_def Release_def)
qed (use assms(2) in \<open>auto simp: sys_inv_def NewMemoryLeaseStore_def\<close>)

lemma sys_step_inv:
  assumes "sys_step x x'" and "sys_inv x"
  shows "sys_inv x'"
  using sys_step_db [OF assms] sys_step_records [OF assms] sys_step_leases [OF assms] snapshot_evolves
  by (auto simp: sys_inv_def)

lemma sys_init_inv: "wf_store s \<Longrightarrow> sys_inv (sys_init s)"
  by (simp add: sys_inv_def sys_init_def NewMemoryLeaseStore_def)

subsection \<open>Executions\<close>

lemma sys_steps:
  assumes "sys_step\<^sup>*\<^sup>* x x'" and "sys_inv x"
  shows "sys_inv x' \<and> store_evolves (db x) (db x') \<and> frozen (db x) (db x')"
  using assms(1)
proof (induction rule: rtranclp_induct)
  case base
  show ?case using assms(2) by simp
next
  case (step y z)
  then have inv: "sys_inv y" by simp
  from sys_step_inv [OF step(2) inv] sys_step_db [OF step(2) inv] step(3) show ?case
    using store_evolves_trans frozen_trans by blast
qed

end
