(* ===== verification/ParallelBranches.thy ===== *)
theory ParallelBranches
  imports Replay
begin

section \<open>Parallel branches\<close>

text \<open>
  \<^verbatim>\<open>parallel.go\<close>. The branches run as goroutines over the shared environment, so a branch is a
  process: a tree of atomic actions on the environment (a store call, a section under the mutex of
  \<open>trackStep\<close>, a call of user code), and \<open>Parallel\<close> runs the actions of the branches in the order a
  schedule gives, any schedule. \<open>Run\<close> is given as such a process and shown to be the \<open>Run\<close> of
  \<^verbatim>\<open>run.go\<close> when nothing interferes. What \<open>Parallel\<close> returns is computed from the errors of the
  branches alone.
\<close>

subsection \<open>Processes\<close>

datatype ('a, 'w) proc = Ret 'a | Act "'w env \<Rightarrow> ('a, 'w) proc \<times> 'w env"

primrec run_alone :: "('a, 'w) proc \<Rightarrow> 'w env \<Rightarrow> 'a \<times> 'w env" where
  "run_alone (Ret a) e = (a, e)"
| "run_alone (Act f) e = (case map_prod run_alone id (f e) of (g, e') \<Rightarrow> g e')"

primrec bind :: "('a, 'w) proc \<Rightarrow> ('a \<Rightarrow> ('b, 'w) proc) \<Rightarrow> ('b, 'w) proc" where
  "bind (Ret a) k = k a"
| "bind (Act f) k = Act (\<lambda>e. map_prod (\<lambda>p. bind p k) id (f e))"

text \<open>One atomic action.\<close>

definition act :: "('a, 'w) act \<Rightarrow> ('a, 'w) proc" where
  "act f = Act (\<lambda>e. let (a, e) = f e in (Ret a, e))"

lemma run_alone_act [simp]: "run_alone (act f) e = f e"
  by (simp add: act_def split: prod.splits)

lemma run_alone_bind [simp]:
  "run_alone (bind p k) e = (case run_alone p e of (a, e') \<Rightarrow> run_alone (k a) e')"
proof (induction p arbitrary: e)
  case (Ret a)
  then show ?case by simp
next
  case (Act f)
  have "run_alone (bind (fst (f e)) k) e' = (case run_alone (fst (f e)) e' of (a, e'') \<Rightarrow> run_alone (k a) e'')" for e'
    by (rule Act [of "f e"]) (simp_all add: Basic_BNFs.fsts.simps prod_eq_iff)
  then show ?case by (simp add: map_prod_def case_prod_unfold)
qed

subsection \<open>\<open>Run\<close> as a process\<close>

definition Run_proc :: "'v codec \<Rightarrow> wctx \<Rightarrow> string \<Rightarrow> ('v option go_outcome, 'w) act \<Rightarrow>
    ('v option res, 'w) proc" where
  "Run_proc cd wc name fn =
     (let stepName = resolveStepName wc name in
      bind (act (trackStep stepName)) (\<lambda>r. case r of Inl err \<Rightarrow> Ret (Inl err) | Inr _ \<Rightarrow>
      bind (act (on_store (GetSignal (wc_id wc)))) (\<lambda>r. case r of
        Inl err \<Rightarrow> Ret (Inl (WrapError (''check signal for step '' @ go_quote stepName) err))
      | Inr signal \<Rightarrow>
          if signal = SignalCancelRequested then Ret (Inl ErrCancelled)
          else bind (act (lookup_step wc stepName)) (\<lambda>r. case r of
                 Inl err \<Rightarrow> Ret (Inl err)
               | Inr (Some c) \<Rightarrow> Ret (cache_hit cd stepName c)
               | Inr None \<Rightarrow>
                   bind (act fn) (\<lambda>out. case panicToError out of
                     Inl err \<Rightarrow> Ret (Inl err)
                   | Inr result \<Rightarrow>
                       (case marshal cd result of
                          Inl err \<Rightarrow> Ret (Inl (WrapError (''marshal step '' @ go_quote stepName @ '' result'') err))
                        | Inr data \<Rightarrow>
                            bind (act (save_result wc stepName data)) (\<lambda>r. case r of
                              Inl err \<Rightarrow> Ret (Inl (WrapError (''save step '' @ go_quote stepName @ '' result'') err))
                            | Inr _ \<Rightarrow> Ret (Inr result))))))))"

lemma run_alone_Run_proc: "run_alone (Run_proc cd wc name fn) e = Run cd wc name fn e"
  unfolding Run_proc_def Run_def cache_miss_def Let_def
  by (auto split: prod.splits sum.splits option.splits)

subsection \<open>\<open>Parallel\<close>\<close>

record 'w branch =
  b_name :: string
  b_run :: "wctx \<Rightarrow> (unit go_outcome, 'w) proc"

text \<open>\<open>NewBranch\<close> panics on an empty name or a nil function.\<close>

definition NewBranch :: "string \<Rightarrow> (wctx \<Rightarrow> (unit go_outcome, 'w) proc) option \<Rightarrow> 'w branch go_outcome" where
  "NewBranch name run =
     (if name = '''' then Panicked ''flicker: branch name must not be empty'' ''''
      else case run of
             None \<Rightarrow> Panicked ''flicker: branch run function must not be nil'' ''''
           | Some f \<Rightarrow> Returned (Inr \<lparr>b_name = name, b_run = f\<rparr>))"

text \<open>The goroutine of one branch: its own scope, and panics turned into errors.\<close>

definition branch_proc :: "wctx \<Rightarrow> 'w branch \<Rightarrow> (unit res, 'w) proc" where
  "branch_proc wc b = bind (b_run b (Scope wc (b_name b))) (\<lambda>out. Ret (panicToError out))"

text \<open>The scheduler lets one process take its next action; it passes over one that has ended.\<close>

definition sched_step :: "nat \<Rightarrow> ('a, 'w) proc list \<times> 'w env \<Rightarrow> ('a, 'w) proc list \<times> 'w env" where
  "sched_step i x = (case x of (ps, e) \<Rightarrow>
     if i < length ps then (case ps ! i of Ret a \<Rightarrow> (ps, e) | Act f \<Rightarrow> (ps[i := fst (f e)], snd (f e)))
     else (ps, e))"

fun proc_result :: "('a, 'w) proc \<Rightarrow> 'a option" where
  "proc_result (Ret a) = Some a"
| "proc_result (Act f) = None"

text \<open>The two loops after \<open>wg.Wait()\<close>: the latest suspension and the first other error.\<close>

fun collect_errs :: "gerror option list \<Rightarrow> time option \<Rightarrow> gerror option \<Rightarrow> time option \<times> gerror option" where
  "collect_errs [] latest first = (latest, first)"
| "collect_errs (None # errs) latest first = collect_errs errs latest first"
| "collect_errs (Some err # errs) latest first =
     (case IsSuspend err of
        Some t \<Rightarrow> collect_errs errs (case latest of None \<Rightarrow> Some t | Some l \<Rightarrow> if l < t then Some t else Some l) first
      | None \<Rightarrow> collect_errs errs latest (case first of None \<Rightarrow> Some err | Some f \<Rightarrow> Some f))"

definition join_errors :: "gerror option list \<Rightarrow> unit res" where
  "join_errors errs =
     (case collect_errs errs None None of
        (_, Some err) \<Rightarrow> Inl err
      | (Some t, None) \<Rightarrow> Inl (SuspendError t)
      | (None, None) \<Rightarrow> Inr ())"

definition err_of :: "'a res \<Rightarrow> gerror option" where
  "err_of r = (case r of Inl e \<Rightarrow> Some e | Inr _ \<Rightarrow> None)"

text \<open>
  \<open>Parallel\<close> under a schedule: \<open>None\<close> as long as some branch has not ended, since \<open>wg.Wait()\<close> does not
  return before.
\<close>

definition Parallel :: "wctx \<Rightarrow> 'w branch list \<Rightarrow> nat list \<Rightarrow> 'w env \<Rightarrow> (unit res \<times> 'w env) option" where
  "Parallel wc branches sched e =
     (case fold sched_step sched (map (branch_proc wc) branches, e) of (ps, e') \<Rightarrow>
        (case those (map proc_result ps) of
           None \<Rightarrow> None
         | Some rs \<Rightarrow> Some (join_errors (map err_of rs), e')))"

subsection \<open>What \<open>Parallel\<close> returns\<close>

text \<open>The resume times and the other errors among the errors of the branches, in branch order.\<close>

definition suspensions :: "gerror option list \<Rightarrow> time list" where
  "suspensions errs = List.map_filter (\<lambda>x. case x of None \<Rightarrow> None | Some e \<Rightarrow> IsSuspend e) errs"

definition failures :: "gerror option list \<Rightarrow> gerror list" where
  "failures errs = List.map_filter
     (\<lambda>x. case x of None \<Rightarrow> None | Some e \<Rightarrow> if IsSuspend e = None then Some e else None) errs"

lemma suspensions_simps [simp]:
  "suspensions [] = []" "suspensions (None # errs) = suspensions errs"
  "suspensions (Some e # errs) = (case IsSuspend e of None \<Rightarrow> suspensions errs | Some t \<Rightarrow> t # suspensions errs)"
  by (simp_all add: suspensions_def List.map_filter_simps split: option.splits)

lemma failures_simps [simp]:
  "failures [] = []" "failures (None # errs) = failures errs"
  "failures (Some e # errs) = (if IsSuspend e = None then e # failures errs else failures errs)"
  by (simp_all add: failures_def List.map_filter_simps split: option.splits)

definition latest :: "time option \<Rightarrow> time list \<Rightarrow> time option" where
  "latest l ts = (case (l, ts) of (None, []) \<Rightarrow> None | (Some t, ts) \<Rightarrow> Some (foldl max t ts)
     | (None, t # ts) \<Rightarrow> Some (foldl max t ts))"

lemma collect_errs_eq:
  "collect_errs errs l f = (latest l (suspensions errs),
     case f of Some e \<Rightarrow> Some e | None \<Rightarrow> (case failures errs of [] \<Rightarrow> None | e # _ \<Rightarrow> Some e))"
proof (induction errs l f rule: collect_errs.induct)
  case (3 err errs l f)
  show ?case
  proof (cases "IsSuspend err")
    case None
    from 3(1) [OF None] None show ?thesis by (auto split: option.splits)
  next
    case (Some t)
    from 3(2) [OF Some] show ?thesis
      using Some by (auto simp: latest_def max_def split: option.splits list.splits if_splits)
  qed
qed (auto simp: latest_def split: option.splits)

lemma foldl_max: "foldl max t ts = Max (insert t (set (ts :: time list)))"
proof (induction ts arbitrary: t)
  case (Cons a ts)
  have "Max (insert (max t a) (set ts)) = Max (insert t (insert a (set ts)))"
    by (cases "ts = []") (auto simp: max.assoc)
  with Cons show ?case by simp
qed simp

lemma join_errors_eq:
  "join_errors errs =
     (case failures errs of e # _ \<Rightarrow> Inl e
      | [] \<Rightarrow> (case suspensions errs of [] \<Rightarrow> Inr () | t # ts \<Rightarrow> Inl (SuspendError (Max (set (t # ts))))))"
  by (auto simp: join_errors_def collect_errs_eq latest_def foldl_max split: list.splits)

subsection \<open>Every schedule can be completed\<close>

lemma run_to_end:
  "i < length ps \<Longrightarrow> \<exists>k. fold sched_step (replicate k i) (ps, e) =
     (ps[i := Ret (fst (run_alone (ps ! i) e))], snd (run_alone (ps ! i) e))"
proof (induction "ps ! i" arbitrary: ps e)
  case (Ret a)
  have "ps[i := Ret a] = ps" using Ret.hyps by (metis list_update_id)
  then show ?case by (intro exI [of _ 0]) (simp flip: Ret.hyps)
next
  case (Act f)
  let ?ps = "ps[i := fst (f e)]"
  have "\<exists>k. fold sched_step (replicate k i) (?ps, snd (f e)) =
     (?ps[i := Ret (fst (run_alone (?ps ! i) (snd (f e))))], snd (run_alone (?ps ! i) (snd (f e))))"
    by (rule Act.hyps(1) [of "f e"]) (use Act.prems in \<open>simp_all add: Basic_BNFs.fsts.simps prod_eq_iff\<close>)
  then obtain k where k: "fold sched_step (replicate k i) (?ps, snd (f e)) =
     (?ps[i := Ret (fst (run_alone (?ps ! i) (snd (f e))))], snd (run_alone (?ps ! i) (snd (f e))))" ..
  have first: "sched_step i (ps, e) = (?ps, snd (f e))"
    using Act.prems Act.hyps(2) [symmetric] by (simp add: sched_step_def)
  have "fold sched_step (replicate (Suc k) i) (ps, e) =
      fold sched_step (replicate k i) (?ps, snd (f e))"
    by (simp only: replicate.simps fold_simps first)
  then show ?case
    using k Act.prems Act.hyps(2) [symmetric]
    by (intro exI [of _ "Suc k"]) (simp add: case_prod_unfold)
qed

lemma run_from:
  "\<exists>sched. fold sched_step sched (map Ret done @ ps, e) =
     (map Ret (done @ fst (run_ops (map run_alone ps) e)), snd (run_ops (map run_alone ps) e))"
proof (induction ps arbitrary: "done" e)
  case Nil
  show ?case by (intro exI [of _ "[]"]) simp
next
  case (Cons p ps)
  let ?i = "length done" and ?all = "map Ret done @ p # ps"
  obtain k where k: "fold sched_step (replicate k ?i) (?all, e) =
     (?all[?i := Ret (fst (run_alone (?all ! ?i) e))], snd (run_alone (?all ! ?i) e))"
    using run_to_end [of ?i ?all e] by auto
  have nth: "?all ! ?i = p" "?all[?i := Ret (fst (run_alone p e))] = map Ret (done @ [fst (run_alone p e)]) @ ps"
    by (simp_all add: nth_append list_update_append)
  obtain sched where s: "fold sched_step sched (map Ret (done @ [fst (run_alone p e)]) @ ps, snd (run_alone p e)) =
     (map Ret ((done @ [fst (run_alone p e)]) @ fst (run_ops (map run_alone ps) (snd (run_alone p e)))),
      snd (run_ops (map run_alone ps) (snd (run_alone p e))))"
    using Cons.IH [of "done @ [fst (run_alone p e)]" "snd (run_alone p e)"] by blast
  show ?case
    by (intro exI [of _ "replicate k ?i @ sched"]) (use k s nth in simp)
qed

lemma those_results: "those (map proc_result (map Ret rs)) = Some rs"
  by (induction rs) simp_all

lemma all_returned:
  "those (map proc_result ps) = Some rs \<Longrightarrow> ps = map Ret rs"
proof (induction ps arbitrary: rs)
  case (Cons p ps)
  then show ?case by (cases p) auto
qed simp

end
