(* ===== verification/Examples.thy ===== *)
theory Examples
  imports System ParallelBranches
begin

section \<open>Concrete states\<close>

text \<open>
  The states the witnesses of the properties evaluate: a store with one workflow and clocks that
  stand still, a codec of decimal numbers, and a workflow with one step that counts how often it ran.
\<close>

definition noon :: time where
  "noon = 63713908800 * ns_per_sec"

lemma noon_good [simp]: "good_time noon" "valid_time noon"
  by (simp_all add: good_time_def valid_time_def noon_def zeroTime_def ns_per_sec_def)

definition row1 :: workflow_row where
  "row1 = \<lparr>c_id = ''w1'', c_type = ''count:v1'', c_version = ''v1'', c_status = StatusPending, c_signal = '''',
     c_payload = Some ''1'', c_result = None, c_error = '''', c_retry_after = '''', c_attempts = 0,
     c_occ_version = 1, c_created_at = formatTime noon, c_updated_at = formatTime noon\<rparr>"

definition store1 :: store where
  "store1 = \<lparr>workflows = [row1], step_results = [], subscriptions = [], nowFn = (\<lambda>_. noon), nowCalls = 0,
     dbFault = (\<lambda>_. None), dbCalls = 0, uniqueMsg = (\<lambda>c. ''UNIQUE constraint failed: '' @ c)\<rparr>"

lemma store1_fields [simp]:
  "workflows store1 = [row1]" "step_results store1 = []" "subscriptions store1 = []"
  "nowFn store1 n = noon" "dbFault store1 n = None" "no_fault store1"
  by (simp_all add: store1_def no_fault_def)

lemma row1_fields [simp]:
  "c_id row1 = ''w1''" "c_type row1 = ''count:v1''" "c_version row1 = ''v1''" "c_status row1 = StatusPending"
  "c_signal row1 = ''''" "c_attempts row1 = 0" "c_occ_version row1 = 1" "c_retry_after row1 = ''''"
  by (simp_all add: row1_def)

lemma wf_store1 [simp]: "wf_store store1"
  by (simp add: wf_store_def store1_def wf_workflow_row_def row1_def)

definition env1 :: "nat env" where
  "env1 = \<lparr>the_store = store1, seenSteps = {}, engineNow = (\<lambda>_. noon), engineNows = 0,
     engineID = (\<lambda>n. dec_nat n), engineIDs = 0, world = 0\<rparr>"

lemma env1_fields [simp]:
  "the_store env1 = store1" "seenSteps env1 = {}" "engineNow env1 n = noon" "engineNows env1 = 0" "world env1 = 0"
  by (simp_all add: env1_def)

definition num_codec :: "nat codec" where
  "num_codec = \<lparr>marshal = (\<lambda>v. case v of None \<Rightarrow> Inr ''null'' | Some n \<Rightarrow> Inr (dec_nat n)),
     unmarshal = (\<lambda>d. case d of None \<Rightarrow> Inl (ErrorString ''unexpected end of JSON input'')
       | Some x \<Rightarrow> if x = ''null'' then Inr 0 else Inr (dec_val x))\<rparr>"

lemma num_codec_round_trip [simp]: "round_trip num_codec"
proof -
  have "dec_nat n \<noteq> ''null''" for n
    using dec_nat_digits [of "CHR ''n''" n] by (auto simp: is_digit_def less_eq_char_def)
  then show ?thesis by (auto simp: round_trip_def num_codec_def)
qed

definition int_codec :: "time codec" where
  "int_codec = \<lparr>marshal = (\<lambda>v. case v of None \<Rightarrow> Inr ''null''
       | Some t \<Rightarrow> Inr (if t < 0 then ''-'' @ dec_nat (nat (- t)) else ''+'' @ dec_nat (nat t))),
     unmarshal = (\<lambda>d. case d of None \<Rightarrow> Inl (ErrorString ''unexpected end of JSON input'')
       | Some x \<Rightarrow> if x = ''null'' then Inr 0
                  else Inr (if hd x = CHR ''-'' then - int (dec_val (tl x)) else int (dec_val (tl x))))\<rparr>"

lemma int_codec_round_trip [simp]: "round_trip int_codec"
  by (auto simp: round_trip_def int_codec_def)

definition str_codec :: "string codec" where
  "str_codec = \<lparr>marshal = (\<lambda>v. case v of None \<Rightarrow> Inr ''null'' | Some s \<Rightarrow> Inr (''$'' @ s)),
     unmarshal = (\<lambda>d. case d of None \<Rightarrow> Inl (ErrorString ''unexpected end of JSON input'')
       | Some x \<Rightarrow> if x = ''null'' then Inr '''' else Inr (tl x))\<rparr>"

lemma str_codec_round_trip [simp]: "round_trip str_codec"
  by (auto simp: round_trip_def str_codec_def)

definition json1 :: "nat json" where
  "json1 = \<lparr>jv = num_codec, jt = int_codec, ji = str_codec\<rparr>"

definition wctx1 :: wctx where
  "wctx1 = \<lparr>wc_id = ''w1'', wc_wfType = ''count:v1'', wc_version = ''v1'', stepCache = Map.empty,
     prefix = '''', sleepCounter = 0, TimeProvider = NewTimeProvider, IDProvider = NewIDProvider\<rparr>"

lemma wctx1_fields [simp]:
  "wc_id wctx1 = ''w1''" "wc_wfType wctx1 = ''count:v1''" "wc_version wctx1 = ''v1''"
  "stepCache wctx1 n = None" "resolveStepName wctx1 name = name"
  by (simp_all add: wctx1_def resolveStepName_def)

lemma quiet1 [simp]: "quiet wctx1 env1"
  by (simp add: quiet_def SignalCancelRequested_def)

lemma cache1 [simp]: "cache_consistent wctx1 e"
  by (simp add: cache_consistent_def)

lemma clock1 [simp]: "good_clock env1"
  by (simp add: good_clock_def)

text \<open>The counting step, and a workflow of that one step.\<close>

definition count_step :: "nat \<Rightarrow> nat option go_outcome \<times> nat" where
  "count_step w = (Returned (Inr (Some (Suc w))), Suc w)"

definition prog1 :: "(nat, nat) wprog" where
  "prog1 = WRun ''count'' count_step
     (\<lambda>r. case r of Inl err \<Rightarrow> WReturn (Inl err) | Inr None \<Rightarrow> WReturn (Inr 0) | Inr (Some n) \<Rightarrow> WReturn (Inr n))"

lemma prog1_replayable [simp]: "replayable prog1"
  by (auto simp: prog1_def count_step_def fails_def split: option.splits)

lemma run1:
  "exec json1 prog1 wctx1 env1 =
     (Returned (Inr 1), env1\<lparr>seenSteps := {''count''}, engineNows := 1, world := 1,
        the_store := store1\<lparr>dbCalls := 3, step_results := [\<lparr>s_type = ''count:v1'', s_version = ''v1'',
          s_workflow_id = ''w1'', s_step_name = ''count'', s_result = Some ''1'', s_error = '''',
          s_created_at = formatTime noon\<rparr>]\<rparr>\<rparr>)"
  by (simp add: prog1_def Run_def trackStep_def on_store_def GetSignal_def db_call_def store1_def
      lookup_step_def GetStepResult_def cache_miss_def on_world_def count_step_def json1_def num_codec_def
      save_result_def nowFunc_def SaveStepResult_def replace_step_def step_row_of_def dec_nat_small
      SignalCancelRequested_def env1_def Let_def)

text \<open>The row of \<open>store1\<close> as a claim reads it.\<close>

definition record1 :: WorkflowRecord where
  "record1 = \<lparr>wr_ID = ''w1'', wr_Type = ''count:v1'', wr_Version = ''v1'', wr_Status = StatusPending, wr_Signal = '''',
     wr_Payload = Some ''1'', wr_Result = None, wr_Error = '''', wr_RetryAfter = zeroTime, wr_Attempts = 0,
     wr_OCCVersion = 1, wr_CreatedAt = noon, wr_UpdatedAt = noon\<rparr>"

lemma scan_row1: "scanWorkflow row1 = Inr record1"
proof -
  have "parse_column name '''' = Inr zeroTime" for name by (simp add: parse_column_def)
  then show ?thesis by (simp add: scanWorkflow_def row1_def parse_column_formatTime record1_def)
qed

lemma poll1: "poll 1 store1 = ([record1], store1\<lparr>nowCalls := 1, dbCalls := 2\<rparr>)"
  by (simp add: poll_def ListSchedulable_def now_def db_call_def store1_def schedulable_def sql_limit_def
      scan_row1)

end
