(* ===== verification/StoreTheorems.thy ===== *)
theory StoreTheorems
  imports Examples
begin

section \<open>Properties of the store\<close>

text \<open>
  The properties of the time columns, of the versioned updates, of the event subscriptions, of the
  scheduler's query and of the lease store, each with a witness on a concrete state where it has
  hypotheses.
\<close>

subsection \<open>Time columns\<close>

text \<open>C38: every instant from year 1 to 9999 that the store writes into a time column, the zero time
  included, is read back as exactly that instant.\<close>

theorem time_column_round_trip:
  "valid_time t \<Longrightarrow> parse_column name (formatTime t) = Inr t"
  by (rule parse_column_formatTime)

theorem time_column_round_trip_witness:
  "parse_column ''created_at'' (formatTime noon) = Inr noon"
  by (rule time_column_round_trip) simp

text \<open>The promotion query compares texts, and decides right up to one second: a suspended workflow
  it promotes is due less than a second from now, and one that has been due for a second is
  promoted.\<close>

theorem promotion_within_a_second:
  assumes "valid_time ra" and "ra \<noteq> zeroTime" and "valid_time t" and "t \<noteq> zeroTime"
    and "c_status r = StatusSuspended" and "c_retry_after r = formatTime ra"
  shows "(promotable t r \<longrightarrow> ra < t + ns_per_sec) \<and> (ra + ns_per_sec \<le> t \<longrightarrow> promotable t r)"
  using text_le_bound [of ra t] text_le_after_a_second [of ra t] assms
  by (auto simp: promotable_def formatTime_def rfc3339nano_def)

theorem promotion_within_a_second_witness:
  "promotable (noon + ns_per_sec) (row1\<lparr>c_status := StatusSuspended, c_retry_after := formatTime noon\<rparr>)"
  using promotion_within_a_second [of noon "noon + ns_per_sec"
      "row1\<lparr>c_status := StatusSuspended, c_retry_after := formatTime noon\<rparr>"]
  by (simp add: valid_time_def noon_def zeroTime_def ns_per_sec_def)

text \<open>With clocks that tick whole seconds the query is exact: a suspended workflow is promoted
  iff its resume time has come.\<close>

theorem promotion_exact_on_whole_seconds:
  assumes "valid_time ra" and "ra \<noteq> zeroTime" and "valid_time t" and "t \<noteq> zeroTime"
    and "nsec ra = 0" and "nsec t = 0"
    and "c_status r = StatusSuspended" and "c_retry_after r = formatTime ra"
  shows "promotable t r \<longleftrightarrow> ra \<le> t"
  using text_le_whole_seconds [of ra t] assms
  by (auto simp: promotable_def formatTime_def rfc3339nano_def)

theorem promotion_exact_on_whole_seconds_witness:
  "promotable noon (row1\<lparr>c_status := StatusSuspended, c_retry_after := formatTime noon\<rparr>)"
  using promotion_exact_on_whole_seconds [of noon noon
      "row1\<lparr>c_status := StatusSuspended, c_retry_after := formatTime noon\<rparr>"]
  by (simp add: nsec_def noon_def zeroTime_def ns_per_sec_def valid_time_def)

lemma frac_half: "frac 500000000 = ''.5''" and frac_nine: "frac 900000000 = ''.9''"
  by (simp_all add: frac_def appendInt_def strip_zeros_def dec_nat.simps Let_def)

lemma fraction_sorts_first: "stamp noon @ CHR ''.'' # x < stamp noon @ ''Z''"
  by (simp add: append_less_same_length less_char_def)

text \<open>Within one second the comparison of texts is not the comparison of instants: a workflow
  suspended until half a second past is promoted on the full second, and one due on the full
  second is not promoted nine tenths of a second later.\<close>

theorem promotion_wrong_within_a_second:
  "promotable noon (row1\<lparr>c_status := StatusSuspended, c_retry_after := formatTime (noon + 500000000)\<rparr>) \<and>
   \<not> promotable (noon + 900000000) (row1\<lparr>c_status := StatusSuspended, c_retry_after := formatTime noon\<rparr>)"
proof -
  have ns: "nsec noon = 0" "nsec (noon + 500000000) = 500000000" "nsec (noon + 900000000) = 900000000"
    by (simp_all add: nsec_def noon_def ns_per_sec_def)
  have st: "stamp (noon + 500000000) = stamp noon" "stamp (noon + 900000000) = stamp noon"
    by (rule stamp_same_second, simp add: noon_def ns_per_sec_def)+
  have nz: "noon \<noteq> zeroTime" "noon + 500000000 \<noteq> zeroTime" "noon + 900000000 \<noteq> zeroTime"
    by (simp_all add: noon_def zeroTime_def ns_per_sec_def)
  have "rfc3339nano (noon + 500000000) < rfc3339nano noon" "rfc3339nano (noon + 900000000) < rfc3339nano noon"
    using fraction_sorts_first by (simp_all add: rfc3339nano_def ns st frac_half frac_nine)
  with nz show ?thesis
    by (simp add: promotable_def formatTime_def rfc3339nano_def less_imp_le not_le)
qed

subsection \<open>Any sequence of calls\<close>

text \<open>C10: after any sequence of calls of the store's methods, failing ones and driver faults included,
  the keys of the three tables are unique and every time column reads back; no workflow disappears
  or changes its type, version, payload or creation time; its version and attempt counters only
  grow, and while the version is the same so are status, result, error, retry time and attempts;
  and no saved step result disappears.\<close>

theorem store_history:
  assumes "wf_store s" and "list_all call_ok calls"
  shows "wf_store (fold exec_call calls s) \<and> store_evolves s (fold exec_call calls s)"
  using exec_calls_keep [of s s calls] assms by simp

theorem store_history_witness:
  "wf_store (fold exec_call [CallSuspend ''w1'' noon 1, CallPromoteSuspended noon, CallSetSignal ''w1'' ''x''] store1)"
  using store_history [of store1 "[CallSuspend ''w1'' noon 1, CallPromoteSuspended noon, CallSetSignal ''w1'' ''x'']"]
  by simp

text \<open>A workflow record that was created reads back, as pending at version 1, and creating a second
  one with its id fails and changes no table.\<close>

theorem create_then_get:
  assumes "no_fault s" and "wf_store s" and "wr_Status r = StatusPending"
    and "valid_time (wr_RetryAfter r)" and "row_at c_id (wr_ID r) (workflows s) = None"
    and "Create r s = (res, r', s')"
  shows "res = Inr () \<and> fst (Get (wr_ID r) s') = Inr r' \<and>
    r' = r\<lparr>wr_CreatedAt := nowFn s (nowCalls s), wr_UpdatedAt := nowFn s (nowCalls s), wr_OCCVersion := 1\<rparr> \<and>
    (\<forall>r2. wr_ID r2 = wr_ID r \<longrightarrow> (\<exists>err. fst (Create r2 s') = Inl err) \<and>
       tables_of (snd (snd (Create r2 s'))) = tables_of s')"
proof -
  have res: "res = Inr ()" using Create_new [OF assms(1,5)] assms(6) by (metis fst_conv)
  note ok = Create_ok [OF assms(1-4) assms(6) [unfolded res]]
  have "fst (Get (wr_ID r) s') = Inr r'"
    using ok(2-4) by (simp add: Get_def db_call_no_fault)
  then show ?thesis
    using res ok(1) Create_taken [OF ok(4)] ok(2) by auto
qed

theorem create_then_get_witness:
  "fst (Get ''w2'' (snd (snd (Create (submit_record (Define ''n'' ''v'' (\<lambda>_. Inr ()) (\<lambda>_::unit. Inr ''{}'') (\<lambda>_ _ (e::nat env). (Returned (Inr ()), e))) ''w2'' ''1'') store1)))) =
   Inr (fst (snd (Create (submit_record (Define ''n'' ''v'' (\<lambda>_. Inr ()) (\<lambda>_::unit. Inr ''{}'') (\<lambda>_ _ (e::nat env). (Returned (Inr ()), e))) ''w2'' ''1'') store1)))"
  (is "fst (Get _ (snd (snd ?c))) = Inr (fst (snd ?c))")
proof -
  obtain res r' s' where c: "?c = (res, r', s')" by (cases ?c)
  show ?thesis
    unfolding c using create_then_get [OF _ _ _ _ _ c] by (simp add: submit_record_def)
qed

text \<open>A step result that is saved reads back as it was saved.\<close>

theorem step_result_round_trip:
  assumes "no_fault s" and "good_time (sr_CreatedAt r)"
  shows "fst (SaveStepResult r s) = Inr () \<and>
    fst (GetStepResult (sr_Type r) (sr_Version r) (sr_WorkflowID r) (sr_StepName r) (snd (SaveStepResult r s))) = Inr r"
proof -
  let ?row = "step_row_of r"
  have "row_at step_key (sr_Type r, sr_Version r, sr_WorkflowID r, sr_StepName r) (replace_step ?row rows) = Some ?row" for rows
    by (simp add: row_at_replace_step step_key_def step_row_of_def)
  with assms show ?thesis
    by (simp add: SaveStepResult_def GetStepResult_def db_call_no_fault scanStepResult_def step_row_of_def
        formatTime_def good_time_def parseTime_rfc3339nano)
qed

theorem step_result_round_trip_witness:
  "fst (GetStepResult ''t'' ''v'' ''w1'' ''s'' (snd (SaveStepResult \<lparr>sr_Type = ''t'', sr_Version = ''v'',
     sr_WorkflowID = ''w1'', sr_StepName = ''s'', sr_Result = Some ''1'', sr_Error = '''', sr_CreatedAt = noon\<rparr> store1))) =
   Inr \<lparr>sr_Type = ''t'', sr_Version = ''v'', sr_WorkflowID = ''w1'', sr_StepName = ''s'', sr_Result = Some ''1'',
     sr_Error = '''', sr_CreatedAt = noon\<rparr>"
  using step_result_round_trip [of store1 "\<lparr>sr_Type = ''t'', sr_Version = ''v'',
     sr_WorkflowID = ''w1'', sr_StepName = ''s'', sr_Result = Some ''1'', sr_Error = '''', sr_CreatedAt = noon\<rparr>"]
  by simp

subsection \<open>Versioned updates\<close>

text \<open>C9: of all the updates (status, error, retry, suspension) that rest on the same reading of a
  workflow, run in any order and among updates of other workflows and versions, driver faults
  included, at most one succeeds.\<close>

theorem one_update_wins:
  assumes "unique_ids s"
  shows "wins occ_apply wid v us s \<le> 1"
  using assms by (rule sqlite_occ.one_winner)

theorem one_update_wins_witness:
  "wins occ_apply ''w1'' 1 [(OccStatus StatusCompleted None, ''w1'', 1), (OccRetry noon, ''w1'', 1)] store1 \<le> 1"
  by (rule one_update_wins) (simp add: unique_ids_def)

text \<open>Without driver faults, when an update names the current version, exactly one of the updates of
  that version that are run from then on succeeds, namely the first.\<close>

theorem first_update_wins:
  assumes "unique_ids s" and "no_fault s" and "occ_version s wid = Some v"
  shows "fst (occ_apply u wid v s) = Inr () \<and> wins occ_apply wid v ((u, wid, v) # us) s = 1"
  using sqlite_occ.first_wins [OF assms] sqlite_occ.takes [OF assms] by simp

theorem first_update_wins_witness:
  "wins occ_apply ''w1'' 1 [(OccStatus StatusCompleted None, ''w1'', 1), (OccRetry noon, ''w1'', 1)] store1 = 1"
  using first_update_wins [of store1 "''w1''" 1 "OccStatus StatusCompleted None" "[(OccRetry noon, ''w1'', 1)]"]
  by (simp add: unique_ids_def occ_version_def)

text \<open>What an update does: with the current version it writes its columns, raises the version by one
  and stamps the update time; with any other version, or for an unknown workflow, it returns the
  conflict error and leaves every table as it was.\<close>

theorem update_effect:
  assumes "unique_ids s" and "no_fault s"
  shows "(\<forall>r. row_at c_id wid (workflows s) = Some r \<longrightarrow> c_occ_version r = v \<longrightarrow>
      fst (occ_apply u wid v s) = Inr () \<and>
      row_at c_id wid (workflows (snd (occ_apply u wid v s))) = Some (occ_row u (nowFn s (nowCalls s)) r)) \<and>
    (occ_version s wid \<noteq> Some v \<longrightarrow>
      fst (occ_apply u wid v s) = Inl OCCConflictError \<and> tables_of (snd (occ_apply u wid v s)) = tables_of s)"
proof (intro conjI allI impI)
  fix r
  assume "row_at c_id wid (workflows s) = Some r" and "c_occ_version r = v"
  from occ_apply_healthy [OF assms(2,1) this] show "fst (occ_apply u wid v s) = Inr ()"
    "row_at c_id wid (workflows (snd (occ_apply u wid v s))) = Some (occ_row u (nowFn s (nowCalls s)) r)" by simp_all
next
  assume stale: "occ_version s wid \<noteq> Some v"
  from occ_stale [OF assms stale] show "fst (occ_apply u wid v s) = Inl OCCConflictError"
    "tables_of (snd (occ_apply u wid v s)) = tables_of s" by simp_all
qed

theorem update_effect_witness:
  "fst (occ_apply (OccSuspend noon) ''w1'' 7 store1) = Inl OCCConflictError"
  using update_effect [of store1 "''w1''" 7 "OccSuspend noon"] by (simp add: unique_ids_def occ_version_def)

subsection \<open>Events\<close>

text \<open>The two transactions are all or nothing: when delivering an event or timing out subscriptions
  returns an error, whichever statement or the commit failed, all three tables are as before.\<close>

theorem transactions_roll_back:
  "(ResumeSubscription key payload s = (Inl err, s') \<longrightarrow> tables_of s' = tables_of s) \<and>
   (TimeOutSubscriptions t s = (Inl err, s') \<longrightarrow> tables_of s' = tables_of s)"
  unfolding ResumeSubscription_def TimeOutSubscriptions_def by (intro conjI impI; erule in_tx_error)

theorem transactions_roll_back_witness:
  "tables_of (snd (ResumeSubscription ''k'' None store1)) = tables_of store1"
  using transactions_roll_back [of "''k''" None store1 SubscriptionNotFoundError
      "snd (ResumeSubscription ''k'' None store1)" noon]
    ResumeSubscription_unknown [of "''k''" store1 None]
  by (simp add: prod_eq_iff)

text \<open>C12: delivering an event to a subscribed key succeeds when the driver does not fail. It stores the payload,
  with no error, as the result of the step that waits for it and leaves all other steps as they were; it
  wakes the suspended workflow of the subscription, which becomes pending with no retry time, the next version and
  the time of the second reading of the clock, so that the scheduler may take it from then on at any time, and no other workflow is touched;
  it removes this subscription and no other, so that a second delivery to the key finds none and
  the event is delivered once.\<close>

theorem event_delivered_once:
  assumes "no_fault s" and "row_at k_correlation_key key (subscriptions s) = Some b"
    and "ResumeSubscription key payload s = (r, s')"
  shows "r = Inr () \<and>
    row_at step_key (k_type b, k_version b, k_workflow_id b, k_step_name b) (step_results s') =
      Some \<lparr>s_type = k_type b, s_version = k_version b, s_workflow_id = k_workflow_id b, s_step_name = k_step_name b,
        s_result = payload, s_error = '''', s_created_at = formatTime (nowFn s (nowCalls s))\<rparr> \<and>
    (\<forall>k. k \<noteq> (k_type b, k_version b, k_workflow_id b, k_step_name b) \<longrightarrow>
       row_at step_key k (step_results s') = row_at step_key k (step_results s)) \<and>
    workflows s' = map (\<lambda>w. if c_id w = k_workflow_id b \<and> c_status w = StatusSuspended
      then w\<lparr>c_status := StatusPending, c_retry_after := '''', c_occ_version := c_occ_version w + 1,
             c_updated_at := formatTime (nowFn s (Suc (nowCalls s)))\<rparr> else w) (workflows s) \<and>
    (\<forall>w t. row_at c_id (k_workflow_id b) (workflows s) = Some w \<and> c_status w = StatusSuspended \<longrightarrow>
       (\<exists>w'. row_at c_id (k_workflow_id b) (workflows s') = Some w' \<and> schedulable t w')) \<and>
    (\<forall>k. k \<noteq> key \<longrightarrow> row_at k_correlation_key k (subscriptions s') = row_at k_correlation_key k (subscriptions s)) \<and>
    row_at k_correlation_key key (subscriptions s') = None \<and>
    (\<forall>s2 payload2. subscriptions s2 = subscriptions s' \<longrightarrow> no_fault s2 \<longrightarrow>
       fst (ResumeSubscription key payload2 s2) = Inl SubscriptionNotFoundError)"
proof -
  have r: "r = Inr ()" using ResumeSubscription_known [OF assms(2,1)] assms(3) by (metis fst_conv)
  from ResumeSubscription_ok [OF assms(3) [unfolded r]] assms(2) have ok:
    "step_results s' = replace_step (event_row b payload '''' (nowFn s (nowCalls s))) (step_results s)"
    "subscriptions s' = delete_sub key (subscriptions s)"
    "workflows s' = wake (k_workflow_id b) (nowFn s (Suc (nowCalls s))) (workflows s)"
    by auto
  have awake: "\<exists>w'. row_at c_id (k_workflow_id b) (workflows s') = Some w' \<and> schedulable t w'"
    if "row_at c_id (k_workflow_id b) (workflows s) = Some w" "c_status w = StatusSuspended" for w t
    using that row_at_key [OF that(1)] by (simp add: ok(3) row_at_wake schedulable_def)
  show ?thesis
    using awake by (simp add: r ok(1,2) ok(3) [unfolded wake_map woken_def] delete_sub_other ResumeSubscription_unknown
        row_at_replace_step step_key_def event_row_def)
qed

definition sub1 :: sub_row where
  "sub1 = \<lparr>k_correlation_key = ''k'', k_workflow_id = ''w1'', k_type = ''count:v1'', k_version = ''v1'',
     k_step_name = ''wait'', k_deadline = formatTime noon, k_created_at = formatTime noon\<rparr>"

lemma sub1_fields [simp]:
  "k_correlation_key sub1 = ''k''" "k_workflow_id sub1 = ''w1''" "k_type sub1 = ''count:v1''"
  "k_version sub1 = ''v1''" "k_step_name sub1 = ''wait''" "k_deadline sub1 = formatTime noon"
  by (simp_all add: sub1_def)

lemma wf_store_sub1 [simp]: "wf_store (store1\<lparr>subscriptions := [sub1]\<rparr>)"
  using wf_store1 by (simp add: wf_store_def sub1_def)

definition waiting_store :: store where
  "waiting_store = store1\<lparr>workflows := [row1\<lparr>c_status := StatusSuspended, c_retry_after := formatTime (noon + 5)\<rparr>],
     subscriptions := [sub1]\<rparr>"

lemma waiting_store_simps [simp]:
  "no_fault waiting_store" "subscriptions waiting_store = [sub1]"
  "row_at c_id ''w1'' (workflows waiting_store) = Some (row1\<lparr>c_status := StatusSuspended, c_retry_after := formatTime (noon + 5)\<rparr>)"
  by (simp_all add: waiting_store_def no_fault_def store1_def row1_def)

theorem event_delivered_once_witness:
  "\<exists>w'. row_at c_id ''w1'' (workflows (snd (ResumeSubscription ''k'' (Some ''7'') waiting_store))) = Some w' \<and> schedulable noon w'"
proof -
  note delivered = event_delivered_once [of waiting_store "''k''" sub1, OF _ _ surjective_pairing, of "Some ''7''"]
  have "\<forall>w t. row_at c_id (k_workflow_id sub1) (workflows waiting_store) = Some w \<and> c_status w = StatusSuspended \<longrightarrow>
      (\<exists>w'. row_at c_id (k_workflow_id sub1) (workflows (snd (ResumeSubscription ''k'' (Some ''7'') waiting_store))) = Some w' \<and>
        schedulable t w')"
    by (intro delivered [THEN conjunct2, THEN conjunct2, THEN conjunct2, THEN conjunct2, THEN conjunct1]) simp_all
  from this [rule_format, of _ noon] show ?thesis by simp
qed

text \<open>C14: timing out subscriptions removes exactly the expired ones and returns their number. The step each of
  them stood for then holds no result and the timeout marker as its error, the other steps are as they were. Exactly the
  suspended workflows of the expired subscriptions are woken, by one version each however many of their
  subscriptions expired: they become pending with no retry time, so that the scheduler may take them at any time.\<close>

theorem expired_subscriptions_time_out:
  assumes "wf_store s" and "TimeOutSubscriptions t s = (Inr n, s')"
  shows "n = int (length (filter (expired t) (subscriptions s))) \<and>
    subscriptions s' = filter (\<lambda>b. \<not> expired t b) (subscriptions s) \<and>
    (\<forall>b \<in> set (subscriptions s). expired t b \<longrightarrow>
       row_at step_key (k_type b, k_version b, k_workflow_id b, k_step_name b) (step_results s') =
         Some \<lparr>s_type = k_type b, s_version = k_version b, s_workflow_id = k_workflow_id b, s_step_name = k_step_name b,
           s_result = None, s_error = ''event_timeout'', s_created_at = formatTime t\<rparr>) \<and>
    (\<forall>k. (\<forall>b \<in> set (subscriptions s). expired t b \<longrightarrow> (k_type b, k_version b, k_workflow_id b, k_step_name b) \<noteq> k) \<longrightarrow>
       row_at step_key k (step_results s') = row_at step_key k (step_results s)) \<and>
    workflows s' = map (\<lambda>w. if (\<exists>b \<in> set (subscriptions s). expired t b \<and> k_workflow_id b = c_id w) \<and> c_status w = StatusSuspended
      then w\<lparr>c_status := StatusPending, c_retry_after := '''', c_occ_version := c_occ_version w + 1,
             c_updated_at := formatTime t\<rparr> else w) (workflows s) \<and>
    (\<forall>b w t'. b \<in> set (subscriptions s) \<and> expired t b \<and> row_at c_id (k_workflow_id b) (workflows s) = Some w \<and>
       c_status w = StatusSuspended \<longrightarrow>
       (\<exists>w'. row_at c_id (k_workflow_id b) (workflows s') = Some w' \<and> schedulable t' w'))"
proof (intro conjI allI impI ballI)
  note ok = TimeOutSubscriptions_ok [OF assms(2)]
  let ?bs = "filter (expired t) (subscriptions s)"
  let ?row = "\<lambda>b. event_row b None ''event_timeout'' t"
  show "n = int (length ?bs)" using ok by simp
  have keys: "distinct (map k_correlation_key (subscriptions s))" using assms(1) by (simp add: wf_store_def)
  have "k_correlation_key b \<notin> k_correlation_key ` {b \<in> set (subscriptions s). expired t b} \<longleftrightarrow> \<not> expired t b"
    if "b \<in> set (subscriptions s)" for b
    using that keys by (auto simp: distinct_map inj_on_def)
  then show "subscriptions s' = filter (\<lambda>b. \<not> expired t b) (subscriptions s)"
    using ok by (auto intro: filter_cong)
  have steps: "step_results s' = fold replace_step (map ?row ?bs) (step_results s)"
    using ok by (simp add: fold_map comp_def)
  have key: "step_key (?row b) = (k_type b, k_version b, k_workflow_id b, k_step_name b)" for b
    by (simp add: step_key_def event_row_def)
  show "row_at step_key (k_type b, k_version b, k_workflow_id b, k_step_name b) (step_results s') =
      Some \<lparr>s_type = k_type b, s_version = k_version b, s_workflow_id = k_workflow_id b, s_step_name = k_step_name b,
        s_result = None, s_error = ''event_timeout'', s_created_at = formatTime t\<rparr>"
    if "b \<in> set (subscriptions s)" "expired t b" for b
    unfolding steps event_row_def [symmetric] key [symmetric]
    by (rule step_table.look_fold_mem) (use that in \<open>auto simp: key\<close>, simp add: event_row_def)
  show "row_at step_key k (step_results s') = row_at step_key k (step_results s)"
    if "\<forall>b \<in> set (subscriptions s). expired t b \<longrightarrow> (k_type b, k_version b, k_workflow_id b, k_step_name b) \<noteq> k" for k
    unfolding steps by (rule step_table.look_fold_other) (use that in \<open>auto simp: key\<close>)
  have "workflows s' = map (\<lambda>w. if c_id w \<in> k_workflow_id ` set ?bs \<and> c_status w = StatusSuspended then woken t w else w) (workflows s)"
    using ok by (simp add: fold_wake)
  then show flows: "workflows s' = map (\<lambda>w. if (\<exists>b \<in> set (subscriptions s). expired t b \<and> k_workflow_id b = c_id w) \<and> c_status w = StatusSuspended
      then w\<lparr>c_status := StatusPending, c_retry_after := '''', c_occ_version := c_occ_version w + 1,
             c_updated_at := formatTime t\<rparr> else w) (workflows s)"
    by (auto simp: woken_def image_iff)
  show "\<exists>w'. row_at c_id (k_workflow_id b) (workflows s') = Some w' \<and> schedulable t' w'"
    if "b \<in> set (subscriptions s) \<and> expired t b \<and> row_at c_id (k_workflow_id b) (workflows s) = Some w \<and>
       c_status w = StatusSuspended" for b w t'
    using that row_at_key [of c_id "k_workflow_id b" "workflows s" w]
    unfolding flows by (subst row_at_map_same_key) (auto simp: schedulable_def)
qed

theorem expired_subscriptions_time_out_witness:
  "\<exists>s'. TimeOutSubscriptions noon (store1\<lparr>subscriptions := [sub1]\<rparr>) = (Inr 1, s') \<and> subscriptions s' = []"
proof -
  let ?s = "store1\<lparr>subscriptions := [sub1]\<rparr>"
  have e: "expired noon sub1" by (simp add: expired_def sub1_def formatTime_empty_iff noon_def zeroTime_def ns_per_sec_def)
  obtain s' where s': "TimeOutSubscriptions noon ?s = (Inr 1, s')"
    by (simp add: TimeOutSubscriptions_def in_tx_def db_call_def store1_def e Let_def)
  from expired_subscriptions_time_out [OF wf_store_sub1 s'] s' e show ?thesis by simp
qed

subsection \<open>The scheduler's query\<close>

text \<open>What the scheduler gets: every listed workflow is a stored one, pending, with no retry time or
  one that is less than a second in the future; at most the limit of them, oldest first; and on a
  store in order the query always succeeds.\<close>

theorem schedulable_listing:
  assumes "wf_store s" and "0 \<le> limit"
  shows "(ListSchedulable limit s = (Inr rcs, s') \<longrightarrow>
      int (length rcs) \<le> limit \<and> sorted (map (\<lambda>w. formatTime (wr_CreatedAt w)) rcs) \<and>
      (\<forall>w \<in> set rcs. wr_Status w = StatusPending \<and> wr_RetryAfter w < nowFn s (nowCalls s) + ns_per_sec \<and>
         (\<exists>r \<in> set (workflows s). scanWorkflow r = Inr w))) \<and>
    (no_fault s \<longrightarrow> (\<exists>rcs s'. ListSchedulable limit s = (Inr rcs, s')))"
proof (intro conjI impI)
  let ?t = "nowFn s (nowCalls s)"
  let ?rows = "sql_limit limit (sort_key c_created_at (filter (schedulable ?t) (workflows s)))"
  have t: "good_time ?t" using assms(1) by (rule tables_wf.clock)
  have rows: "r \<in> set (workflows s) \<and> schedulable ?t r" if "r \<in> set ?rows" for r
    using that sql_limit_subset by fastforce
  have wf: "wf_workflow_row r" if "r \<in> set ?rows" for r
    using rows [OF that] assms(1) by (simp add: wf_store_def)
  show "\<exists>rcs s'. ListSchedulable limit s = (Inr rcs, s')" if "no_fault s"
  proof -
    obtain rcs where "scan_all scanWorkflow ?rows = Inr rcs"
      using scan_all_ok [of ?rows scanWorkflow] wf scanWorkflow_ok by blast
    with that show ?thesis by (simp add: ListSchedulable_def now_def db_call_no_fault)
  qed
  assume "ListSchedulable limit s = (Inr rcs, s')"
  then have scan: "scan_all scanWorkflow ?rows = Inr rcs"
    by (auto simp: ListSchedulable_def now_def dest!: db_call_okD split: sum.splits)
  note nth = scan_all_map [OF scan]
  have len: "length rcs = length ?rows" and each: "\<And>i. i < length ?rows \<Longrightarrow> scanWorkflow (?rows ! i) = Inr (rcs ! i)"
    using nth by simp_all
  show "int (length rcs) \<le> limit" using length_sql_limit [OF assms(2)] len by simp
  have created: "formatTime (wr_CreatedAt w) = c_created_at r \<and> (c_retry_after r = formatTime (wr_RetryAfter w) \<and> valid_time (wr_RetryAfter w))"
    if "wf_workflow_row r" "scanWorkflow r = Inr w" for r w
    using that by (auto simp: wf_workflow_row_def time_text_def scanWorkflow_def parse_column_formatTime)
  have "map (\<lambda>w. formatTime (wr_CreatedAt w)) rcs = map c_created_at ?rows"
    by (rule nth_equalityI) (use len each created wf in auto)
  moreover have "sorted (map c_created_at ?rows)"
    by (simp add: sql_limit_def sorted_wrt_take flip: take_map)
  ultimately show "sorted (map (\<lambda>w. formatTime (wr_CreatedAt w)) rcs)" by simp
  show "\<forall>w \<in> set rcs. wr_Status w = StatusPending \<and> wr_RetryAfter w < ?t + ns_per_sec \<and>
      (\<exists>r \<in> set (workflows s). scanWorkflow r = Inr w)"
  proof
    fix w
    assume "w \<in> set rcs"
    from scan_all_mem [OF scan this] obtain r where r: "r \<in> set ?rows" "scanWorkflow r = Inr w" by blast
    have tm: "0 \<le> ?t" using t by (simp add: good_time_def valid_time_def)
    have "wr_RetryAfter w < ?t + ns_per_sec"
      using rows [OF r(1)] created [OF wf [OF r(1)] r(2)] text_le_bound [of "wr_RetryAfter w" ?t] t tm
      by (auto simp: schedulable_def formatTime_def rfc3339nano_def good_time_def zeroTime_def ns_per_sec_def
          split: if_splits)
    with rows [OF r(1)] r(2) scanWorkflow_fields(4) [OF r(2)]
    show "wr_Status w = StatusPending \<and> wr_RetryAfter w < ?t + ns_per_sec \<and>
      (\<exists>r \<in> set (workflows s). scanWorkflow r = Inr w)"
      by (auto simp: schedulable_def)
  qed
qed

theorem schedulable_listing_witness:
  "\<exists>rcs s'. ListSchedulable 10 store1 = (Inr rcs, s') \<and> int (length rcs) \<le> 10"
  using schedulable_listing [of store1 10] by fastforce

subsection \<open>Leases\<close>

text \<open>Mutual exclusion: in any sequence of lease calls, between two grants of the lease of one
  workflow there is a release of it.\<close>

theorem lease_exclusive:
  assumes "i < j" and "j < length calls" and "calls ! i = LAcquire wid" and "calls ! j = LAcquire wid"
    and "granted Acquire Release IsHeld calls ls ! i" and "granted Acquire Release IsHeld calls ls ! j"
  shows "\<exists>k. i < k \<and> k < j \<and> calls ! k = LRelease wid"
  using assms by (rule memory_lease.exclusive)

theorem lease_exclusive_witness:
  "\<exists>k. 0 < k \<and> k < (2::nat) \<and> [LAcquire ''a'', LRelease ''a'', LAcquire ''a''] ! k = LRelease ''a''"
  by (rule lease_exclusive [where ls = NewMemoryLeaseStore])
    (simp_all add: Acquire_def Release_def NewMemoryLeaseStore_def)

end
