(* ===== verification/ExecutionTheorems.thy ===== *)
theory ExecutionTheorems
  imports Examples
begin

section \<open>Properties of executions\<close>

text \<open>
  The properties of durable steps, of replay, of parallel branches and of the runner, each with a
  witness on a concrete state where it has hypotheses.
\<close>

subsection \<open>Replay\<close>

text \<open>C1: durable execution: when a workflow that propagates the errors of its calls has completed with a
  value, executing it again on a store that has the step rows the first execution left, whatever
  was prefetched and wherever its clock stands later on, gives the same value, calls no step
  function (the world stays as it is) and changes no table.\<close>

theorem replay_gives_the_same:
  assumes "replayable p" and "round_trip (jv js)" and "round_trip (jt js)" and "round_trip (ji js)"
    and "cache_consistent wc e" and "good_clock e" and "exec js p wc e = (Returned (Inr v), e')"
    and "quiet wc e2" and "cache_consistent (wc\<lparr>stepCache := c\<rparr>) e2" and "seenSteps e2 = seenSteps e"
    and "\<forall>n \<in> seenSteps e' - seenSteps e. stored wc n e2 = stored wc n e'" and "later e' e2"
  shows "\<exists>e2'. exec js p (wc\<lparr>stepCache := c\<rparr>) e2 = (Returned (Inr v), e2') \<and>
    world e2' = world e2 \<and> tables_of (the_store e2') = tables_of (the_store e2)"
proof -
  have "replays (exec js p)" by (rule exec_replays) (use assms in auto)
  from replays_value [OF this assms(7,5,6,8-12)]
  obtain e2' where "exec js p (wc\<lparr>stepCache := c\<rparr>) e2 = (Returned (Inr v), e2')" "replayed e2 e2'" .
  then show ?thesis by (auto simp: replayed_def)
qed

definition again1 :: "nat env" where
  "again1 = (snd (exec json1 prog1 wctx1 env1))\<lparr>seenSteps := {}, world := 41\<rparr>"

lemma again1_eq:
  "again1 = env1\<lparr>seenSteps := {}, engineNows := 1, world := 41,
     the_store := store1\<lparr>dbCalls := 3, step_results := [\<lparr>s_type = ''count:v1'', s_version = ''v1'',
       s_workflow_id = ''w1'', s_step_name = ''count'', s_result = Some ''1'', s_error = '''',
       s_created_at = formatTime noon\<rparr>]\<rparr>\<rparr>"
  unfolding again1_def run1 by simp

lemma again1_quiet: "quiet wctx1 again1"
  by (simp add: again1_eq quiet_def SignalCancelRequested_def)

lemma json1_round_trips: "round_trip (jv json1)" "round_trip (jt json1)" "round_trip (ji json1)"
  by (simp_all add: json1_def)

theorem replay_gives_the_same_witness:
  "\<exists>e2'. exec json1 prog1 wctx1 again1 = (Returned (Inr 1), e2') \<and> world e2' = 41"
proof -
  have wc: "wctx1\<lparr>stepCache := Map.empty\<rparr> = wctx1" by (simp add: wctx1_def)
  show ?thesis
    using replay_gives_the_same [OF prog1_replayable json1_round_trips cache1 clock1 run1 again1_quiet, of Map.empty]
    by (simp only: wc) (auto simp: again1_eq later_def stored_def)
qed

text \<open>C4: a step that returned a value is never run again: any later call with its name, with any step
  function and any prefetched cache that agrees with the store, returns the value without calling
  the function and without changing the world or a table.\<close>

theorem step_runs_once:
  assumes "Run cd wc name fn e = (Inr (Some v), e1)" and "tame fn" and "round_trip cd"
    and "cache_consistent wc e" and "good_clock e"
    and "quiet wc e2" and "resolveStepName wc name \<notin> seenSteps e2" and "cache_consistent (wc\<lparr>stepCache := c\<rparr>) e2"
    and "stored wc (resolveStepName wc name) e2 = stored wc (resolveStepName wc name) e1"
  shows "\<exists>e3. Run cd (wc\<lparr>stepCache := c\<rparr>) name fn2 e2 = (Inr (Some v), e3) \<and>
    world e3 = world e2 \<and> tables_of (the_store e3) = tables_of (the_store e2)"
proof -
  have "settled cd wc (resolveStepName wc name) e1 (Inr (Some v))"
    by (rule Run_settles [OF assms(1) refl assms(4,2,3)]) (use assms(5) in \<open>simp add: good_clock_def\<close>)
  from settled_row [OF this assms(9)]
  have s: "settled cd (wc\<lparr>stepCache := c\<rparr>) (resolveStepName wc name) e2 (Inr (Some v))" by simp
  have q: "quiet (wc\<lparr>stepCache := c\<rparr>) e2" using assms(6) by simp
  obtain e3 where "Run cd (wc\<lparr>stepCache := c\<rparr>) name fn2 e2 = (Inr (Some v), e3)" "replayed e2 e3"
    by (rule Run_again [OF q assms(7,8) s, of name fn2]) simp_all
  then show ?thesis by (auto simp: replayed_def)
qed

lemma run_step1:
  "Run num_codec wctx1 ''count'' (on_world count_step) env1 =
     (Inr (Some 1), snd (exec json1 prog1 wctx1 env1))"
proof -
  obtain r e where r: "Run num_codec wctx1 ''count'' (on_world count_step) env1 = (r, e)"
    by (cases "Run num_codec wctx1 ''count'' (on_world count_step) env1")
  have "r = Inr (Some 1)"
    using r by (simp add: Run_def trackStep_def on_store_def GetSignal_def db_call_def store1_def
      lookup_step_def GetStepResult_def cache_miss_def on_world_def count_step_def num_codec_def
      save_result_def nowFunc_def SaveStepResult_def SignalCancelRequested_def env1_def Let_def)
  with r show ?thesis by (simp add: prog1_def json1_def)
qed

theorem step_runs_once_witness:
  "\<exists>e3. Run num_codec wctx1 ''count'' (\<lambda>e. (Panicked ''boom'' '''', e)) again1 = (Inr (Some 1), e3) \<and> world e3 = 41"
proof -
  have wc: "wctx1\<lparr>stepCache := Map.empty\<rparr> = wctx1" by (simp add: wctx1_def)
  show ?thesis
    using step_runs_once [OF run_step1 tame_on_world num_codec_round_trip cache1 clock1 again1_quiet, of Map.empty
        "\<lambda>e. (Panicked ''boom'' '''', e)"]
    by (simp only: wc run1 snd_conv) (auto simp: again1_eq stored_def)
qed

subsection \<open>Steps\<close>

text \<open>A step name may be used once per execution: a second call with it, whatever its function,
  returns the duplicate-name error and changes nothing.\<close>

theorem duplicate_step_refused:
  assumes "resolveStepName wc name \<in> seenSteps e"
  shows "Run cd wc name fn e = (Inl (ErrorString (''duplicate step name '' @ go_quote (resolveStepName wc name) @
    '': each step must have a unique name'')), e)"
  using assms by (simp add: Run_def trackStep_def Let_def)

theorem duplicate_step_refused_witness:
  "snd (Run num_codec wctx1 ''count'' (on_world count_step) (env1\<lparr>seenSteps := {''count''}\<rparr>)) = env1\<lparr>seenSteps := {''count''}\<rparr>"
  by (subst duplicate_step_refused) simp_all

text \<open>Before each step the cancellation signal is read: once it is set, a step returns the
  cancellation error and its function is not called, so world and tables stay as they are.\<close>

theorem cancelled_before_step:
  assumes "no_fault (the_store e)" and "row_at c_id (wc_id wc) (workflows (the_store e)) = Some r"
    and "c_signal r = SignalCancelRequested" and "resolveStepName wc name \<notin> seenSteps e"
  shows "\<exists>e'. Run cd wc name fn e = (Inl ErrCancelled, e') \<and> world e' = world e \<and>
    tables_of (the_store e') = tables_of (the_store e)"
  using assms
  by (simp add: Run_def trackStep_def Let_def on_store_def GetSignal_def db_call_no_fault)

theorem cancelled_before_step_witness:
  "\<exists>e'. Run num_codec wctx1 ''count'' (on_world count_step)
      (env1\<lparr>the_store := store1\<lparr>workflows := [row1\<lparr>c_signal := SignalCancelRequested\<rparr>]\<rparr>\<rparr>) =
    (Inl ErrCancelled, e') \<and> world e' = 0"
  using cancelled_before_step [of "env1\<lparr>the_store := store1\<lparr>workflows := [row1\<lparr>c_signal := SignalCancelRequested\<rparr>]\<rparr>\<rparr>"
      wctx1 "row1\<lparr>c_signal := SignalCancelRequested\<rparr>" "''count''" num_codec "on_world count_step"]
  by simp blast

text \<open>A step that fails is not recorded: when the function of an unrecorded step returns an error or
  panics, the step returns that error (a panic as an error with its value), and no row is saved for
  it, so that the next execution runs it again.\<close>

theorem failed_step_not_recorded:
  assumes "quiet wc e" and "resolveStepName wc name \<notin> seenSteps e" and "tame fn"
    and "stepCache wc (resolveStepName wc name) = None" and "stored wc (resolveStepName wc name) e = None"
    and "\<And>e. panicToError (fst (fn e)) = Inl err"
  shows "fst (Run cd wc name fn e) = Inl err \<and>
    step_results (the_store (snd (Run cd wc name fn e))) = step_results (the_store e)"
proof -
  let ?n = "resolveStepName wc name"
  let ?e1 = "e\<lparr>seenSteps := insert ?n (seenSteps e)\<rparr>"
  have nf: "no_fault (the_store e)" using assms(1) by (simp add: quiet_def)
  have "quiet wc ?e1" using assms(1) by (simp add: quiet_def)
  from on_store_quiet_signal [OF this] obtain sig where
    sig: "on_store (GetSignal (wc_id wc)) ?e1 =
      (Inr sig, ?e1\<lparr>the_store := (the_store e)\<lparr>dbCalls := Suc (dbCalls (the_store e))\<rparr>\<rparr>)"
      "sig \<noteq> SignalCancelRequested" by auto
  let ?e2 = "?e1\<lparr>the_store := (the_store e)\<lparr>dbCalls := Suc (Suc (dbCalls (the_store e)))\<rparr>\<rparr>"
  have look: "lookup_step wc ?n (?e1\<lparr>the_store := (the_store e)\<lparr>dbCalls := Suc (dbCalls (the_store e))\<rparr>\<rparr>) = (Inr None, ?e2)"
    using assms(4,5) nf by (simp add: lookup_step_def on_store_def GetStepResult_def db_call_no_fault stored_def)
  have "Run cd wc name fn e = cache_miss cd wc ?n fn ?e2"
    using assms(2) sig look by (simp add: Run_def trackStep_def Let_def)
  moreover have "cache_miss cd wc ?n fn ?e2 = (Inl err, snd (fn ?e2))"
    using assms(6) [of ?e2] by (simp add: cache_miss_def case_prod_unfold Let_def)
  moreover have "step_results (the_store (snd (fn ?e2))) = step_results (the_store e)"
    using assms(3) by (simp add: tame_def)
  ultimately show ?thesis by simp
qed

theorem failed_step_not_recorded_witness:
  "fst (Run num_codec wctx1 ''count'' (on_world (\<lambda>w. (Returned (Inl (ErrorString ''no'')), w))) env1) = Inl (ErrorString ''no'')"
  using failed_step_not_recorded [of wctx1 env1 "''count''" "on_world (\<lambda>w. (Returned (Inl (ErrorString ''no'')), w))"
      "ErrorString ''no''" num_codec]
  by (simp add: stored_def on_world_def)

text \<open>A sleep wakes at the time it recorded first: once its step is recorded, later calls ignore the
  time they are given, suspend until the recorded time while the clock is before it, and go on
  from then.\<close>

theorem sleep_wakes_at_recorded_time:
  assumes "quiet wc e" and "cache_consistent wc e"
    and "n = resolveStepName wc (step_number ''_sleep.until'' (Suc (sleepCounter wc)))" and "n \<notin> seenSteps e"
    and "settled cd wc n e (Inr (Some c))"
  shows "fst (SleepUntil cd wc t e) =
    Returned (if engineNow e (engineNows e) < c then Inl (SuspendError c) else Inr ())"
proof -
  let ?wc = "wc\<lparr>sleepCounter := Suc (sleepCounter wc)\<rparr>"
  obtain e' where "Run cd ?wc (step_number ''_sleep.until'' (Suc (sleepCounter wc)))
      (\<lambda>e. (Returned (Inr (Some t)), e)) e = (Inr (Some c), e')" "replayed e e'"
    by (rule Run_again [of ?wc e n cd "Inr (Some c)" "step_number ''_sleep.until'' (Suc (sleepCounter wc))"])
      (use assms in simp_all)
  moreover have "seenSteps e' = seenSteps e' \<and> engineNows e' = engineNows e"
  proof -
    from Run_hit [of ?wc e "step_number ''_sleep.until'' (Suc (sleepCounter wc))" cd "Inr (Some c)"
        "\<lambda>e. (Returned (Inr (Some t)), e)"] assms calculation(1)
    show ?thesis by (auto simp: only_seen_def)
  qed
  ultimately show ?thesis
    by (simp add: SleepUntil_def Let_def case_prod_unfold deref_def replayed_def)
qed

definition slept1 :: "nat env" where
  "slept1 = env1\<lparr>the_store := store1\<lparr>step_results := [\<lparr>s_type = ''count:v1'', s_version = ''v1'',
     s_workflow_id = ''w1'', s_step_name = ''_sleep.until:1'', s_result = Some ''+5'', s_error = '''',
     s_created_at = formatTime noon\<rparr>]\<rparr>\<rparr>"

theorem sleep_wakes_at_recorded_time_witness:
  "fst (SleepUntil int_codec wctx1 (noon + 1) slept1) = Returned (Inr ())"
proof -
  have name: "resolveStepName wctx1 (step_number ''_sleep.until'' (Suc (sleepCounter wctx1))) = ''_sleep.until:1''"
    by (simp add: step_number_def dec_nat_small wctx1_def resolveStepName_def)
  have "noon \<noteq> zeroTime" by (simp add: noon_def zeroTime_def ns_per_sec_def)
  then have "settled int_codec wctx1 ''_sleep.until:1'' slept1 (Inr (Some 5))"
    by (simp add: settled_def stored_def slept1_def step_key_def scanStepResult_def formatTime_def
        parseTime_rfc3339nano cache_hit_def int_codec_def dec_val_def digit_val_def)
  moreover have "\<not> noon < 5" by (simp add: noon_def ns_per_sec_def)
  ultimately show ?thesis
    using sleep_wakes_at_recorded_time [of wctx1 slept1 "''_sleep.until:1''" int_codec 5 "noon + 1"] name
    by (simp add: slept1_def quiet_def SignalCancelRequested_def)
qed

text \<open>A step function that returns a nil pointer and no error is not replayed faithfully: with a codec
  that writes nil as \<open>null\<close> and reads \<open>null\<close> as the zero value, as \<open>encoding/json\<close> does, the first run
  returns the nil pointer and the next execution a pointer to the zero value.\<close>

theorem nil_result_replays_as_zero:
  assumes "quiet wc e" and "good_clock e" and "cache_consistent wc e" and "resolveStepName wc name \<notin> seenSteps e"
    and "stepCache wc (resolveStepName wc name) = None" and "stored wc (resolveStepName wc name) e = None"
    and "marshal cd None = Inr ''null''" and "unmarshal cd (Some ''null'') = Inr zero"
    and "Run cd wc name (\<lambda>e. (Returned (Inr None), e)) e = (r, e1)"
  shows "r = Inr None \<and> fst (Run cd wc name fn (e1\<lparr>seenSteps := {}\<rparr>)) = Inr (Some zero)"
proof -
  let ?n = "resolveStepName wc name" and ?fn = "\<lambda>e. (Returned (Inr None), e)"
  obtain row where row: "row_at c_id (wc_id wc) (workflows (the_store e)) = Some row"
    "c_signal row \<noteq> SignalCancelRequested" and nf: "no_fault (the_store e)"
    using assms(1) by (auto simp: quiet_def)
  define s1 where "s1 = (the_store e)\<lparr>dbCalls := Suc (Suc (Suc (dbCalls (the_store e)))),
    step_results := replace_step (step_row_of \<lparr>sr_Type = wc_wfType wc, sr_Version = wc_version wc,
        sr_WorkflowID = wc_id wc, sr_StepName = ?n, sr_Result = Some ''null'', sr_Error = '''',
        sr_CreatedAt = engineNow e (engineNows e)\<rparr>) (step_results (the_store e))\<rparr>"
  have run: "r = Inr None \<and> e1 = e\<lparr>seenSteps := insert ?n (seenSteps e), engineNows := Suc (engineNows e), the_store := s1\<rparr>"
    using assms(4-9) row nf
    by (simp add: Run_def trackStep_def Let_def on_store_def GetSignal_def db_call_no_fault lookup_step_def
        GetStepResult_def stored_def cache_miss_def save_result_def nowFunc_def SaveStepResult_def s1_def)
  let ?e2 = "e1\<lparr>seenSteps := {}\<rparr>"
  have "good_time (engineNow e (engineNows e))" using assms(2) by (simp add: good_clock_def)
  then have "settled cd wc ?n ?e2 (Inr (Some zero))"
    using run assms(8)
    by (simp add: settled_def stored_def s1_def row_at_replace_step step_key_def step_row_of_def scanStepResult_def
        formatTime_def parseTime_rfc3339nano good_time_def cache_hit_def)
  moreover have "quiet wc ?e2" using run row nf by (simp add: quiet_def s1_def)
  moreover have "cache_consistent wc ?e2"
  proof -
    have "progress wc e e1"
      using Run_first' (1) [OF assms(9) refl _ assms(3)] by (simp add: tame_def)
    from cache_consistent_progress [OF assms(3) this] show ?thesis
      by (simp add: cache_consistent_def stored_def)
  qed
  ultimately obtain e3 where "Run cd wc name fn ?e2 = (Inr (Some zero), e3)"
    by (rule_tac Run_again [of wc ?e2 ?n cd "Inr (Some zero)" name fn]) simp_all
  then show ?thesis using run by simp
qed

theorem nil_result_replays_as_zero_witness:
  "\<exists>r e1. Run num_codec wctx1 ''s'' (\<lambda>e. (Returned (Inr None), e)) env1 = (r, e1) \<and> r = Inr None \<and>
     fst (Run num_codec wctx1 ''s'' (\<lambda>e. (Returned (Inr None), e)) (e1\<lparr>seenSteps := {}\<rparr>)) = Inr (Some 0)"
proof -
  obtain r e1 where run: "Run num_codec wctx1 ''s'' (\<lambda>e. (Returned (Inr None), e)) env1 = (r, e1)"
    by (cases "Run num_codec wctx1 ''s'' (\<lambda>e. (Returned (Inr None), e)) env1")
  from nil_result_replays_as_zero [OF quiet1 clock1 cache1 _ _ _ _ _ run, of 0] run show ?thesis
    by (simp add: stored_def num_codec_def)
qed

subsection \<open>Parallel branches\<close>

text \<open>What \<open>Parallel\<close> returns depends on the errors of the branches alone, in branch order: the first
  error that is not a suspension if there is one, otherwise a suspension until the latest of the
  resume times if any branch suspended, otherwise success.\<close>

theorem parallel_joins_errors:
  "join_errors errs =
     (case failures errs of e # _ \<Rightarrow> Inl e
      | [] \<Rightarrow> (case suspensions errs of [] \<Rightarrow> Inr () | t # ts \<Rightarrow> Inl (SuspendError (Max (set (t # ts))))))"
  by (rule join_errors_eq)

text \<open>\<open>Parallel\<close> does not get stuck: whatever actions of the branches have already been taken, the
  schedule can be continued so that all branches end and \<open>Parallel\<close> returns.\<close>

theorem parallel_can_finish:
  "\<exists>more. Parallel wc branches (sched @ more) e \<noteq> None"
proof -
  obtain ps e1 where mid: "fold sched_step sched (map (branch_proc wc) branches, e) = (ps, e1)"
    by (cases "fold sched_step sched (map (branch_proc wc) branches, e)")
  obtain more where "fold sched_step more (ps, e1) =
      (map Ret (fst (run_ops (map run_alone ps) e1)), snd (run_ops (map run_alone ps) e1))"
    using run_from [of "[]" ps e1] by auto
  then have "Parallel wc branches (sched @ more) e \<noteq> None"
    using mid those_results [of "fst (run_ops (map run_alone ps) e1)"] by (simp add: Parallel_def comp_def)
  then show ?thesis ..
qed

text \<open>Running the branches one after another, each to its end, is one of the schedules of \<open>Parallel\<close>:
  for it the result is the join of the branches' own results.\<close>

theorem parallel_one_by_one:
  "\<exists>sched. Parallel wc branches sched e =
     (let (rs, e') = run_ops (map (\<lambda>b. run_alone (branch_proc wc b)) branches) e
      in Some (join_errors (map err_of rs), e'))"
proof -
  obtain sched where "fold sched_step sched (map (branch_proc wc) branches, e) =
      (map Ret (fst (run_ops (map run_alone (map (branch_proc wc) branches)) e)),
       snd (run_ops (map run_alone (map (branch_proc wc) branches)) e))"
    using run_from [of "[]" "map (branch_proc wc) branches" e] by auto
  then have "Parallel wc branches sched e =
     (let (rs, e') = run_ops (map (\<lambda>b. run_alone (branch_proc wc b)) branches) e
      in Some (join_errors (map err_of rs), e'))"
    using those_results [of "fst (run_ops (map run_alone (map (branch_proc wc) branches)) e)"]
    by (simp add: Parallel_def case_prod_unfold comp_def Let_def)
  then show ?thesis ..
qed

text \<open>The atomic actions \<open>Run\<close> is split into for interleaving are \<open>Run\<close>: taken without interference
  they give the same answer and the same environment as the sequential function.\<close>

theorem run_process_refines_run:
  "run_alone (Run_proc cd wc name fn) e = Run cd wc name fn e"
  by (rule run_alone_Run_proc)

text \<open>Two scopes with different names that contain no slash never resolve two step names to the same
  name, so parallel branches do not share step results.\<close>

theorem scopes_do_not_collide:
  assumes "a \<noteq> b" and "a \<noteq> ''''" and "b \<noteq> ''''" and "CHR ''/'' \<notin> set a" and "CHR ''/'' \<notin> set b"
  shows "resolveStepName (Scope wc a) m \<noteq> resolveStepName (Scope wc b) n"
proof -
  have split: "a = b" if "a @ CHR ''/'' # m = b @ CHR ''/'' # n" for m n
  proof -
    have "takeWhile (\<lambda>c. c \<noteq> CHR ''/'') (a @ CHR ''/'' # m) = a" using assms(4) by (subst takeWhile_append2) auto
    moreover have "takeWhile (\<lambda>c. c \<noteq> CHR ''/'') (b @ CHR ''/'' # n) = b" using assms(5) by (subst takeWhile_append2) auto
    ultimately show ?thesis using that by simp
  qed
  then show ?thesis
    using assms(1-3) split [of m n] by (auto simp: resolveStepName_def Scope_def split: if_splits)
qed

theorem scopes_do_not_collide_witness:
  "resolveStepName (Scope wctx1 ''left'') ''s'' \<noteq> resolveStepName (Scope wctx1 ''right'') ''s''"
  by (rule scopes_do_not_collide) simp_all

subsection \<open>The runner\<close>

text \<open>\<open>resolveOutcome\<close> is one versioned update: what it does with the answer of an execution is the
  decision of \<open>decide\<close>, applied at the version the record was read with; it reads the clock only
  to schedule a retry.\<close>

theorem outcome_is_one_update:
  "resolveOutcome record p occ r e =
     (let u = decide p (wr_Attempts record) (engineNow e (engineNows e)) r;
          e1 = (if is_retry u then snd (nowFunc e) else e)
      in on_store (occ_apply u (wr_ID record) occ) e1)"
  by (rule resolveOutcome_decides)

text \<open>The decision: cancellation comes first and ends the workflow, then a permanent error fails it
  with the text of its cause, then a suspension suspends it without counting an attempt; any other
  error, a recovered panic among them, counts an attempt and either schedules a retry or, on the
  last attempt the policy allows, fails the workflow; a value completes it.\<close>

theorem outcome_decision:
  "decide p a t (Inr json) = OccStatus StatusCompleted (Some json) \<and>
   (as_cancelled err \<longrightarrow> decide p a t (Inl err) = OccStatus StatusCancelled None) \<and>
   (\<not> as_cancelled err \<longrightarrow> as_permanent err = Some cause \<longrightarrow>
      decide p a t (Inl err) = OccError StatusFailed (error_text cause)) \<and>
   (\<not> as_cancelled err \<longrightarrow> as_permanent err = None \<longrightarrow> IsSuspend err = Some resumeAt \<longrightarrow>
      decide p a t (Inl err) = OccSuspend resumeAt \<and>
      c_attempts (occ_row (decide p a t (Inl err)) t2 row) = c_attempts row) \<and>
   (transient err \<or> panicToError (Panicked v stack :: bytes go_outcome) = Inl err \<longrightarrow>
      decide p a t (Inl err) =
        (if MaxAttempts p \<le> a + 1 then OccError StatusFailed (error_text err)
         else OccRetry (add_time t (retry_delay p a))))"
  by (auto simp: decide_def transient_def)

theorem outcome_decision_witness:
  "decide DefaultRetryPolicy 0 noon (Inl (PermanentError (SuspendError noon))) =
     OccError StatusFailed (error_text (SuspendError noon))"
  using outcome_decision [of DefaultRetryPolicy 0 noon "''''" "PermanentError (SuspendError noon)" "SuspendError noon"]
  by (simp add: as_leaf)

text \<open>A worker gives every lease back: however an execution ends (unknown type, lease held by
  another worker, prefetch or signal error, panic, any outcome), the set of leases is afterwards
  what it was before; and while another worker holds the lease the run does nothing and reports no
  error.\<close>

theorem leases_are_given_back:
  "fst (snd (RunWorkflow reg record (ls, e))) = ls \<and>
   (reg (wr_Type record) = Some entry \<and> wr_ID record \<in> ls \<longrightarrow> RunWorkflow reg record (ls, e) = (Inr (), ls, e))"
  using RunWorkflow_leases [of reg "record" ls e] RunWorkflow_held [of reg "record" entry ls e] by auto

definition demo_count :: "(unit, nat, nat) WorkflowDef" where
  "demo_count = Define ''count'' ''v1'' (\<lambda>_. Inr ()) (\<lambda>n. Inr (dec_nat n)) (\<lambda>wc _ e. exec json1 prog1 wc e)"

definition demo_failing :: "(unit, nat, nat) WorkflowDef" where
  "demo_failing = Define ''count'' ''v1'' (\<lambda>_. Inr ()) (\<lambda>n. Inr (dec_nat n)) (\<lambda>wc _ e. (Panicked ''boom'' '''', e))"

definition entry1 :: "nat registryEntry" where
  "entry1 = \<lparr>re_def = erase demo_failing, retryPolicy = DefaultRetryPolicy\<rparr>"

theorem leases_are_given_back_witness:
  "RunWorkflow [''count:v1'' \<mapsto> entry1] record1 ({''w1''}, env1) = (Inr (), {''w1''}, env1)"
  using leases_are_given_back [of "[''count:v1'' \<mapsto> entry1]" record1 "{''w1''}" env1 entry1]
  by (simp add: record1_def)

text \<open>C11: retries end: a pending workflow whose every execution ends in an error that asks for a retry is
  executed exactly as often as the policy allows; after the last execution it is failed.\<close>

theorem retries_end:
  assumes "healthy e" and "the_row wid e = Some r" and "c_status r = StatusPending"
    and "c_signal r \<noteq> SignalCancelRequested" and "reg (c_type r) = Some entry" and "wid \<notin> ls"
    and "user_contained entry" and "always_transient entry" and "clock_in_range e (retryPolicy entry)"
    and "MaxAttempts (retryPolicy entry) = c_attempts r + 1 + int n"
  shows "\<exists>e' r'. (execute_round reg wid ^^ Suc n) (ls, e) = (ls, e') \<and> the_row wid e' = Some r' \<and>
     c_status r' = StatusFailed \<and> c_attempts r' = c_attempts r + int n"
  using assms by (rule execute_rounds_transient)

lemma entry1_user: "user_contained entry1" "always_transient entry1"
  by (simp_all add: user_contained_def contained_def always_transient_def entry1_def erase_def executeWorkflow_def
      demo_failing_def Define_def transient_def)

lemma clock_in_range1: "clock_in_range env1 DefaultRetryPolicy"
proof -
  have "valid_time (add_time noon (retry_delay DefaultRetryPolicy a))" for a
  proof -
    have "- (2 ^ 63) \<le> sint d \<and> sint d < 2 ^ 63" for d :: duration
      using sint_greater_eq [of d] sint_less [of d] by simp
    then have "- (2 ^ 63) \<le> sint (retry_delay DefaultRetryPolicy a)"
      "sint (retry_delay DefaultRetryPolicy a) < 2 ^ 63" by blast+
    then show ?thesis by (simp add: add_time_def valid_time_def noon_def ns_per_sec_def)
  qed
  then show ?thesis by (simp add: clock_in_range_def)
qed

theorem retries_end_witness:
  "\<exists>e' r'. (execute_round [''count:v1'' \<mapsto> entry1] ''w1'' ^^ 3) ({}, env1) = ({}, e') \<and>
     the_row ''w1'' e' = Some r' \<and> c_status r' = StatusFailed \<and> c_attempts r' = 2"
  using retries_end [of env1 "''w1''" row1 "[''count:v1'' \<mapsto> entry1]" entry1 "{}" 2]
    entry1_user clock_in_range1
  by (simp add: healthy_def the_row_def SignalCancelRequested_def entry1_def DefaultRetryPolicy_def numeral_3_eq_3)

text \<open>The backoff is what it means to be while the shift does not overflow: twice the delay for each
  attempt made, cut off at the maximal delay.\<close>

theorem backoff_doubles:
  assumes "0 \<le> sint (BaseDelay p)" and "sint (BaseDelay p) * 2 ^ nat attempts < 2 ^ 63"
  shows "sint (retry_delay p attempts) = min (sint (BaseDelay p) * 2 ^ nat attempts) (sint (MaxDelay p))"
  using assms by (rule retry_delay_no_overflow)

theorem backoff_doubles_witness:
  "sint (retry_delay DefaultRetryPolicy 5) = 30000000000"
  using backoff_doubles [of DefaultRetryPolicy 5] by (simp add: DefaultRetryPolicy_def second_def)

text \<open>C39: the shift is not guarded against overflow: with the default one second base delay and a policy of
  more than 34 attempts, the 35th retry is scheduled in the past, and from 64 attempts on every
  delay is zero, so that the maximal delay no longer bounds the rate of retries from below.\<close>

theorem backoff_overflows:
  "sint (retry_delay DefaultRetryPolicy 34) < 0 \<and>
   (64 \<le> a \<and> 0 \<le> sint (MaxDelay p) \<longrightarrow> retry_delay p a = 0)"
proof (intro conjI impI)
  have "push_bit 34 (second :: 64 word) = 17179869184000000000"
    by (simp add: second_def push_bit_eq_mult)
  moreover have "sint (17179869184000000000 :: 64 word) < 0"
    by simp
  ultimately show "sint (retry_delay DefaultRetryPolicy 34) < 0"
    by (simp add: retry_delay_def DefaultRetryPolicy_def second_def)
next
  assume "64 \<le> a \<and> 0 \<le> sint (MaxDelay p)"
  then show "retry_delay p a = 0"
    by (simp add: retry_delay_def push_bit_word_beyond le_nat_iff)
qed

theorem backoff_overflows_witness:
  "retry_delay DefaultRetryPolicy 70 = 0"
  using backoff_overflows [of 70 DefaultRetryPolicy] by (simp add: DefaultRetryPolicy_def second_def)

text \<open>C17: executing a workflow whose cancellation was requested does not call its code (the world stays as
  it is) and ends it as cancelled, whatever the policy.\<close>

theorem cancelled_workflow_ends:
  assumes "healthy e" and "row_at c_id (wr_ID w) (workflows (the_store e)) = Some r"
    and "c_occ_version r = wr_OCCVersion w" and "c_signal r = SignalCancelRequested"
    and "reg (wr_Type w) = Some entry" and "user_contained entry" and "wr_ID w \<notin> ls"
    and "RunWorkflow reg w (ls, e) = (res, ls', e')"
  shows "res = Inr () \<and> world e' = world e \<and>
    (\<exists>r'. row_at c_id (wr_ID w) (workflows (the_store e')) = Some r' \<and> c_status r' = StatusCancelled)"
proof -
  have run: "res = fst (run_leased entry w e)" "e' = snd (run_leased entry w e)"
    using assms(8) RunWorkflow_free [of reg w entry ls e] assms(5,7) by simp_all
  obtain wc e0 k t u where "good_time t" and ok: "fst (run_leased entry w e) = Inr ()"
    and u: "u = decide (retryPolicy entry) (wr_Attempts w) (engineNow e k)
         (if c_signal r = SignalCancelRequested then Inl ErrCancelled
          else panicToError (fst (d_execute (re_def entry) wc (wr_Payload w) e0)))"
    and row: "row_at c_id (wr_ID w) (workflows (the_store (snd (run_leased entry w e)))) = Some (occ_row u t r)"
    and "occ_time_ok u \<longrightarrow> wf_store (the_store (snd (run_leased entry w e)))"
    and "no_fault (the_store (snd (run_leased entry w e)))"
    and "engineNow (snd (run_leased entry w e)) = engineNow e"
    and frame: "c_signal r = SignalCancelRequested \<longrightarrow> world (snd (run_leased entry w e)) = world e"
    by (rule run_leased_healthy [OF assms(1,2,3,6)])
  have "u = OccStatus StatusCancelled None" using u assms(4) by (simp add: decide_def ErrCancelled_def)
  with ok row frame run assms(4) show ?thesis by simp
qed

lemma healthy_cancel1: "healthy (env1\<lparr>the_store := store1\<lparr>workflows := [row1\<lparr>c_signal := SignalCancelRequested\<rparr>]\<rparr>\<rparr>)"
  using wf_store1 by (simp add: healthy_def wf_store_def wf_workflow_row_def)

theorem cancelled_workflow_ends_witness:
  "world (snd (snd (RunWorkflow [''count:v1'' \<mapsto> entry1] record1
     ({}, env1\<lparr>the_store := store1\<lparr>workflows := [row1\<lparr>c_signal := SignalCancelRequested\<rparr>]\<rparr>\<rparr>)))) = 0"
  using cancelled_workflow_ends [OF healthy_cancel1, of record1 "row1\<lparr>c_signal := SignalCancelRequested\<rparr>"
      "[''count:v1'' \<mapsto> entry1]" entry1 "{}"] entry1_user(1)
  by (simp add: record1_def prod_eq_iff)

text \<open>An execution that rests on an outdated record decides nothing: when the workflow has moved on
  since the record was read, its outcome is refused with the conflict error and the workflows table
  stays as it is.\<close>

theorem outdated_execution_refused:
  assumes "no_fault (the_store e)" and "unique_ids (the_store e)"
    and "occ_version (the_store e) (wr_ID w) \<noteq> Some v"
  shows "fst (resolveOutcome w p v r e) = Inl OCCConflictError \<and>
    tables_of (the_store (snd (resolveOutcome w p v r e))) = tables_of (the_store e)"
  unfolding resolveOutcome_decides Let_def using occ_stale [OF assms(2,1,3)] by simp

theorem outdated_execution_refused_witness:
  "fst (resolveOutcome record1 DefaultRetryPolicy 7 (Inr ''1'') env1) = Inl OCCConflictError"
  using outdated_execution_refused [of env1 record1 7 DefaultRetryPolicy "Inr ''1''"]
  by (simp add: unique_ids_def occ_version_def record1_def)

end
