(* ===== verification/GoTypes.thy ===== *)
theory GoTypes
  imports Prelude
begin

section \<open>The shape of a Go type\<close>

text \<open>
  \<^verbatim>\<open>contract/resolve.go\<close> and the data of \<^verbatim>\<open>contract/contract.go\<close> it builds: a type of \<^verbatim>\<open>go/types\<close> is
  unfolded into a tree that can be printed, named types are cut where they contain themselves. What
  the source uses of \<^verbatim>\<open>go/types\<close> is modelled here: a type is a term, a \<open>*types.Named\<close> is a pointer,
  that is, an index into the table of the named types the loader has made; so two occurrences are
  the same type exactly if they are the same index, as for the keys of the map \<open>seen\<close>. The text
  \<open>types.Type.String\<close> gives is a field of the table.
\<close>

subsection \<open>Types\<close>

datatype basic_kind = BBool | BInt | BInt8 | BInt16 | BInt32 | BInt64 | BUint | BUint8 | BUint16 | BUint32 | BUint64
  | BUintptr | BFloat32 | BFloat64 | BComplex64 | BComplex128 | BString | BUnsafePointer | BByte | BRune
  | BUntypedBool | BUntypedInt | BUntypedRune | BUntypedFloat | BUntypedComplex | BUntypedString | BUntypedNil
  | BInvalid

text \<open>\<open>Basic.Name\<close>.\<close>

fun basic_name :: "basic_kind \<Rightarrow> string" where
  "basic_name BBool = ''bool''"
| "basic_name BInt = ''int''"
| "basic_name BInt8 = ''int8''"
| "basic_name BInt16 = ''int16''"
| "basic_name BInt32 = ''int32''"
| "basic_name BInt64 = ''int64''"
| "basic_name BUint = ''uint''"
| "basic_name BUint8 = ''uint8''"
| "basic_name BUint16 = ''uint16''"
| "basic_name BUint32 = ''uint32''"
| "basic_name BUint64 = ''uint64''"
| "basic_name BUintptr = ''uintptr''"
| "basic_name BFloat32 = ''float32''"
| "basic_name BFloat64 = ''float64''"
| "basic_name BComplex64 = ''complex64''"
| "basic_name BComplex128 = ''complex128''"
| "basic_name BString = ''string''"
| "basic_name BUnsafePointer = ''Pointer''"
| "basic_name BByte = ''byte''"
| "basic_name BRune = ''rune''"
| "basic_name BUntypedBool = ''untyped bool''"
| "basic_name BUntypedInt = ''untyped int''"
| "basic_name BUntypedRune = ''untyped rune''"
| "basic_name BUntypedFloat = ''untyped float''"
| "basic_name BUntypedComplex = ''untyped complex''"
| "basic_name BUntypedString = ''untyped string''"
| "basic_name BUntypedNil = ''untyped nil''"
| "basic_name BInvalid = ''invalid type''"

text \<open>
  A struct field has its name, whether it is exported, its type and its raw tag; an interface
  whether it is empty. An alias keeps the type it stands for (\<open>any\<close> is an alias of the empty
  interface since Go 1.23). \<open>OtherType\<close> is an array, a channel, a function or a type parameter, \<open>Tuple\<close> the
  results of a call.
\<close>

datatype gotype =
    Named nat
  | Struct "gofield list"
  | Pointer gotype
  | Slice gotype
  | Map gotype gotype
  | Basic basic_kind
  | Interface bool
  | Alias nat gotype
  | Tuple "gotype list"
  | OtherType nat
and gofield = Field (f_name: string) (f_exported: bool) (f_type: gotype) (f_tag: string)

record named_info =
  n_name :: string
  n_pkg :: "string option"
  n_under :: gotype
  n_targs :: "gotype list"

record type_table =
  nameds :: "named_info list"
  type_string :: "gotype \<Rightarrow> string"

definition named_at :: "type_table \<Rightarrow> nat \<Rightarrow> named_info option" where
  "named_at tt i = (if i < length (nameds tt) then Some (nameds tt ! i) else None)"

subsection \<open>Shapes\<close>

text \<open>A missing \<open>Pkg\<close> or \<open>JSONTag\<close> is the empty string.\<close>

datatype TypeShape =
    TypeShape (ts_Name: string) (ts_Pkg: string) (ts_Kind: string) (ts_Fields: "FieldShape list")
      (ts_Elem: "TypeShape option") (ts_Key: "TypeShape option")
and FieldShape = FieldShape (fs_Name: string) (fs_Type: TypeShape) (fs_JSONTag: string)

definition leaf_shape :: "string \<Rightarrow> string \<Rightarrow> TypeShape" where
  "leaf_shape name kind = TypeShape name '''' kind [] None None"

fun kindFromUnderlying :: "gotype \<Rightarrow> string" where
  "kindFromUnderlying (Struct fs) = ''struct''"
| "kindFromUnderlying (Basic b) = basic_name b"
| "kindFromUnderlying (Slice t) = ''slice''"
| "kindFromUnderlying (Map k v) = ''map''"
| "kindFromUnderlying (Pointer t) = ''pointer''"
| "kindFromUnderlying (Interface e) = ''interface''"
| "kindFromUnderlying t = ''unknown''"

subsection \<open>Struct tags\<close>

text \<open>
  \<open>reflect.StructTag.Get\<close>: key-value pairs \<open>key:"value"\<close> separated by blanks, the value a Go string
  literal. \<open>strconv.Unquote\<close> is modelled with its one-letter escapes; a value with a numeric escape is
  rejected like an ill-formed one.
\<close>

definition tag_quote :: char where "tag_quote = CHR 0x22"
definition tag_backslash :: char where "tag_backslash = CHR 0x5C"

definition key_char :: "char \<Rightarrow> bool" where
  "key_char c \<longleftrightarrow> 32 < (of_char c :: nat) \<and> c \<noteq> CHR '':'' \<and> c \<noteq> tag_quote \<and> c \<noteq> CHR 0x7F"

fun scan_quoted :: "string \<Rightarrow> (string \<times> string) option" where
  "scan_quoted [] = None"
| "scan_quoted (c # cs) =
     (if c = tag_quote then Some ([], cs)
      else if c = tag_backslash
           then (case cs of [] \<Rightarrow> None
                 | d # ds \<Rightarrow> map_option (\<lambda>(v, rest). (c # d # v, rest)) (scan_quoted ds))
      else map_option (\<lambda>(v, rest). (c # v, rest)) (scan_quoted cs))"

definition unescape :: "char \<Rightarrow> char option" where
  "unescape c = map_of
     [(CHR ''a'', CHR 0x07), (CHR ''b'', CHR 0x08), (CHR ''f'', CHR 0x0C), (CHR ''n'', CHR 0x0A),
      (CHR ''r'', CHR 0x0D), (CHR ''t'', CHR 0x09), (CHR ''v'', CHR 0x0B),
      (tag_backslash, tag_backslash), (tag_quote, tag_quote)] c"

fun unquote_value :: "string \<Rightarrow> string option" where
  "unquote_value [] = Some []"
| "unquote_value (c # cs) =
     (if c = CHR 0x0A then None
      else if c = tag_backslash
           then (case cs of [] \<Rightarrow> None
                 | d # ds \<Rightarrow> (case unescape d of None \<Rightarrow> None
                     | Some x \<Rightarrow> map_option ((#) x) (unquote_value ds)))
      else map_option ((#) c) (unquote_value cs))"

lemma scan_quoted_length: "scan_quoted s = Some (v, rest) \<Longrightarrow> length rest < length s"
  by (induction s arbitrary: v rest rule: scan_quoted.induct)
    (fastforce split: if_splits list.splits)+

text \<open>\<open>tag_key\<close> cuts the key off, up to and with the opening quote of its value.\<close>

definition tag_key :: "string \<Rightarrow> (string \<times> string) option" where
  "tag_key tag =
     (case dropWhile key_char tag of
        c # d # rest \<Rightarrow>
          if takeWhile key_char tag \<noteq> [] \<and> c = CHR '':'' \<and> d = tag_quote
          then Some (takeWhile key_char tag, rest) else None
      | _ \<Rightarrow> None)"

lemma tag_key_length: "tag_key tag = Some (name, rest) \<Longrightarrow> length rest < length tag"
  using length_dropWhile_le [of key_char tag] by (auto simp: tag_key_def split: list.splits if_splits)

function StructTag_Get :: "string \<Rightarrow> string \<Rightarrow> string" where
  "StructTag_Get tag key =
     (case tag_key (dropWhile (\<lambda>c. c = CHR '' '') tag) of
        None \<Rightarrow> ''''
      | Some (name, rest) \<Rightarrow>
          (case scan_quoted rest of
             None \<Rightarrow> ''''
           | Some (v, rest) \<Rightarrow>
               if key = name then (case unquote_value v of None \<Rightarrow> '''' | Some value \<Rightarrow> value)
               else StructTag_Get rest key))"
  by pat_completeness auto

termination
proof (relation "measure (\<lambda>(tag, key). length tag)", goal_cases)
  case (2 tag key x name rest x' v rest')
  then have "length rest' < length rest" and "length rest < length (dropWhile (\<lambda>c. c = CHR '' '') tag)"
    using scan_quoted_length tag_key_length by auto
  with length_dropWhile_le [of "\<lambda>c. c = CHR '' ''" tag] show ?case by simp
qed simp

declare StructTag_Get.simps [simp del]

text \<open>The name part of the \<open>json\<close> tag: what stands before the first comma, nothing for \<open>-\<close>.\<close>

definition json_tag :: "string \<Rightarrow> string" where
  "json_tag tag =
     (if tag = '''' then ''''
      else let jsonTag = StructTag_Get tag ''json'' in
           if jsonTag \<noteq> '''' \<and> jsonTag \<noteq> ''-'' then takeWhile (\<lambda>c. c \<noteq> CHR '','') jsonTag else '''')"

text \<open>The named types not yet entered, which bound the recursion below.\<close>

definition unseen :: "type_table \<Rightarrow> nat set \<Rightarrow> nat" where
  "unseen tt seen = card ({..<length (nameds tt)} - seen)"

lemma unseen_insert: "i \<notin> seen \<Longrightarrow> named_at tt i = Some n \<Longrightarrow> unseen tt (insert i seen) < unseen tt seen"
  unfolding unseen_def by (rule psubset_card_mono) (auto simp: named_at_def split: if_splits)

subsection \<open>Resolving\<close>

text \<open>
  The map \<open>seen\<close> is threaded through: \<open>seen[t] = true\<close> and the deferred \<open>delete\<close> around a named type;
  \<open>resolveInner\<close> is the second switch of that case, on slices, maps and pointers. An
  index without an entry, which the loader does not make, ends in the default branch.
\<close>

function (sequential)
  resolveTypeShapeImpl :: "type_table \<Rightarrow> gotype \<Rightarrow> nat set \<Rightarrow> TypeShape \<times> nat set" and
  resolveInner :: "type_table \<Rightarrow> gotype \<Rightarrow> nat set \<Rightarrow> TypeShape option \<times> TypeShape option \<times> nat set" and
  resolveStructFields :: "type_table \<Rightarrow> gofield list \<Rightarrow> nat set \<Rightarrow> FieldShape list \<times> nat set"
where
  "resolveTypeShapeImpl tt (Named i) seen =
     (if i \<in> seen then (leaf_shape (type_string tt (Named i)) ''recursive'', seen)
      else case named_at tt i of
        None \<Rightarrow> (leaf_shape (type_string tt (Named i)) ''unknown'', seen)
      | Some n \<Rightarrow>
          let seen = insert i seen;
              kind = kindFromUnderlying (n_under n);
              pkg = (case n_pkg n of None \<Rightarrow> '''' | Some path \<Rightarrow> path);
              (fields, seen) = (case n_under n of
                  Struct fs \<Rightarrow> resolveStructFields tt fs seen | _ \<Rightarrow> ([], seen));
              (elem, key, seen) = resolveInner tt (n_under n) seen
          in (TypeShape (n_name n) pkg kind fields elem key, seen - {i}))"
| "resolveTypeShapeImpl tt (Struct fs) seen =
     (let (fields, seen) = resolveStructFields tt fs seen
      in (TypeShape '''' '''' ''struct'' fields None None, seen))"
| "resolveTypeShapeImpl tt (Pointer t) seen =
     (let (elem, seen) = resolveTypeShapeImpl tt t seen
      in (TypeShape (''*'' @ ts_Name elem) '''' ''pointer'' [] (Some elem) None, seen))"
| "resolveTypeShapeImpl tt (Slice t) seen =
     (let (elem, seen) = resolveTypeShapeImpl tt t seen
      in (TypeShape (''[]'' @ ts_Name elem) '''' ''slice'' [] (Some elem) None, seen))"
| "resolveTypeShapeImpl tt (Map k v) seen =
     (let (key, seen) = resolveTypeShapeImpl tt k seen;
          (val, seen) = resolveTypeShapeImpl tt v seen
      in (TypeShape (''map['' @ ts_Name key @ '']'' @ ts_Name val) '''' ''map'' [] (Some val) (Some key), seen))"
| "resolveTypeShapeImpl tt (Basic b) seen = (leaf_shape (basic_name b) (basic_name b), seen)"
| "resolveTypeShapeImpl tt (Interface emptyI) seen =
     (if emptyI then (leaf_shape ''any'' ''interface'', seen)
      else (leaf_shape (type_string tt (Interface emptyI)) ''interface'', seen))"
| "resolveTypeShapeImpl tt t seen = (leaf_shape (type_string tt t) ''unknown'', seen)"
| "resolveInner tt (Slice t) seen =
     (let (elem, seen) = resolveTypeShapeImpl tt t seen in (Some elem, None, seen))"
| "resolveInner tt (Map k v) seen =
     (let (key, seen) = resolveTypeShapeImpl tt k seen;
          (val, seen) = resolveTypeShapeImpl tt v seen in (Some val, Some key, seen))"
| "resolveInner tt (Pointer t) seen =
     (let (elem, seen) = resolveTypeShapeImpl tt t seen in (Some elem, None, seen))"
| "resolveInner tt t seen = (None, None, seen)"
| "resolveStructFields tt [] seen = ([], seen)"
| "resolveStructFields tt (Field name exported t tag # fs) seen =
     (if \<not> exported then resolveStructFields tt fs seen
      else let (shape, seen) = resolveTypeShapeImpl tt t seen;
               (shapes, seen) = resolveStructFields tt fs seen
           in (FieldShape name shape (json_tag tag) # shapes, seen))"
  by pat_completeness auto

text \<open>
  On return \<open>seen\<close> is as it was, since the deferred \<open>delete\<close> undoes the insertion; so entering a named type leaves
  fewer of them to enter.
\<close>

termination
proof -
  have same: "resolveTypeShapeImpl_resolveInner_resolveStructFields_dom (Inl (tt, t, seen)) \<Longrightarrow> snd (resolveTypeShapeImpl tt t seen) = seen"
    "resolveTypeShapeImpl_resolveInner_resolveStructFields_dom (Inr (Inl (tt, t, seen))) \<Longrightarrow> snd (snd (resolveInner tt t seen)) = seen"
    "resolveTypeShapeImpl_resolveInner_resolveStructFields_dom (Inr (Inr (tt, fs, seen))) \<Longrightarrow> snd (resolveStructFields tt fs seen) = seen"
    for tt t seen fs
  proof (induct rule: resolveTypeShapeImpl_resolveInner_resolveStructFields.pinduct)
    case (1 tt i seen)
    show ?case
    proof (cases "named_at tt i")
      case None
      with 1(1) show ?thesis by (simp add: resolveTypeShapeImpl.psimps)
    next
      case (Some n)
      define fp where "fp = (case n_under n of Struct fs \<Rightarrow> resolveStructFields tt fs (insert i seen)
        | _ \<Rightarrow> ([], insert i seen))"
      have "snd fp = insert i seen" if "i \<notin> seen"
        using 1(2) [OF that Some refl refl refl] by (simp add: fp_def split: gotype.split)
      moreover have "snd (snd (resolveInner tt (n_under n) (snd fp))) = snd fp" if "i \<notin> seen"
        by (rule 1(3) [OF that Some refl refl refl, of fp "fst fp" "snd fp"]) (simp_all add: fp_def)
      ultimately show ?thesis
        using 1(1) Some by (simp add: resolveTypeShapeImpl.psimps Let_def split_beta fp_def [symmetric])
    qed
  qed (simp_all add: resolveTypeShapeImpl.psimps resolveInner.psimps resolveStructFields.psimps
      split_beta Let_def prod_eq_iff, metis fst_conv snd_conv)
  have pair: "resolveTypeShapeImpl_resolveInner_resolveStructFields_dom (Inl (tt, t, seen)) \<Longrightarrow> (x, y) = resolveTypeShapeImpl tt t seen \<Longrightarrow> y = seen"
    "resolveTypeShapeImpl_resolveInner_resolveStructFields_dom (Inr (Inr (tt, fs, seen))) \<Longrightarrow> (z, y) = resolveStructFields tt fs seen \<Longrightarrow> y = seen"
    for tt t seen fs x y z
    using same(1) [of tt t seen] same(3) [of tt fs seen] by (metis snd_conv)+
  show ?thesis
  proof (relation "measures
      [case_sum (\<lambda>(tt, t, seen). unseen tt seen)
         (case_sum (\<lambda>(tt, t, seen). unseen tt seen) (\<lambda>(tt, fs, seen). unseen tt seen)),
       case_sum (\<lambda>(tt, t, seen). size t)
         (case_sum (\<lambda>(tt, t, seen). size t) (\<lambda>(tt, fs, seen). size_list size fs))]",
      goal_cases)
    case (3 tt i seen n s k p fp fs seen')
    have "seen' = insert i seen"
      using 3 pair(2) [of tt _ "insert i seen" fs seen'] by (auto split: gotype.splits)
    with 3 show ?case by (simp add: unseen_insert)
  qed (auto simp: unseen_insert dest: pair)
qed

lemma resolve_seen [simp]:
  "snd (resolveTypeShapeImpl tt t seen) = seen"
  "snd (snd (resolveInner tt t seen)) = seen"
  "snd (resolveStructFields tt fs seen) = seen"
proof (induct tt t seen and tt t seen and tt fs seen rule: resolveTypeShapeImpl_resolveInner_resolveStructFields.induct)
  case (1 tt i seen)
  have "snd (resolveTypeShapeImpl tt (Named i) seen) = seen" if n: "i \<notin> seen" "named_at tt i = Some n" for n
  proof -
    have "snd (case n_under n of Struct fs \<Rightarrow> resolveStructFields tt fs (insert i seen) | _ \<Rightarrow> ([], insert i seen)) =
        insert i seen" (is "snd ?fp = _")
      using 1(1) [OF n refl refl refl] by (simp split: gotype.split)
    moreover have "snd (snd (resolveInner tt (n_under n) (snd ?fp))) = snd ?fp"
      by (rule 1(2) [OF n refl refl refl, of ?fp "fst ?fp" "snd ?fp"]) simp_all
    ultimately show ?thesis using n by (simp add: Let_def split_beta)
  qed
  then show ?case by (cases "named_at tt i") auto
qed (simp_all add: split_beta Let_def prod_eq_iff, metis fst_conv snd_conv)

definition resolveTypeShape :: "type_table \<Rightarrow> gotype option \<Rightarrow> TypeShape" where
  "resolveTypeShape tt t =
     (case t of None \<Rightarrow> leaf_shape ''<unknown>'' ''unknown''
      | Some t \<Rightarrow> fst (resolveTypeShapeImpl tt t {}))"

subsection \<open>The equations without the threaded map\<close>

abbreviation shape :: "type_table \<Rightarrow> nat set \<Rightarrow> gotype \<Rightarrow> TypeShape" where
  "shape tt seen t \<equiv> fst (resolveTypeShapeImpl tt t seen)"

abbreviation field_shapes :: "type_table \<Rightarrow> nat set \<Rightarrow> gofield list \<Rightarrow> FieldShape list" where
  "field_shapes tt seen fs \<equiv> fst (resolveStructFields tt fs seen)"

definition under_fields :: "type_table \<Rightarrow> nat set \<Rightarrow> gotype \<Rightarrow> FieldShape list" where
  "under_fields tt seen u = (case u of Struct fs \<Rightarrow> field_shapes tt seen fs | _ \<Rightarrow> [])"

definition under_elem :: "type_table \<Rightarrow> nat set \<Rightarrow> gotype \<Rightarrow> TypeShape option" where
  "under_elem tt seen u = fst (resolveInner tt u seen)"

definition under_key :: "type_table \<Rightarrow> nat set \<Rightarrow> gotype \<Rightarrow> TypeShape option" where
  "under_key tt seen u = fst (snd (resolveInner tt u seen))"

definition pkg_text :: "string option \<Rightarrow> string" where
  "pkg_text p = (case p of None \<Rightarrow> '''' | Some path \<Rightarrow> path)"

lemma shape_Named:
  "shape tt seen (Named i) =
     (if i \<in> seen then leaf_shape (type_string tt (Named i)) ''recursive''
      else case named_at tt i of
        None \<Rightarrow> leaf_shape (type_string tt (Named i)) ''unknown''
      | Some n \<Rightarrow> TypeShape (n_name n) (pkg_text (n_pkg n)) (kindFromUnderlying (n_under n))
          (under_fields tt (insert i seen) (n_under n)) (under_elem tt (insert i seen) (n_under n))
          (under_key tt (insert i seen) (n_under n)))"
  by (simp add: split_beta Let_def under_fields_def under_elem_def under_key_def pkg_text_def
      split: option.split gotype.split)

lemma shape_simps:
  "shape tt seen (Struct fs) = TypeShape '''' '''' ''struct'' (field_shapes tt seen fs) None None"
  "shape tt seen (Pointer t) =
     TypeShape (''*'' @ ts_Name (shape tt seen t)) '''' ''pointer'' [] (Some (shape tt seen t)) None"
  "shape tt seen (Slice t) =
     TypeShape (''[]'' @ ts_Name (shape tt seen t)) '''' ''slice'' [] (Some (shape tt seen t)) None"
  "shape tt seen (Map k v) =
     TypeShape (''map['' @ ts_Name (shape tt seen k) @ '']'' @ ts_Name (shape tt seen v)) '''' ''map'' []
       (Some (shape tt seen v)) (Some (shape tt seen k))"
  by (simp_all add: split_beta Let_def)

lemma field_shapes_simps:
  "field_shapes tt seen [] = []"
  "field_shapes tt seen (Field name exported t tag # fs) =
     (if exported then FieldShape name (shape tt seen t) (json_tag tag) # field_shapes tt seen fs
      else field_shapes tt seen fs)"
  by (simp_all add: split_beta Let_def)

lemma under_elem_eq:
  "under_elem tt seen u = (case u of Slice t \<Rightarrow> Some (shape tt seen t) | Map k v \<Rightarrow> Some (shape tt seen v)
     | Pointer t \<Rightarrow> Some (shape tt seen t) | _ \<Rightarrow> None)"
  by (cases u) (simp_all add: under_elem_def split_beta Let_def)

lemma under_key_eq:
  "under_key tt seen u = (case u of Map k v \<Rightarrow> Some (shape tt seen k) | _ \<Rightarrow> None)"
  by (cases u) (simp_all add: under_key_def split_beta Let_def)

lemmas under_eqs = under_fields_def under_elem_eq under_key_eq

text \<open>The exported fields, in order.\<close>

lemma field_shapes_eq:
  "field_shapes tt seen fs =
     map (\<lambda>f. FieldShape (f_name f) (shape tt seen (f_type f)) (json_tag (f_tag f))) (filter f_exported fs)"
proof (induction fs)
  case (Cons f fs)
  then show ?case by (cases f) (simp only: field_shapes_simps filter.simps list.map gofield.sel if_split, simp)
qed (simp only: field_shapes_simps filter.simps list.map)

lemma shape_leaf:
  "shape tt seen (Basic b) = leaf_shape (basic_name b) (basic_name b)"
  "shape tt seen (Interface e) =
     leaf_shape (if e then ''any'' else type_string tt (Interface e)) ''interface''"
  "shape tt seen (Alias i t) = leaf_shape (type_string tt (Alias i t)) ''unknown''"
  "shape tt seen (Tuple ts) = leaf_shape (type_string tt (Tuple ts)) ''unknown''"
  "shape tt seen (OtherType i) = leaf_shape (type_string tt (OtherType i)) ''unknown''"
  by simp_all

lemmas shape_eqs = shape_Named shape_simps shape_leaf field_shapes_simps

declare resolveTypeShapeImpl.simps [simp del] resolveInner.simps [simp del] resolveStructFields.simps [simp del]

text \<open>The types \<open>resolveInner\<close> resolves.\<close>

fun inner_types :: "gotype \<Rightarrow> gotype list" where
  "inner_types (Slice t) = [t]"
| "inner_types (Map k v) = [k, v]"
| "inner_types (Pointer t) = [t]"
| "inner_types t = []"

lemma shape_induct [case_names Named Struct Other Nil Field]:
  assumes "\<And>i seen. (\<And>n t. i \<notin> seen \<Longrightarrow> named_at tt i = Some n \<Longrightarrow> t \<in> set (inner_types (n_under n)) \<Longrightarrow>
        P t (insert i seen)) \<Longrightarrow>
      (\<And>n fs. i \<notin> seen \<Longrightarrow> named_at tt i = Some n \<Longrightarrow> n_under n = Struct fs \<Longrightarrow> R fs (insert i seen)) \<Longrightarrow>
      P (Named i) seen"
    and "\<And>fs seen. R fs seen \<Longrightarrow> P (Struct fs) seen"
    and "\<And>t seen. (\<And>t'. t' \<in> set (inner_types t) \<Longrightarrow> P t' seen) \<Longrightarrow>
      (\<forall>i. t \<noteq> Named i) \<Longrightarrow> (\<forall>fs. t \<noteq> Struct fs) \<Longrightarrow> P t seen"
    and "\<And>seen. R [] seen"
    and "\<And>name exported t tag fs seen. (exported \<Longrightarrow> P t seen) \<Longrightarrow> R fs seen \<Longrightarrow>
      R (Field name exported t tag # fs) seen"
  shows "P t seen" and "R fs seen"
proof -
  have composite: "P (Pointer t) seen" "P (Slice t) seen" if "P t seen" for t seen
    using that by (auto intro: assms(3))
  have composite2: "P (Map k v) seen" if "P k seen" "P v seen" for k v seen
    using that by (auto intro: assms(3))
  have leaf: "P (Basic b) seen" "P (Interface e) seen" "P (Alias i t) seen" "P (Tuple ts) seen"
    "P (OtherType i) seen" for b e i t ts seen
    by (rule assms(3); simp)+
  note composite = composite composite2 leaf
  have "tt' = tt \<longrightarrow> P t seen" and "tt' = tt \<longrightarrow> (\<forall>t' \<in> set (inner_types t). P t' seen)" and "tt' = tt \<longrightarrow> R fs seen" for tt'
  proof (induct tt' t seen and tt' t seen and tt' fs seen rule: resolveTypeShapeImpl_resolveInner_resolveStructFields.induct)
    case (1 tt' i seen)
    show ?case
    proof (intro impI assms(1))
      fix n t assume eq: "tt' = tt" and n: "i \<notin> seen" "named_at tt i = Some n" "t \<in> set (inner_types (n_under n))"
      define fp where "fp = (case n_under n of Struct fs \<Rightarrow> resolveStructFields tt' fs (insert i seen)
        | _ \<Rightarrow> ([], insert i seen))"
      have "snd fp = insert i seen" by (simp add: fp_def split: gotype.split)
      with 1(2) [OF n(1) n(2) [folded eq] refl refl refl, of fp "fst fp" "snd fp"] eq n(3)
      show "P t (insert i seen)" by (simp add: fp_def)
    next
      fix n fs assume "tt' = tt" "i \<notin> seen" "named_at tt i = Some n" "n_under n = Struct fs"
      with 1(1) show "R fs (insert i seen)" by simp
    qed
  next
    case (5 tt' k v seen)
    from 5(2) [OF refl, of "shape tt' seen k" seen] have "tt' = tt \<longrightarrow> P v seen" by (simp add: prod_eq_iff)
    with 5(1) show ?case by (auto intro: composite)
  next
    case (10 tt' k v seen)
    from 10(2) [OF refl, of "shape tt' seen k" seen] 10(1) show ?case by (simp add: prod_eq_iff)
  next
    case (14 tt' name exported t tag fs seen)
    from 14(3) [OF _ refl, of "shape tt' seen t" seen] have "exported \<Longrightarrow> tt' = tt \<longrightarrow> R fs seen"
      by (simp add: prod_eq_iff)
    with 14(1,2) assms(5) show ?case by blast
  qed (simp_all add: assms(2,4) composite)
  then show "P t seen" and "R fs seen" by blast+
qed

end
