(* ===== verification/Shapes.thy ===== *)
theory Shapes
  imports GoTypes
begin

section \<open>Properties of shapes\<close>

text \<open>
  What \<^verbatim>\<open>resolve.go\<close> makes of a type: every node of a shape is well-formed, a named type is cut exactly
  where it contains itself, and without such a cycle a named type has the shape of its underlying
  type. The tags: what \<open>StructTag.Get\<close> finds in a tag of the conventional form.
\<close>

subsection \<open>The nodes of a shape\<close>

fun subshapes :: "TypeShape \<Rightarrow> TypeShape list" and field_subshapes :: "FieldShape \<Rightarrow> TypeShape list" where
  "subshapes (TypeShape name pkg kind flds elem key) =
     TypeShape name pkg kind flds elem key # concat (map field_subshapes flds) @
     (case elem of None \<Rightarrow> [] | Some e \<Rightarrow> subshapes e) @ (case key of None \<Rightarrow> [] | Some k \<Rightarrow> subshapes k)"
| "field_subshapes (FieldShape name t tag) = subshapes t"

definition nodes :: "FieldShape list \<Rightarrow> TypeShape option \<Rightarrow> TypeShape option \<Rightarrow> TypeShape set" where
  "nodes flds elem key = (\<Union>f \<in> set flds. set (field_subshapes f)) \<union>
     (case elem of None \<Rightarrow> {} | Some e \<Rightarrow> set (subshapes e)) \<union>
     (case key of None \<Rightarrow> {} | Some k \<Rightarrow> set (subshapes k))"

lemma set_subshapes [simp]:
  "set (subshapes (TypeShape name pkg kind flds elem key)) =
     insert (TypeShape name pkg kind flds elem key) (nodes flds elem key)"
  by (auto simp: nodes_def split: option.splits)

declare subshapes.simps [simp del]

lemma subshapes_leaf [simp]: "subshapes (leaf_shape name kind) = [leaf_shape name kind]"
  by (simp add: leaf_shape_def subshapes.simps)

lemma nodes_simps [simp]:
  "nodes [] None None = {}"
  "nodes (f # fs) elem key = set (field_subshapes f) \<union> nodes fs elem key"
  "nodes [] (Some e) key = set (subshapes e) \<union> nodes [] None key"
  "nodes [] None (Some k) = set (subshapes k)"
  by (auto simp: nodes_def)

text \<open>The nodes below a named type, by the form of its underlying type.\<close>

lemma under_nodes:
  "nodes (under_fields tt seen u) (under_elem tt seen u) (under_key tt seen u) =
     (case u of Struct fs \<Rightarrow> nodes (field_shapes tt seen fs) None None
      | _ \<Rightarrow> (\<Union>t \<in> set (inner_types u). set (subshapes (shape tt seen t))))"
  by (cases u) (auto simp: under_eqs)

subsection \<open>Well-formed nodes\<close>

definition wf_node :: "TypeShape \<Rightarrow> bool" where
  "wf_node s \<longleftrightarrow>
     (ts_Elem s \<noteq> None \<longleftrightarrow> ts_Kind s \<in> {''pointer'', ''slice'', ''map''}) \<and>
     (ts_Key s \<noteq> None \<longleftrightarrow> ts_Kind s = ''map'') \<and>
     (ts_Fields s \<noteq> [] \<longrightarrow> ts_Kind s = ''struct'')"

lemma basic_name_kinds [simp]:
  "basic_name b \<noteq> ''pointer''" "basic_name b \<noteq> ''slice''" "basic_name b \<noteq> ''map''"
  "basic_name b \<noteq> ''struct''" "basic_name b \<noteq> ''recursive''"
  by (cases b; simp)+

lemma wf_node_leaf [simp]:
  "kind \<notin> {''pointer'', ''slice'', ''map''} \<Longrightarrow> wf_node (leaf_shape name kind)"
  by (simp add: wf_node_def leaf_shape_def)

lemma wf_node_under:
  "wf_node (TypeShape name pkg (kindFromUnderlying u) (under_fields tt seen u) (under_elem tt seen u)
     (under_key tt seen u))"
  by (cases u) (simp_all add: wf_node_def under_eqs)

lemma shape_wf:
  "\<forall>s \<in> set (subshapes (shape tt seen t)). wf_node s"
  "\<forall>s \<in> nodes (field_shapes tt seen fs) None None. wf_node s"
proof (induct t seen and fs seen rule: shape_induct [where tt = tt])
  case (Named i seen)
  show ?case
  proof (cases "i \<notin> seen \<and> named_at tt i \<noteq> None")
    case False
    then show ?thesis by (auto simp: shape_Named split: option.splits)
  next
    case True
    then obtain n where n: "i \<notin> seen" "named_at tt i = Some n" by blast
    have "\<forall>t \<in> set (inner_types (n_under n)). \<forall>s \<in> set (subshapes (shape tt (insert i seen) t)). wf_node s"
      using Named(1) [OF n] by blast
    moreover have "\<forall>fs. n_under n = Struct fs \<longrightarrow>
        (\<forall>s \<in> nodes (field_shapes tt (insert i seen) fs) None None. wf_node s)"
      using Named(2) [OF n] by blast
    ultimately have below: "\<forall>s \<in> nodes (under_fields tt (insert i seen) (n_under n))
        (under_elem tt (insert i seen) (n_under n)) (under_key tt (insert i seen) (n_under n)). wf_node s"
      by (cases "n_under n") (auto simp: under_nodes)
    then show ?thesis using n wf_node_under by (simp add: shape_Named)
  qed
next
  case (Other t seen)
  then show ?case by (cases t) (auto simp: shape_simps shape_leaf wf_node_def leaf_shape_def)
qed (auto simp: shape_simps field_shapes_simps wf_node_def)

text \<open>Every node of an extracted shape is well-formed: it has an element exactly if it is a pointer, a
  slice or a map, a key exactly if it is a map, and fields only if it is a struct.\<close>

theorem shape_nodes_well_formed:
  "s \<in> set (subshapes (resolveTypeShape tt t)) \<Longrightarrow> wf_node s"
  using shape_wf(1) [where tt = tt and seen = "{}"] by (auto simp: resolveTypeShape_def split: option.splits)

subsection \<open>Where a type is cut\<close>

text \<open>The named types met in a type before another named type is entered.\<close>

fun names :: "gotype \<Rightarrow> nat set" and field_names :: "gofield \<Rightarrow> nat set" where
  "names (Named i) = {i}"
| "names (Struct fs) = (\<Union>f \<in> set fs. field_names f)"
| "names (Pointer t) = names t"
| "names (Slice t) = names t"
| "names (Map k v) = names k \<union> names v"
| "names t = {}"
| "field_names (Field name exported t tag) = (if exported then names t else {})"

definition under_names :: "gotype \<Rightarrow> nat set" where
  "under_names u = (case u of Named i \<Rightarrow> {} | _ \<Rightarrow> names u)"

definition follow :: "type_table \<Rightarrow> (nat \<times> nat) set" where
  "follow tt = {(i, j). \<exists>n. named_at tt i = Some n \<and> j \<in> under_names (n_under n)}"

definition reached :: "type_table \<Rightarrow> nat set \<Rightarrow> nat set" where
  "reached tt I = (follow tt)\<^sup>* `` I"

definition has_cut :: "TypeShape set \<Rightarrow> bool" where
  "has_cut S \<longleftrightarrow> (\<exists>s \<in> S. ts_Kind s = ''recursive'')"

lemma kindFromUnderlying_not_recursive [simp]: "kindFromUnderlying u \<noteq> ''recursive''"
  by (cases u) simp_all

lemma has_cut_simps [simp]:
  "has_cut {} = False" "has_cut (insert s S) \<longleftrightarrow> ts_Kind s = ''recursive'' \<or> has_cut S"
  "has_cut (S \<union> T) \<longleftrightarrow> has_cut S \<or> has_cut T"
  by (auto simp: has_cut_def)

lemma has_cut_UN [simp]: "has_cut (\<Union>x \<in> A. f x) \<longleftrightarrow> (\<exists>x \<in> A. has_cut (f x))"
  by (auto simp: has_cut_def)

lemma reached_simps [simp]:
  "reached tt {} = {}" "reached tt (A \<union> B) = reached tt A \<union> reached tt B"
  by (auto simp: reached_def)

lemma reached_UN [simp]: "reached tt (\<Union>x \<in> A. f x) = (\<Union>x \<in> A. reached tt (f x))"
  by (auto simp: reached_def)

lemma follow_step:
  "named_at tt i = Some n \<Longrightarrow> reached tt {i} = insert i (reached tt (under_names (n_under n)))"
proof -
  assume "named_at tt i = Some n"
  then have edge: "(i, j) \<in> follow tt \<longleftrightarrow> j \<in> under_names (n_under n)" for j
    by (simp add: follow_def)
  show ?thesis
  proof (intro set_eqI iffI)
    fix x assume "x \<in> reached tt {i}"
    then have "(i, x) \<in> (follow tt)\<^sup>*" by (simp add: reached_def)
    then show "x \<in> insert i (reached tt (under_names (n_under n)))"
      by (cases rule: converse_rtranclE) (auto simp: edge reached_def)
  next
    fix x assume "x \<in> insert i (reached tt (under_names (n_under n)))"
    then show "x \<in> reached tt {i}"
      by (auto simp: reached_def edge [symmetric] intro: converse_rtrancl_into_rtrancl)
  qed
qed

lemma follow_none: "named_at tt i = None \<Longrightarrow> reached tt {i} = {i}"
proof -
  assume "named_at tt i = None"
  then have "(i, j) \<notin> follow tt" for j by (simp add: follow_def)
  then show ?thesis by (auto simp: reached_def elim: converse_rtranclE)
qed

lemma loop_iff:
  "named_at tt i = Some n \<Longrightarrow> (i, i) \<in> (follow tt)\<^sup>+ \<longleftrightarrow> i \<in> reached tt (under_names (n_under n))"
proof -
  assume "named_at tt i = Some n"
  then have edge: "(i, j) \<in> follow tt \<longleftrightarrow> j \<in> under_names (n_under n)" for j
    by (simp add: follow_def)
  show ?thesis by (auto simp: reached_def trancl_unfold_left edge relcomp_unfold)
qed

lemma no_loop: "named_at tt i = None \<Longrightarrow> (i, i) \<notin> (follow tt)\<^sup>+"
proof -
  assume "named_at tt i = None"
  then have "(i, j) \<notin> follow tt" for j by (simp add: follow_def)
  then show ?thesis by (auto simp: trancl_unfold_left)
qed

text \<open>A node is cut exactly if a type of \<open>seen\<close>, or a type that contains itself, is reached.\<close>

definition meets :: "type_table \<Rightarrow> nat set \<Rightarrow> nat set \<Rightarrow> bool" where
  "meets tt seen I \<longleftrightarrow> (\<exists>j \<in> reached tt I. j \<in> seen \<or> (j, j) \<in> (follow tt)\<^sup>+)"

lemma meets_simps [simp]:
  "meets tt seen {} = False" "meets tt seen (A \<union> B) \<longleftrightarrow> meets tt seen A \<or> meets tt seen B"
  "meets tt seen (\<Union>x \<in> C. f x) \<longleftrightarrow> (\<exists>x \<in> C. meets tt seen (f x))"
  by (auto simp: meets_def)

lemma meets_Named:
  "meets tt seen {i} \<longleftrightarrow> i \<in> seen \<or>
     (\<exists>n. named_at tt i = Some n \<and> meets tt (insert i seen) (under_names (n_under n)))"
proof (cases "named_at tt i")
  case None
  then show ?thesis by (simp add: meets_def follow_none no_loop)
next
  case (Some n)
  then show ?thesis by (auto simp: meets_def follow_step loop_iff)
qed

lemma under_names_inner:
  "(\<forall>fs. u \<noteq> Struct fs) \<Longrightarrow> under_names u = (\<Union>t \<in> set (inner_types u). names t)"
  by (cases u) (auto simp: under_names_def)

lemma shape_cut:
  "has_cut (set (subshapes (shape tt seen t))) \<longleftrightarrow> meets tt seen (names t)"
  "has_cut (nodes (field_shapes tt seen fs) None None) \<longleftrightarrow> meets tt seen (\<Union>f \<in> set fs. field_names f)"
proof (induct t seen and fs seen rule: shape_induct [where tt = tt])
  case (Named i seen)
  show ?case
  proof (cases "i \<notin> seen \<and> named_at tt i \<noteq> None")
    case False
    then show ?thesis by (auto simp: shape_Named meets_Named leaf_shape_def split: option.splits)
  next
    case True
    then obtain n where n: "i \<notin> seen" "named_at tt i = Some n" by blast
    have "has_cut (nodes (under_fields tt (insert i seen) (n_under n))
        (under_elem tt (insert i seen) (n_under n)) (under_key tt (insert i seen) (n_under n))) \<longleftrightarrow>
      meets tt (insert i seen) (under_names (n_under n))"
    proof (cases "\<exists>fs. n_under n = Struct fs")
      case True
      with Named(2) [OF n] show ?thesis by (auto simp: under_nodes under_names_def)
    next
      case False
      have "has_cut (set (subshapes (shape tt (insert i seen) t))) = meets tt (insert i seen) (names t)"
        if "t \<in> set (inner_types (n_under n))" for t
        using Named(1) [OF n that] .
      with False show ?thesis
        by (cases "n_under n") (simp_all add: under_nodes under_names_def)
    qed
    with n show ?thesis by (simp add: shape_Named meets_Named)
  qed
next
  case (Other t seen)
  then show ?case by (cases t) (auto simp: shape_simps shape_leaf leaf_shape_def)
qed (auto simp: shape_simps field_shapes_simps)

text \<open>C35: a type is cut with kind \<open>recursive\<close> exactly if its exported parts reach a named type that contains
  itself; in particular no type that can be printed in full is cut, however often it occurs.\<close>

theorem cut_exactly_on_cycles:
  "(\<exists>s \<in> set (subshapes (resolveTypeShape tt (Some t))). ts_Kind s = ''recursive'') \<longleftrightarrow>
     (\<exists>i \<in> names t. \<exists>j. (i, j) \<in> (follow tt)\<^sup>* \<and> (j, j) \<in> (follow tt)\<^sup>+)"
  using shape_cut(1) [where tt = tt and seen = "{}" and t = t]
  by (auto simp: resolveTypeShape_def has_cut_def meets_def reached_def)

subsection \<open>Without a cycle\<close>

text \<open>Where nothing is cut, what has been entered before does not matter.\<close>

lemma under_cong:
  assumes "\<And>t. t \<in> set (inner_types u) \<Longrightarrow> shape tt seen t = shape tt seen' t"
    and "\<And>fs. u = Struct fs \<Longrightarrow> field_shapes tt seen fs = field_shapes tt seen' fs"
  shows "under_fields tt seen u = under_fields tt seen' u \<and> under_elem tt seen u = under_elem tt seen' u \<and>
    under_key tt seen u = under_key tt seen' u"
  using assms by (cases u) (simp_all add: under_eqs)

lemma shape_seen_irrelevant:
  "\<forall>seen'. \<not> meets tt seen (names t) \<longrightarrow> \<not> meets tt seen' (names t) \<longrightarrow> shape tt seen t = shape tt seen' t"
  "\<forall>seen'. \<not> meets tt seen (\<Union>f \<in> set fs. field_names f) \<longrightarrow> \<not> meets tt seen' (\<Union>f \<in> set fs. field_names f) \<longrightarrow>
     field_shapes tt seen fs = field_shapes tt seen' fs"
proof (induct t seen and fs seen rule: shape_induct [where tt = tt])
  case (Named i seen)
  show ?case
  proof (intro allI impI)
    fix seen'
    assume free: "\<not> meets tt seen (names (Named i))" "\<not> meets tt seen' (names (Named i))"
    show "shape tt seen (Named i) = shape tt seen' (Named i)"
    proof (cases "named_at tt i")
      case None
      with free show ?thesis by (simp add: shape_Named meets_Named)
    next
      case (Some n)
      with free have n: "i \<notin> seen" "i \<notin> seen'" "\<not> meets tt (insert i seen) (under_names (n_under n))"
        "\<not> meets tt (insert i seen') (under_names (n_under n))"
        by (simp_all add: meets_Named)
      have inner: "shape tt (insert i seen) t = shape tt (insert i seen') t" if "t \<in> set (inner_types (n_under n))" for t
      proof -
        have "names t \<subseteq> under_names (n_under n)" using that by (cases "n_under n") (auto simp: under_names_def)
        then have "under_names (n_under n) = names t \<union> under_names (n_under n)" by blast
        then have "\<not> meets tt (insert i seen) (names t)" "\<not> meets tt (insert i seen') (names t)"
          using n(3,4) meets_simps(2) by metis+
        from Named(1) [OF n(1) Some that, rule_format, OF this] show ?thesis .
      qed
      have flds: "field_shapes tt (insert i seen) fs = field_shapes tt (insert i seen') fs"
        if "n_under n = Struct fs" for fs
      proof -
        have "\<not> meets tt (insert i seen) (\<Union>f \<in> set fs. field_names f)"
          "\<not> meets tt (insert i seen') (\<Union>f \<in> set fs. field_names f)"
          using n(3,4) that by (simp_all add: under_names_def)
        from Named(2) [OF n(1) Some that, rule_format, OF this] show ?thesis .
      qed
      have "under_fields tt (insert i seen) (n_under n) = under_fields tt (insert i seen') (n_under n)"
        "under_elem tt (insert i seen) (n_under n) = under_elem tt (insert i seen') (n_under n)"
        "under_key tt (insert i seen) (n_under n) = under_key tt (insert i seen') (n_under n)"
        using under_cong [of "n_under n" tt "insert i seen" "insert i seen'", OF inner flds] by simp_all
      with n(1,2) Some show ?thesis by (simp add: shape_Named)
    qed
  qed
next
  case (Other t seen)
  show ?case
  proof (intro allI impI)
    fix seen' assume free: "\<not> meets tt seen (names t)" "\<not> meets tt seen' (names t)"
    have inner: "shape tt seen t' = shape tt seen' t'" if t': "t' \<in> set (inner_types t)" for t'
    proof -
      have "names t = names t' \<union> names t" using t' by (cases t) auto
      then have "\<not> meets tt seen (names t')" "\<not> meets tt seen' (names t')"
        using free meets_simps(2) by metis+
      from Other(1) [OF t', rule_format, OF this] show ?thesis .
    qed
    then show "shape tt seen t = shape tt seen' t"
      using Other(2,3) by (cases t) (simp_all add: shape_simps shape_leaf)
  qed
next
  case (Field name exported t tag fs seen)
  show ?case
  proof (intro allI impI)
    fix seen'
    assume free: "\<not> meets tt seen (\<Union>f \<in> set (Field name exported t tag # fs). field_names f)"
      "\<not> meets tt seen' (\<Union>f \<in> set (Field name exported t tag # fs). field_names f)"
    then have rest: "field_shapes tt seen fs = field_shapes tt seen' fs"
      using Field(2) [rule_format, of seen'] by simp
    have "shape tt seen t = shape tt seen' t" if exported
      using Field(1) [OF that, rule_format, of seen'] free that by simp
    with rest show "field_shapes tt seen (Field name exported t tag # fs) =
        field_shapes tt seen' (Field name exported t tag # fs)"
      by (simp add: field_shapes_simps)
  qed
next
  case (Struct fs seen)
  show ?case
  proof (intro allI impI)
    fix seen' assume "\<not> meets tt seen (names (Struct fs))" "\<not> meets tt seen' (names (Struct fs))"
    then show "shape tt seen (Struct fs) = shape tt seen' (Struct fs)"
      using Struct [rule_format, of seen'] by (simp add: shape_simps)
  qed
qed (simp add: field_shapes_simps)

lemma shape_of_under:
  assumes "\<forall>i. u \<noteq> Named i"
  shows "\<exists>name. shape tt seen u = TypeShape name '''' (kindFromUnderlying u) (under_fields tt seen u)
    (under_elem tt seen u) (under_key tt seen u)"
  using assms
  by (cases u) (simp_all add: shape_simps shape_leaf leaf_shape_def under_eqs)

text \<open>A shape under another name and package.\<close>

definition rename_shape :: "string \<Rightarrow> string \<Rightarrow> TypeShape \<Rightarrow> TypeShape" where
  "rename_shape name pkg s = TypeShape name pkg (ts_Kind s) (ts_Fields s) (ts_Elem s) (ts_Key s)"

text \<open>C36: a named type that does not reach a cycle has the shape of its underlying type, under its own name and
  package (the underlying type of \<^verbatim>\<open>go/types\<close> is never a named one).\<close>

theorem named_has_underlying_shape:
  assumes "named_at tt i = Some n" and "\<forall>k. n_under n \<noteq> Named k"
    and "\<forall>j. (i, j) \<in> (follow tt)\<^sup>* \<longrightarrow> (j, j) \<notin> (follow tt)\<^sup>+"
  shows "resolveTypeShape tt (Some (Named i)) =
    rename_shape (n_name n) (pkg_text (n_pkg n)) (resolveTypeShape tt (Some (n_under n)))"
proof -
  have "\<not> meets tt {} {i}" using assms(3) by (auto simp: meets_def reached_def)
  with assms(1) have free: "\<not> meets tt {i} (under_names (n_under n))" by (simp add: meets_Named)
  then have free': "\<not> meets tt {} (under_names (n_under n))" by (auto simp: meets_def)
  have u: "under_names (n_under n) = names (n_under n)" using assms(2) by (cases "n_under n") (simp_all add: under_names_def)
  have same: "shape tt {i} (n_under n) = shape tt {} (n_under n)"
    by (rule shape_seen_irrelevant(1) [rule_format, OF free [unfolded u] free' [unfolded u]])
  obtain nm where "shape tt {i} (n_under n) = TypeShape nm '''' (kindFromUnderlying (n_under n))
      (under_fields tt {i} (n_under n)) (under_elem tt {i} (n_under n)) (under_key tt {i} (n_under n))"
    using shape_of_under [OF assms(2)] by blast
  then show ?thesis
    using assms(1) by (simp add: resolveTypeShape_def shape_Named same [symmetric] rename_shape_def)
qed

subsection \<open>Tags\<close>

definition plain_value :: "string \<Rightarrow> bool" where
  "plain_value v \<longleftrightarrow> (\<forall>c \<in> set v. c \<noteq> tag_quote \<and> c \<noteq> tag_backslash \<and> c \<noteq> CHR 0x0A)"

definition tag_entry :: "string \<times> string \<Rightarrow> string" where
  "tag_entry kv = fst kv @ '':'' @ [tag_quote] @ snd kv @ [tag_quote]"

fun format_tag :: "(string \<times> string) list \<Rightarrow> string" where
  "format_tag [] = ''''"
| "format_tag [kv] = tag_entry kv"
| "format_tag (kv # kvs) = tag_entry kv @ '' '' @ format_tag kvs"

lemma scan_quoted_plain: "plain_value v \<Longrightarrow> scan_quoted (v @ tag_quote # rest) = Some (v, rest)"
  by (induction v) (auto simp: plain_value_def)

lemma unquote_plain: "plain_value v \<Longrightarrow> unquote_value v = Some v"
  by (induction v) (auto simp: plain_value_def)

lemma key_char_not_special [simp]: "\<not> key_char tag_quote" "\<not> key_char (CHR '':'')" "\<not> key_char (CHR '' '')"
  by (simp_all add: key_char_def)

lemma tag_key_entry:
  assumes "\<forall>c \<in> set k. key_char c" and "k \<noteq> ''''"
  shows "tag_key (k @ CHR '':'' # tag_quote # rest) = Some (k, rest)"
  using assms by (simp add: tag_key_def takeWhile_append2 dropWhile_append2)

lemma Get_entry:
  assumes "\<forall>c \<in> set k. key_char c" and "k \<noteq> ''''" and "plain_value v"
  shows "StructTag_Get (tag_entry (k, v) @ rest) key = (if key = k then v else StructTag_Get rest key)"
    and "StructTag_Get (CHR '' '' # tag) key = StructTag_Get tag key"
proof -
  have nosp: "dropWhile (\<lambda>c. c = CHR '' '') (k @ xs) = k @ xs" for xs
    using assms(1,2) key_char_not_special(3) by (cases k) auto
  have e: "tag_entry (k, v) @ rest = k @ CHR '':'' # tag_quote # (v @ tag_quote # rest)" by (simp add: tag_entry_def)
  show "StructTag_Get (tag_entry (k, v) @ rest) key = (if key = k then v else StructTag_Get rest key)"
    unfolding e using assms
    by (subst StructTag_Get.simps) (simp add: nosp tag_key_entry scan_quoted_plain unquote_plain)
  show "StructTag_Get (CHR '' '' # tag) key = StructTag_Get tag key"
    by (subst (1 2) StructTag_Get.simps) simp
qed

lemma Get_empty [simp]: "StructTag_Get '''' key = ''''"
  by (subst StructTag_Get.simps) (simp add: tag_key_def)

lemma struct_tag_lookup:
  assumes "\<forall>(k, v) \<in> set kvs. k \<noteq> '''' \<and> (\<forall>c \<in> set k. key_char c) \<and> plain_value v"
  shows "StructTag_Get (format_tag kvs) key = (case map_of kvs key of None \<Rightarrow> '''' | Some v \<Rightarrow> v)"
  using assms
proof (induction kvs rule: format_tag.induct)
  case (2 kv)
  then show ?case using Get_entry(1) [of "fst kv" "snd kv" "''''" key] by (auto simp: split_beta)
next
  case (3 kv kv' kvs)
  then have "StructTag_Get (format_tag (kv # kv' # kvs)) key =
      (if key = fst kv then snd kv else StructTag_Get (CHR '' '' # format_tag (kv' # kvs)) key)"
    using Get_entry(1) [of "fst kv" "snd kv" "CHR '' '' # format_tag (kv' # kvs)" key] by (auto simp: split_beta)
  moreover have "StructTag_Get (CHR '' '' # format_tag (kv' # kvs)) key = StructTag_Get (format_tag (kv' # kvs)) key"
    using 3(2) Get_entry(2) [of "fst kv" "snd kv"] by (auto simp: split_beta)
  ultimately show ?case using 3 by (auto split: option.splits)
qed simp

text \<open>The tag of a field in the conventional form gives the name that its first \<open>json\<close> entry has before the
  comma, and no name when there is no such entry or it is \<open>-\<close>, whatever the other entries are.\<close>

theorem json_name_round_trip:
  assumes "\<forall>(k, v) \<in> set kvs. k \<noteq> '''' \<and> (\<forall>c \<in> set k. key_char c) \<and> plain_value v"
  shows "json_tag (format_tag kvs) =
    (case map_of kvs ''json'' of None \<Rightarrow> ''''
     | Some v \<Rightarrow> if v = ''-'' then '''' else takeWhile (\<lambda>c. c \<noteq> CHR '','') v)"
  using struct_tag_lookup [OF assms, of "''json''"]
  by (auto simp: json_tag_def Let_def split: option.splits)

subsection \<open>Examples\<close>

text \<open>A list type that contains itself, an address, and an order with two addresses and a field of type \<open>any\<close>.\<close>

definition json_only :: "string \<Rightarrow> string" where
  "json_only v = format_tag [(''json'', v)]"

definition example_types :: type_table where
  "example_types = \<lparr>nameds =
     [\<lparr>n_name = ''List'', n_pkg = Some ''m'', n_under = Struct [Field ''Val'' True (Basic BInt) (json_only ''val''),
         Field ''Next'' True (Pointer (Named 0)) '''', Field ''size'' False (Named 0) ''''], n_targs = []\<rparr>,
      \<lparr>n_name = ''Address'', n_pkg = Some ''m'', n_under = Struct [Field ''City'' True (Basic BString)
         (json_only ''city,omitempty'')], n_targs = []\<rparr>,
      \<lparr>n_name = ''Order'', n_pkg = Some ''m'', n_under = Struct [Field ''From'' True (Pointer (Named 1)) '''',
         Field ''To'' True (Slice (Named 1)) '''', Field ''Extra'' True (Alias 0 (Interface True)) ''''],
         n_targs = []\<rparr>],
     type_string = (\<lambda>t. case t of Alias i u \<Rightarrow> ''any'' | _ \<Rightarrow> ''m.List'')\<rparr>"

lemma example_named:
  "named_at example_types 0 = Some (nameds example_types ! 0)"
  "named_at example_types (Suc 0) = Some (nameds example_types ! 1)"
  "named_at example_types 2 = Some (nameds example_types ! 2)"
  by (simp_all add: named_at_def example_types_def)

lemma json_only_get: "StructTag_Get (json_only v) ''json'' = (if plain_value v then v else StructTag_Get (json_only v) ''json'')"
proof (cases "plain_value v")
  case True
  have "StructTag_Get (format_tag [(''json'', v)]) ''json'' = v"
    using Get_entry(1) [of "''json''" v "''''" "''json''"] True by (simp add: key_char_def tag_quote_def)
  with True show ?thesis by (simp add: json_only_def)
qed simp

lemma json_only_tag: "plain_value v \<Longrightarrow> v \<noteq> '''' \<Longrightarrow> v \<noteq> ''-'' \<Longrightarrow> json_tag (json_only v) = takeWhile (\<lambda>c. c \<noteq> CHR '','') v"
proof -
  assume v: "plain_value v" "v \<noteq> ''''" "v \<noteq> ''-''"
  moreover have "json_only v \<noteq> ''''" by (simp add: json_only_def tag_entry_def)
  ultimately show ?thesis using json_only_get [of v] by (simp add: json_tag_def)
qed

lemma no_tag: "json_tag '''' = ''''"
  by (simp add: json_tag_def)

lemma list_shape:
  "resolveTypeShape example_types (Some (Named 0)) =
     TypeShape ''List'' ''m'' ''struct''
       [FieldShape ''Val'' (leaf_shape ''int'' ''int'') ''val'',
        FieldShape ''Next'' (TypeShape ''*m.List'' '''' ''pointer'' [] (Some (leaf_shape ''m.List'' ''recursive'')) None) '''']
       None None"
  by (simp add: resolveTypeShape_def shape_eqs example_named, simp add: example_types_def pkg_text_def under_eqs
      shape_eqs json_only_tag plain_value_def tag_quote_def tag_backslash_def no_tag leaf_shape_def)

lemma address_shape:
  "resolveTypeShape example_types (Some (Named 1)) =
     TypeShape ''Address'' ''m'' ''struct'' [FieldShape ''City'' (leaf_shape ''string'' ''string'') ''city''] None None"
  by (simp add: resolveTypeShape_def shape_eqs example_named, simp add: example_types_def pkg_text_def under_eqs
      shape_eqs json_only_tag plain_value_def tag_quote_def tag_backslash_def)

theorem shape_nodes_well_formed_witness:
  "wf_node (leaf_shape ''m.List'' ''recursive'')"
  by (rule shape_nodes_well_formed [of _ example_types "Some (Named 0)"]) (simp add: list_shape)

lemma address_names: "under_names (n_under (nameds example_types ! 1)) = {}"
  by (simp add: example_types_def under_names_def)

lemma address_alone: "reached example_types {1} = {1}"
  using follow_step [OF example_named(2)] by (simp only: address_names [unfolded One_nat_def] reached_simps One_nat_def)

theorem named_has_underlying_shape_witness:
  "resolveTypeShape example_types (Some (Named 1)) =
     rename_shape ''Address'' ''m'' (resolveTypeShape example_types (Some (n_under (nameds example_types ! 1))))"
proof -
  have "\<forall>j. (1, j) \<in> (follow example_types)\<^sup>* \<longrightarrow> (j, j) \<notin> (follow example_types)\<^sup>+"
  proof (intro allI impI)
    fix j assume "(1, j) \<in> (follow example_types)\<^sup>*"
    then have "j = 1" using address_alone by (auto simp: reached_def)
    then show "(j, j) \<notin> (follow example_types)\<^sup>+"
      using loop_iff [OF example_named(2)] by (simp only: address_names [unfolded One_nat_def] reached_simps One_nat_def) simp
  qed
  moreover have "named_at example_types 1 = Some (nameds example_types ! 1)" using example_named(2) by simp
  ultimately show ?thesis
    using named_has_underlying_shape [of example_types 1 "nameds example_types ! 1"]
    by (simp add: example_types_def pkg_text_def)
qed

theorem json_name_round_trip_witness:
  "json_tag (format_tag [(''xml'', ''uid''), (''json'', ''user_id,omitempty'')]) = ''user_id''"
  using json_name_round_trip [of "[(''xml'', ''uid''), (''json'', ''user_id,omitempty'')]"]
  by (simp add: key_char_def plain_value_def tag_quote_def tag_backslash_def)

text \<open>
  A field of type \<open>any\<close>: the type checker gives the alias, not the interface it stands for, so the field ends in the
  default branch, and the branch for the empty interface is not taken.
\<close>

lemma any_field_is_unknown:
  "resolveTypeShape tt (Some (Alias i (Interface True))) = leaf_shape (type_string tt (Alias i (Interface True))) ''unknown''"
  "resolveTypeShape tt (Some (Interface True)) = leaf_shape ''any'' ''interface''"
  by (simp_all add: resolveTypeShape_def shape_leaf)

end
