(* ===== verification/ContractDetect.thy ===== *)
theory ContractDetect
  imports Shapes GoErrors
begin

section \<open>Finding workflow definitions in Go code\<close>

text \<open>
  The syntax trees of \<^verbatim>\<open>go/ast\<close> as far as \<^verbatim>\<open>contract/detect.go\<close> and \<^verbatim>\<open>contract/walk.go\<close> look at them,
  the facts the type checker records about them, and the operations of \<^verbatim>\<open>detect.go\<close>. A node has an
  identity, which stands for its pointer: the maps of \<^verbatim>\<open>types.Info\<close> are keyed by it. Nodes of other
  kinds keep the name \<open>%T\<close> prints and their children. Children are in the order in which
  \<open>ast.Inspect\<close> visits them; identifiers that are only names (of a selector, a method) are left out,
  because no operation here looks at a bare identifier in passing. The packages themselves are what
  \<open>packages.Load\<close> returned.
\<close>

subsection \<open>Syntax trees and what the type checker knows\<close>

datatype node =
    CallExpr (nid: nat) node "node list"
  | SelectorExpr (nid: nat) node string
  | Ident (nid: nat) string
  | IndexExpr (nid: nat) node node
  | IndexListExpr (nid: nat) node "node list"
  | FuncLit (nid: nat) "node list" "node list"
  | BasicLit (nid: nat) string
  | UnaryExpr (nid: nat) node
  | CompositeLit (nid: nat) "node list"
  | StarExpr (nid: nat) node
  | ReturnStmt (nid: nat) "node list"
  | FuncDecl (nid: nat) string "node list" "node list" "node list"
  | OtherNode (nid: nat) string "node list"

text \<open>
  \<open>FuncLit\<close> has the nodes of its type and the statements of its body, \<open>FuncDecl\<close> its name, the types of
  its receivers, the nodes of its type and the statements of its body (none when it has no body).
\<close>

fun children :: "node \<Rightarrow> node list" where
  "children (CallExpr i f args) = f # args"
| "children (SelectorExpr i x sel) = [x]"
| "children (Ident i name) = []"
| "children (IndexExpr i x y) = [x, y]"
| "children (IndexListExpr i x ys) = x # ys"
| "children (FuncLit i ty body) = ty @ body"
| "children (BasicLit i v) = []"
| "children (UnaryExpr i x) = [x]"
| "children (CompositeLit i xs) = xs"
| "children (StarExpr i x) = [x]"
| "children (ReturnStmt i xs) = xs"
| "children (FuncDecl i name recv ty body) = recv @ ty @ body"
| "children (OtherNode i kind xs) = xs"

text \<open>\<open>%T\<close> of a node.\<close>

fun node_type :: "node \<Rightarrow> string" where
  "node_type (CallExpr i f args) = ''*ast.CallExpr''"
| "node_type (SelectorExpr i x sel) = ''*ast.SelectorExpr''"
| "node_type (Ident i name) = ''*ast.Ident''"
| "node_type (IndexExpr i x y) = ''*ast.IndexExpr''"
| "node_type (IndexListExpr i x ys) = ''*ast.IndexListExpr''"
| "node_type (FuncLit i ty body) = ''*ast.FuncLit''"
| "node_type (BasicLit i v) = ''*ast.BasicLit''"
| "node_type (UnaryExpr i x) = ''*ast.UnaryExpr''"
| "node_type (CompositeLit i xs) = ''*ast.CompositeLit''"
| "node_type (StarExpr i x) = ''*ast.StarExpr''"
| "node_type (ReturnStmt i xs) = ''*ast.ReturnStmt''"
| "node_type (FuncDecl i name recv ty body) = ''*ast.FuncDecl''"
| "node_type (OtherNode i kind xs) = kind"

text \<open>\<open>tv_value\<close> is \<open>ExactString\<close> of the constant value, if the expression is constant.\<close>

record type_and_value =
  tv_type :: gotype
  tv_value :: "string option"

datatype object = PkgName string | OtherObject

record package =
  syntax_files :: "node list list"
  types_info :: "nat \<Rightarrow> type_and_value option"
  uses_info :: "nat \<Rightarrow> object option"
  pkg_errors :: "string list"
  types :: type_table

definition type_of :: "package \<Rightarrow> node \<Rightarrow> gotype option" where
  "type_of pkg e = map_option tv_type (types_info pkg (nid e))"

definition const_of :: "package \<Rightarrow> node \<Rightarrow> string option" where
  "const_of pkg e = Option.bind (types_info pkg (nid e)) tv_value"

subsection \<open>Visiting\<close>

lemma children_size: "m \<in> set (children n) \<Longrightarrow> size m < size n"
  using size_list_estimation' [of m _ "size m" size] by (cases n) (auto simp: less_Suc_eq_le trans_le_add1 trans_le_add2)

text \<open>\<open>ast.Inspect\<close>: a node before its children, which are visited when the callback says so.\<close>

function inspect :: "(node \<Rightarrow> 's \<Rightarrow> bool \<times> 's) \<Rightarrow> node \<Rightarrow> 's \<Rightarrow> 's" where
  "inspect f n s = (let (down, s) = f n s in if down then fold (inspect f) (children n) s else s)"
  by pat_completeness auto

termination
  by (relation "measure (\<lambda>(f, n, s). size n)") (simp_all add: children_size)

declare inspect.simps [simp del]

subsection \<open>Calls of the library\<close>

definition flickerPkgPath :: string where
  "flickerPkgPath = ''github.com/flamingoosesoftwareinc/flicker''"

text \<open>The called expression without explicit type arguments.\<close>

fun callee :: "node \<Rightarrow> node" where
  "callee (IndexListExpr i x ys) = x"
| "callee (IndexExpr i x y) = x"
| "callee f = f"

definition isFlickerFunc :: "package \<Rightarrow> node \<Rightarrow> string \<Rightarrow> bool" where
  "isFlickerFunc pkg f funcName =
     (case callee f of
        SelectorExpr i x sel \<Rightarrow>
          sel = funcName \<and>
          (case x of
             Ident j name \<Rightarrow>
               (case uses_info pkg j of
                  Some (PkgName path) \<Rightarrow> path = flickerPkgPath
                | _ \<Rightarrow> False)
           | _ \<Rightarrow> False)
      | _ \<Rightarrow> False)"

definition unquote :: "string \<Rightarrow> string" where
  "unquote s =
     (if 2 \<le> length s \<and> hd s = CHR 0x22 \<and> last s = CHR 0x22 then butlast (tl s) else s)"

definition resolveStringArg :: "package \<Rightarrow> node \<Rightarrow> string" where
  "resolveStringArg pkg e =
     (case const_of pkg e of
        Some s \<Rightarrow> unquote s
      | None \<Rightarrow> (case e of BasicLit i v \<Rightarrow> unquote v | _ \<Rightarrow> ''<unresolved>''))"

text \<open>The named type a \<open>*types.Named\<close> points to.\<close>

definition as_named :: "package \<Rightarrow> gotype \<Rightarrow> named_info option" where
  "as_named pkg t = (case t of Named i \<Rightarrow> named_at (types pkg) i | _ \<Rightarrow> None)"

text \<open>The type arguments of the type a call returns a pointer to.\<close>

definition result_targs :: "package \<Rightarrow> node \<Rightarrow> gotype list" where
  "result_targs pkg call =
     (case type_of pkg call of
        Some (Pointer t) \<Rightarrow> (case as_named pkg t of Some n \<Rightarrow> n_targs n | None \<Rightarrow> [])
      | _ \<Rightarrow> [])"

subsection \<open>Calls of \<open>Define\<close>\<close>

record defineCall =
  dc_name :: string
  dc_version :: string
  dc_req :: "gotype option"
  dc_resp :: "gotype option"
  dc_factory :: node

definition extractDefineTypeParams :: "package \<Rightarrow> node \<Rightarrow> gotype option \<times> gotype option" where
  "extractDefineTypeParams pkg call =
     (case result_targs pkg call of r # resp # _ \<Rightarrow> (Some r, Some resp) | _ \<Rightarrow> (None, None))"

fun define_visitor :: "package \<Rightarrow> node \<Rightarrow> defineCall list \<Rightarrow> bool \<times> defineCall list" where
  "define_visitor pkg (CallExpr i f args) calls =
     (if \<not> isFlickerFunc pkg f ''Define'' then (True, calls)
      else case args of
        name # version # factory # _ \<Rightarrow>
          let (req, resp) = extractDefineTypeParams pkg (CallExpr i f args) in
          (True, calls @ [\<lparr>dc_name = resolveStringArg pkg name, dc_version = resolveStringArg pkg version,
             dc_req = req, dc_resp = resp, dc_factory = factory\<rparr>])
      | _ \<Rightarrow> (True, calls))"
| "define_visitor pkg n calls = (True, calls)"

definition detectDefines :: "package \<Rightarrow> defineCall list" where
  "detectDefines pkg =
     fold (\<lambda>decls. fold (inspect (define_visitor pkg)) decls) (syntax_files pkg) []"

subsection \<open>From the factory to \<open>Execute\<close>\<close>

fun factory_return :: "node list \<Rightarrow> node option" where
  "factory_return [] = None"
| "factory_return (ReturnStmt i (e # es) # stmts) = Some e"
| "factory_return (stmt # stmts) = factory_return stmts"

text \<open>The struct the factory returns a pointer to: its fields and the name of its type.\<close>

definition resolveFactory :: "package \<Rightarrow> node \<Rightarrow> string + gofield list \<times> string" where
  "resolveFactory pkg factoryArg =
     (case factoryArg of
        FuncLit i ty body \<Rightarrow>
          if body = [] then Inl ''factory function has empty body''
          else (case factory_return body of
            None \<Rightarrow> Inl ''factory function has no return statement''
          | Some (UnaryExpr j x) \<Rightarrow>
              (case x of
                 CompositeLit k xs \<Rightarrow>
                   (case type_of pkg x of
                      None \<Rightarrow> Inl ''could not resolve composite literal type''
                    | Some t \<Rightarrow>
                        (case as_named pkg t of
                           None \<Rightarrow> Inl (''composite literal type is not named (got '' @ type_string (types pkg) t @ '')'')
                         | Some n \<Rightarrow>
                             (case n_under n of
                                Struct fs \<Rightarrow> Inr (fs, n_name n)
                              | u \<Rightarrow> Inl (''composite literal type is not a struct (got '' @
                                          type_string (types pkg) u @ '')''))))
               | _ \<Rightarrow> Inl (''factory return is not &SomeStruct{} (got &'' @ node_type x @ '')''))
          | Some e \<Rightarrow> Inl (''factory return is not &SomeStruct{} (got '' @ node_type e @ '')''))
      | _ \<Rightarrow> Inl (''factory argument is not a function literal (got '' @ node_type factoryArg @ '')''))"

text \<open>The body of a declaration \<open>func (r *structName) Execute\<close>.\<close>

fun execute_body :: "string \<Rightarrow> node \<Rightarrow> node list option" where
  "execute_body structName (FuncDecl i name (StarExpr j (Ident k recv) # rs) ty body) =
     (if name = ''Execute'' \<and> recv = structName then Some body else None)"
| "execute_body structName decl = None"

fun first_body :: "string \<Rightarrow> node list \<Rightarrow> node list option" where
  "first_body structName [] = None"
| "first_body structName (decl # decls) =
     (case execute_body structName decl of Some body \<Rightarrow> Some body | None \<Rightarrow> first_body structName decls)"

definition findExecuteMethod :: "package \<Rightarrow> string \<Rightarrow> string + node list" where
  "findExecuteMethod pkg structName =
     (case first_body structName (concat (syntax_files pkg)) of
        Some body \<Rightarrow> Inr body
      | None \<Rightarrow> Inl (''execute method not found for type '' @ structName))"

subsection \<open>Providers\<close>

record Provider =
  pr_Prefix :: string
  pr_Type :: TypeShape

fun extractProvider :: "package \<Rightarrow> node \<Rightarrow> Provider option" where
  "extractProvider pkg (CallExpr i f (wc # prefixArg # args)) =
     (case result_targs pkg (CallExpr i f (wc # prefixArg # args)) of
        t # _ \<Rightarrow> Some \<lparr>pr_Prefix = resolveStringArg pkg prefixArg, pr_Type = resolveTypeShape (types pkg) (Some t)\<rparr>
      | [] \<Rightarrow> None)"
| "extractProvider pkg call = None"

fun provider_visitor :: "package \<Rightarrow> node \<Rightarrow> Provider list \<Rightarrow> bool \<times> Provider list" where
  "provider_visitor pkg (CallExpr i f args) ps =
     (if \<not> isFlickerFunc pkg f ''NewProvider'' then (True, ps)
      else case extractProvider pkg (CallExpr i f args) of
        Some p \<Rightarrow> (True, ps @ [p])
      | None \<Rightarrow> (True, ps))"
| "provider_visitor pkg n ps = (True, ps)"

definition extractFactoryProviders :: "package \<Rightarrow> node \<Rightarrow> Provider list" where
  "extractFactoryProviders pkg factoryArg =
     (case factoryArg of
        FuncLit i ty body \<Rightarrow> inspect (provider_visitor pkg) factoryArg []
      | _ \<Rightarrow> [])"

subsection \<open>Visits that see every node\<close>

text \<open>The nodes of a tree in the order of a visit that always goes down.\<close>

function preorder :: "node \<Rightarrow> node list" where
  "preorder n = n # concat (map preorder (children n))"
  by pat_completeness auto

termination
  by (relation "measure size") (simp_all add: children_size)

declare preorder.simps [simp del]

lemma inspect_collect:
  assumes "\<And>n s. f n s = (True, s @ g n)"
  shows "inspect f n s = s @ concat (map g (preorder n))"
proof (induction n arbitrary: s rule: preorder.induct)
  case (1 n)
  have "fold (inspect f) ms s = s @ concat (map g (concat (map preorder ms)))" if "set ms \<subseteq> set (children n)" for ms s
    using that
  proof (induction ms arbitrary: s)
    case (Cons m ms)
    then show ?case using 1 [of m] by simp
  qed simp
  from this [of "children n"] show ?case
    by (simp add: inspect.simps [of f n] preorder.simps [of n] assms [of n s])
qed

fun define_of :: "package \<Rightarrow> node \<Rightarrow> defineCall list" where
  "define_of pkg (CallExpr i f args) = snd (define_visitor pkg (CallExpr i f args) [])"
| "define_of pkg n = []"

lemma define_visitor_collects: "define_visitor pkg n calls = (True, calls @ define_of pkg n)"
  by (cases n) (auto simp: split_beta Let_def split: list.splits)

lemma detectDefines_eq:
  "detectDefines pkg = concat (map (define_of pkg) (concat (map preorder (concat (syntax_files pkg)))))"
proof -
  have "fold (inspect (define_visitor pkg)) decls calls =
      calls @ concat (map (define_of pkg) (concat (map preorder decls)))" for decls calls
    by (induction decls arbitrary: calls) (simp_all add: inspect_collect [OF define_visitor_collects])
  then have "fold (\<lambda>decls. fold (inspect (define_visitor pkg)) decls) files calls =
      calls @ concat (map (define_of pkg) (concat (map preorder (concat files))))" for files calls
    by (induction files arbitrary: calls) simp_all
  then show ?thesis by (simp add: detectDefines_def)
qed

end
