(* ===== verification/ContractWalk.thy ===== *)
theory ContractWalk
  imports ContractDetect
begin

section \<open>Reading the steps out of \<open>Execute\<close>\<close>

text \<open>
  \<^verbatim>\<open>contract/walk.go\<close> and the step data of \<^verbatim>\<open>contract/contract.go\<close>. The walker is a record of what it
  has collected; its methods take and return it. A branch of \<open>Parallel\<close> is read by a walker of its
  own: the operations that handle one call take that sub-walk as an argument, and \<open>inspectNode\<close> ties
  the knot. The struct type the Go walker carries along is never read and left out.
\<close>

subsection \<open>Steps\<close>

datatype StepKind = StepKindLiteral | StepKindConstant | StepKindProvider | StepKindDynamic

fun kind_text :: "StepKind \<Rightarrow> string" where
  "kind_text StepKindLiteral = ''literal''"
| "kind_text StepKindConstant = ''constant''"
| "kind_text StepKindProvider = ''provider''"
| "kind_text StepKindDynamic = ''dynamic''"

datatype Step =
    Step (st_Name: string) (st_Kind: StepKind) (st_Type: "TypeShape option") (st_StepType: string)
      (st_Branches: "Branch list")
and Branch = Branch (br_Name: string) (br_Steps: "Step list")

record executeWalker =
  w_steps :: "Step list"
  w_providers :: "Provider list"
  w_errors :: "string list"

definition new_walker :: executeWalker where
  "new_walker = \<lparr>w_steps = [], w_providers = [], w_errors = []\<rparr>"

definition add_step :: "Step \<Rightarrow> executeWalker \<Rightarrow> executeWalker" where
  "add_step s w = w\<lparr>w_steps := w_steps w @ [s]\<rparr>"

subsection \<open>What a call is\<close>

definition isWorkflowContextType :: "package \<Rightarrow> gotype \<Rightarrow> bool" where
  "isWorkflowContextType pkg t =
     (case t of
        Pointer p \<Rightarrow>
          (case as_named pkg p of
             None \<Rightarrow> False
           | Some n \<Rightarrow> n_name n = ''WorkflowContext'' \<and> n_pkg n = Some flickerPkgPath)
      | _ \<Rightarrow> False)"

definition isWorkflowContextReceiver :: "package \<Rightarrow> node \<Rightarrow> bool" where
  "isWorkflowContextReceiver pkg e =
     (case type_of pkg e of None \<Rightarrow> False | Some t \<Rightarrow> isWorkflowContextType pkg t)"

definition isSleepUntilCall :: "package \<Rightarrow> node \<Rightarrow> bool" where
  "isSleepUntilCall pkg f =
     (case f of SelectorExpr i x sel \<Rightarrow> sel = ''SleepUntil'' \<and> isWorkflowContextReceiver pkg x | _ \<Rightarrow> False)"

definition isTimeNowCall :: "package \<Rightarrow> node \<Rightarrow> bool" where
  "isTimeNowCall pkg f =
     (case f of
        SelectorExpr i (SelectorExpr j x inner) sel \<Rightarrow>
          sel = ''Now'' \<and> inner = ''Time'' \<and> isWorkflowContextReceiver pkg x
      | _ \<Rightarrow> False)"

definition isIDNewCall :: "package \<Rightarrow> node \<Rightarrow> bool" where
  "isIDNewCall pkg f =
     (case f of
        SelectorExpr i (SelectorExpr j x inner) sel \<Rightarrow>
          sel = ''New'' \<and> inner = ''ID'' \<and> isWorkflowContextReceiver pkg x
      | _ \<Rightarrow> False)"

definition classifyStepName :: "package \<Rightarrow> node \<Rightarrow> string \<times> StepKind" where
  "classifyStepName pkg e =
     (case e of
        BasicLit i v \<Rightarrow> (unquote v, StepKindLiteral)
      | _ \<Rightarrow> (case const_of pkg e of
          Some val \<Rightarrow> (unquote val, StepKindConstant)
        | None \<Rightarrow> (''<dynamic>'', StepKindDynamic)))"

definition extractCallTypeParam :: "package \<Rightarrow> node \<Rightarrow> TypeShape option" where
  "extractCallTypeParam pkg call =
     (case type_of pkg call of
        Some (Tuple (Pointer t # ts)) \<Rightarrow> Some (resolveTypeShape (types pkg) (Some t))
      | _ \<Rightarrow> None)"

subsection \<open>One call\<close>

text \<open>\<open>extractRunStep\<close> and \<open>extractWaitForEventStep\<close> differ in the step type only.\<close>

definition extract_named_step :: "string \<Rightarrow> package \<Rightarrow> node \<Rightarrow> node list \<Rightarrow> executeWalker \<Rightarrow> executeWalker" where
  "extract_named_step stepType pkg call args w =
     (let (name, kind) = classifyStepName pkg (args ! 2);
          w = (if kind = StepKindDynamic
               then w\<lparr>w_errors := w_errors w @ [''step name is not a string literal or constant: '' @ name]\<rparr>
               else w)
      in add_step (Step name kind (extractCallTypeParam pkg call) stepType []) w)"

definition extractRunStep :: "package \<Rightarrow> node \<Rightarrow> node list \<Rightarrow> executeWalker \<Rightarrow> executeWalker" where
  "extractRunStep = extract_named_step ''run''"

definition extractWaitForEventStep :: "package \<Rightarrow> node \<Rightarrow> node list \<Rightarrow> executeWalker \<Rightarrow> executeWalker" where
  "extractWaitForEventStep = extract_named_step ''wait_for_event''"

text \<open>The name and the body of \<open>flicker.NewBranch(name, func(...) {...})\<close>.\<close>

definition branch_body :: "package \<Rightarrow> node \<Rightarrow> (string \<times> node list) option" where
  "branch_body pkg e =
     (case e of
        CallExpr i f (nameArg # fn # _) \<Rightarrow>
          if \<not> isFlickerFunc pkg f ''NewBranch'' then None
          else (case fn of
            FuncLit j ty body \<Rightarrow> Some (resolveStringArg pkg nameArg, body)
          | _ \<Rightarrow> None)
      | _ \<Rightarrow> None)"

definition extractBranch :: "(node list \<Rightarrow> executeWalker) \<Rightarrow> package \<Rightarrow> node \<Rightarrow> executeWalker \<Rightarrow>
    Branch option \<times> executeWalker" where
  "extractBranch walk pkg e w =
     (case branch_body pkg e of
        None \<Rightarrow> (None, w)
      | Some (name, body) \<Rightarrow>
          let subWalker = walk body in
          (Some (Branch name (w_steps subWalker)),
           w\<lparr>w_errors := w_errors w @ w_errors subWalker, w_providers := w_providers w @ w_providers subWalker\<rparr>))"

fun extract_branches :: "(node list \<Rightarrow> executeWalker) \<Rightarrow> package \<Rightarrow> node list \<Rightarrow> Branch list \<Rightarrow> executeWalker \<Rightarrow>
    Branch list \<times> executeWalker" where
  "extract_branches walk pkg [] branches w = (branches, w)"
| "extract_branches walk pkg (arg # args) branches w =
     (case extractBranch walk pkg arg w of
        (None, w) \<Rightarrow> extract_branches walk pkg args branches w
      | (Some b, w) \<Rightarrow> extract_branches walk pkg args (branches @ [b]) w)"

definition extractParallelStep :: "(node list \<Rightarrow> executeWalker) \<Rightarrow> package \<Rightarrow> node list \<Rightarrow> executeWalker \<Rightarrow>
    executeWalker" where
  "extractParallelStep walk pkg args w =
     (let (branches, w) = extract_branches walk pkg (drop 2 args) [] w
      in add_step (Step ''_parallel'' StepKindProvider None ''parallel'' branches) w)"

text \<open>The steps of calls on the workflow context itself; the visit goes on below them.\<close>

definition context_step :: "package \<Rightarrow> node \<Rightarrow> executeWalker \<Rightarrow> executeWalker" where
  "context_step pkg f w =
     (if isSleepUntilCall pkg f then add_step (Step ''_sleep.until:*'' StepKindProvider None ''sleep_until'' []) w
      else if isTimeNowCall pkg f then add_step (Step ''_time.now:*'' StepKindProvider None ''provider'' []) w
      else if isIDNewCall pkg f then add_step (Step ''_id.new:*'' StepKindProvider None ''provider'' []) w
      else w)"

text \<open>Whether the visit stops at a call, and what is done with it.\<close>

definition visit_call :: "(node list \<Rightarrow> executeWalker) \<Rightarrow> package \<Rightarrow> node \<Rightarrow> executeWalker \<Rightarrow> bool \<times> executeWalker" where
  "visit_call walk pkg n w =
     (case n of
        CallExpr i f args \<Rightarrow>
          if isFlickerFunc pkg f ''Parallel'' \<and> 2 \<le> length args
          then (False, extractParallelStep walk pkg args w)
          else if isFlickerFunc pkg f ''Run'' \<and> 3 \<le> length args
          then (False, extractRunStep pkg n args w)
          else if isFlickerFunc pkg f ''WaitForEvent'' \<and> 3 \<le> length args
          then (False, extractWaitForEventStep pkg n args w)
          else if isFlickerFunc pkg f ''NewProvider''
          then (False, case extractProvider pkg n of
                  None \<Rightarrow> w | Some p \<Rightarrow> w\<lparr>w_providers := w_providers w @ [p]\<rparr>)
          else (True, context_step pkg f w)
      | _ \<Rightarrow> (True, w))"

subsection \<open>The walk\<close>

lemma size_arg: "a \<in> set xs \<Longrightarrow> size (a :: node) < Suc (size_list size xs)"
  by (induction xs) auto

lemma branch_body_size:
  "branch_body pkg e = Some (name, body) \<Longrightarrow> m \<in> set body \<Longrightarrow> size m < size e"
  using size_arg [of m body]
  by (auto simp: branch_body_def split: node.splits list.splits if_splits)

lemma extract_branches_cong:
  "(\<And>a name body. a \<in> set args \<Longrightarrow> branch_body pkg a = Some (name, body) \<Longrightarrow> walk body = walk' body) \<Longrightarrow>
     extract_branches walk pkg args bs w = extract_branches walk' pkg args bs w"
proof (induction args arbitrary: bs w)
  case (Cons a args)
  have "extractBranch walk pkg a w = extractBranch walk' pkg a w"
    using Cons(2) [of a] by (auto simp: extractBranch_def split: option.splits)
  moreover have "extract_branches walk pkg args bs w = extract_branches walk' pkg args bs w" for bs w
    by (rule Cons(1)) (use Cons(2) in \<open>auto\<close>)
  ultimately show ?case by (simp split: prod.splits option.splits)
qed simp

lemma visit_call_cong [fundef_cong]:
  assumes "pkg = pkg'" and "n = n'" and "w = w'"
    and "\<And>i f args a name body. n' = CallExpr i f args \<Longrightarrow> a \<in> set (drop 2 args) \<Longrightarrow>
      branch_body pkg' a = Some (name, body) \<Longrightarrow> walk body = walk' body"
  shows "visit_call walk pkg n w = visit_call walk' pkg' n' w'"
proof -
  have "extractParallelStep walk pkg args w = extractParallelStep walk' pkg args w" if "n = CallExpr i f args" for i f args
  proof -
    have "extract_branches walk pkg (drop 2 args) [] w = extract_branches walk' pkg (drop 2 args) [] w"
      by (rule extract_branches_cong) (use assms that in \<open>auto\<close>)
    then show ?thesis by (simp add: extractParallelStep_def)
  qed
  then show ?thesis
    unfolding assms(1-3) [symmetric] by (cases n) (simp_all add: visit_call_def)
qed

function inspectNode :: "package \<Rightarrow> node \<Rightarrow> executeWalker \<Rightarrow> executeWalker" where
  "inspectNode pkg n w =
     (let (down, w) = visit_call (\<lambda>body. fold (inspectNode pkg) body new_walker) pkg n w
      in if down then fold (inspectNode pkg) (children n) w else w)"
  by pat_completeness auto

termination
proof (relation "measure (\<lambda>(pkg, n, w). size n)", goal_cases)
  case (2 pkg n w i f args a name body m w')
  have "size m < size a" using 2 branch_body_size by blast
  moreover have "size a < size n" using 2 size_arg [of a args] in_set_dropD [of a 2 args] by simp
  ultimately show ?case by simp
qed (simp_all add: children_size)

declare inspectNode.simps [simp del]

definition walkBlock :: "package \<Rightarrow> node list \<Rightarrow> executeWalker \<Rightarrow> executeWalker" where
  "walkBlock pkg block w = fold (inspectNode pkg) block w"

definition walkExecuteBody :: "package \<Rightarrow> node list \<Rightarrow> Step list \<times> Provider list \<times> string list" where
  "walkExecuteBody pkg body =
     (let w = walkBlock pkg body new_walker in (w_steps w, w_providers w, w_errors w))"

end
