(* ===== verification/Contract.thy ===== *)
theory Contract
  imports ContractWalk
begin

section \<open>Contracts\<close>

text \<open>
  \<^verbatim>\<open>contract/scan.go\<close> and the top of \<^verbatim>\<open>contract/contract.go\<close>: what the packages of a module say about
  its workflows. What \<open>packages.Load\<close> returned is the argument. The final \<open>sort.Slice\<close> is not stable;
  it is modelled by the stable sort, which is the only result when no two contracts have the same
  text name:version (two different pairs can have the same text when a name or a version contains a colon).
\<close>

record Contract =
  ct_Name :: string
  ct_Version :: string
  ct_RequestType :: TypeShape
  ct_ResponseType :: TypeShape
  ct_Steps :: "Step list"
  ct_Providers :: "Provider list"
  ct_Errors :: "string list"

definition buildContract :: "package \<Rightarrow> defineCall \<Rightarrow> Contract" where
  "buildContract pkg def =
     (let c = \<lparr>ct_Name = dc_name def, ct_Version = dc_version def,
               ct_RequestType = resolveTypeShape (types pkg) (dc_req def),
               ct_ResponseType = resolveTypeShape (types pkg) (dc_resp def),
               ct_Steps = [], ct_Providers = [], ct_Errors = []\<rparr>
      in case resolveFactory pkg (dc_factory def) of
           Inl err \<Rightarrow> c\<lparr>ct_Errors := ct_Errors c @ [err]\<rparr>
         | Inr (structType, structObj) \<Rightarrow>
             (case findExecuteMethod pkg structObj of
                Inl err \<Rightarrow> c\<lparr>ct_Errors := ct_Errors c @ [err]\<rparr>
              | Inr executeBody \<Rightarrow>
                  let factoryProviders = extractFactoryProviders pkg (dc_factory def);
                      (steps, providers, walkErrors) = walkExecuteBody pkg executeBody
                  in c\<lparr>ct_Steps := steps,
                       ct_Providers := ct_Providers c @ factoryProviders @ providers,
                       ct_Errors := ct_Errors c @ walkErrors\<rparr>))"

text \<open>\<open>%v\<close> of a slice of strings.\<close>

fun spaced :: "string list \<Rightarrow> string" where
  "spaced [] = ''''"
| "spaced [s] = s"
| "spaced (s # ss) = s @ '' '' @ spaced ss"

definition contract_key :: "Contract \<Rightarrow> string" where
  "contract_key c = ct_Name c @ '':'' @ ct_Version c"

definition BuildContracts :: "gerror + package list \<Rightarrow> Contract list res" where
  "BuildContracts load =
     (case load of
        Inl err \<Rightarrow> Inl (WrapError ''load packages'' err)
      | Inr pkgs \<Rightarrow>
          let loadErrors = concat (map pkg_errors pkgs) in
          if loadErrors \<noteq> [] then Inl (ErrorString (''package errors: ['' @ spaced loadErrors @ '']''))
          else Inr (sort_key contract_key
                 (concat (map (\<lambda>pkg. map (buildContract pkg) (detectDefines pkg)) pkgs))))"

subsection \<open>Walking as a fold over the visited nodes\<close>

definition walk_step :: "package \<Rightarrow> node \<Rightarrow> executeWalker \<Rightarrow> executeWalker" where
  "walk_step pkg n w = snd (visit_call (\<lambda>body. walkBlock pkg body new_walker) pkg n w)"

definition stops_at :: "package \<Rightarrow> node \<Rightarrow> bool" where
  "stops_at pkg n =
     (case n of
        CallExpr i f args \<Rightarrow>
          isFlickerFunc pkg f ''Parallel'' \<and> 2 \<le> length args \<or>
          isFlickerFunc pkg f ''Run'' \<and> 3 \<le> length args \<or>
          isFlickerFunc pkg f ''WaitForEvent'' \<and> 3 \<le> length args \<or>
          isFlickerFunc pkg f ''NewProvider''
      | _ \<Rightarrow> False)"

function visited :: "package \<Rightarrow> node \<Rightarrow> node list" where
  "visited pkg n = n # (if stops_at pkg n then [] else concat (map (visited pkg) (children n)))"
  by pat_completeness auto

termination
  by (relation "measure (\<lambda>(pkg, n). size n)") (simp_all add: children_size)

declare visited.simps [simp del]

lemma visit_call_down: "fst (visit_call walk pkg n w) = (\<not> stops_at pkg n)"
  by (cases n) (auto simp: visit_call_def stops_at_def)

lemma inspectNode_eq:
  "inspectNode pkg n w =
     (if stops_at pkg n then walk_step pkg n w else walkBlock pkg (children n) (walk_step pkg n w))"
  using visit_call_down [of _ pkg n w]
  by (subst inspectNode.simps) (simp add: walk_step_def walkBlock_def [abs_def] split_beta Let_def)

lemma walkBlock_simps [simp]:
  "walkBlock pkg [] w = w" "walkBlock pkg (n # ns) w = walkBlock pkg ns (inspectNode pkg n w)"
  "walkBlock pkg (ns @ ms) w = walkBlock pkg ms (walkBlock pkg ns w)"
  by (simp_all add: walkBlock_def)

lemma inspectNode_fold: "inspectNode pkg n w = fold (walk_step pkg) (visited pkg n) w"
proof (induction n arbitrary: w rule: measure_induct_rule [of size])
  case (less n)
  have "walkBlock pkg ms w = fold (walk_step pkg) (concat (map (visited pkg) ms)) w"
    if "set ms \<subseteq> set (children n)" for ms w
    using that
  proof (induction ms arbitrary: w)
    case (Cons m ms)
    then show ?case using less [of m] children_size by simp
  qed simp
  then show ?case by (simp add: inspectNode_eq [of pkg n] visited.simps [of pkg n])
qed

lemma walkBlock_fold: "walkBlock pkg body w = fold (walk_step pkg) (concat (map (visited pkg) body)) w"
  by (induction body arbitrary: w) (simp_all add: inspectNode_fold)

text \<open>C33: reading an \<open>Execute\<close> body is handling, one after the other, the calls a visit in source order meets, where
  nothing is met inside the arguments of \<open>Run\<close>, \<open>WaitForEvent\<close>, \<open>Parallel\<close> and \<open>NewProvider\<close>; a branch of \<open>Parallel\<close>
  is read the same way on its own.\<close>

theorem walk_is_fold_over_visited_calls:
  "walkExecuteBody pkg body =
     (let w = fold (walk_step pkg) (concat (map (visited pkg) body)) new_walker
      in (w_steps w, w_providers w, w_errors w))"
  by (simp add: walkExecuteBody_def walkBlock_fold)

text \<open>An invariant of the walker that handling one call keeps holds of every walk.\<close>

lemma walk_invariant:
  assumes "P new_walker"
    and "\<And>n w. P w \<Longrightarrow>
      (\<And>i f args a name body. n = CallExpr i f args \<Longrightarrow> a \<in> set (drop 2 args) \<Longrightarrow>
        branch_body pkg a = Some (name, body) \<Longrightarrow> P (walkBlock pkg body new_walker)) \<Longrightarrow>
      P (walk_step pkg n w)"
  shows "P w \<Longrightarrow> P (inspectNode pkg n w)"
proof (induction n arbitrary: w rule: measure_induct_rule [of size])
  case (less n)
  have block: "P w \<Longrightarrow> P (walkBlock pkg ms w)" if "\<And>m. m \<in> set ms \<Longrightarrow> size m < size n" for ms w
    using that
  proof (induction ms arbitrary: w)
    case (Cons m ms)
    then show ?case using less(1) [of m w] by simp
  qed simp
  have "P (walk_step pkg n w)"
  proof (rule assms(2) [OF less(2)])
    fix i f args a name body
    assume "n = CallExpr i f args" "a \<in> set (drop 2 args)" and body: "branch_body pkg a = Some (name, body)"
    then have "size a < size n" using size_arg [of a args] in_set_dropD [of a 2 args] by simp
    with branch_body_size [OF body] have "\<And>m. m \<in> set body \<Longrightarrow> size m < size n" by (meson less_trans)
    then show "P (walkBlock pkg body new_walker)" using block assms(1) by blast
  qed
  with block [of "children n"] children_size show ?case by (simp add: inspectNode_eq)
qed

lemma walkBlock_invariant:
  assumes "P new_walker"
    and "\<And>n w. P w \<Longrightarrow>
      (\<And>i f args a name body. n = CallExpr i f args \<Longrightarrow> a \<in> set (drop 2 args) \<Longrightarrow>
        branch_body pkg a = Some (name, body) \<Longrightarrow> P (walkBlock pkg body new_walker)) \<Longrightarrow>
      P (walk_step pkg n w)"
    and "P w"
  shows "P (walkBlock pkg body w)"
  using assms(3) by (induction body arbitrary: w) (simp_all add: walk_invariant [where P = P, OF assms(1,2)])

end
