(* ===== verification/ContractExamples.thy ===== *)
theory ContractExamples
  imports Contract
begin

section \<open>Two modules\<close>

text \<open>
  Syntax trees and type information of \<^verbatim>\<open>contract/testdata/simple\<close>, whose contract the golden file of
  the repository gives, and of \<^verbatim>\<open>workflows/greeting/v1\<close>, whose workflow embeds the context. Node
  identities are chosen so that they differ; parts without calls are cut short.
\<close>

definition quoted :: "string \<Rightarrow> string" where
  "quoted s = CHR 0x22 # s @ [CHR 0x22]"

definition json_field :: "string \<Rightarrow> gotype \<Rightarrow> string \<Rightarrow> gofield" where
  "json_field name t tag = Field name True t (''json:'' @ quoted tag)"

definition string_literal :: "nat \<Rightarrow> string \<Rightarrow> node" where
  "string_literal i s = BasicLit i (quoted s)"

definition ident :: "string \<Rightarrow> node" where
  "ident s = Ident 0 s"

text \<open>\<open>flicker.f\<close>; node 1 is an identifier that names the package.\<close>

definition flicker_fun :: "string \<Rightarrow> node" where
  "flicker_fun f = SelectorExpr 0 (Ident 1 ''flicker'') f"

definition assign :: "string list \<Rightarrow> node \<Rightarrow> node" where
  "assign lhs rhs = OtherNode 0 ''*ast.AssignStmt'' (map ident lhs @ [rhs])"

definition check_err :: node where
  "check_err = OtherNode 0 ''*ast.IfStmt''
     [OtherNode 0 ''*ast.BinaryExpr'' [ident ''err'', ident ''nil''],
      OtherNode 0 ''*ast.BlockStmt'' [ReturnStmt 0 [CompositeLit 0 [], ident ''err'']]]"

definition library_uses :: "nat \<Rightarrow> object option" where
  "library_uses i = (if i = 1 then Some (PkgName flickerPkgPath) else None)"

definition context_info :: named_info where
  "context_info = \<lparr>n_name = ''WorkflowContext'', n_pkg = Some flickerPkgPath, n_under = Struct [], n_targs = []\<rparr>"

definition error_info :: named_info where
  "error_info = \<lparr>n_name = ''error'', n_pkg = None, n_under = Interface False, n_targs = []\<rparr>"

definition def_info :: "gotype \<Rightarrow> gotype \<Rightarrow> named_info" where
  "def_info r resp = \<lparr>n_name = ''WorkflowDef'', n_pkg = Some flickerPkgPath, n_under = Struct [], n_targs = [r, resp]\<rparr>"

subsection \<open>\<^verbatim>\<open>testdata/simple\<close>\<close>

text \<open>The named types: 0 to 4 of the library, then \<open>OrderRequest\<close>, \<open>OrderResponse\<close>, \<open>orderWorkflow\<close>.\<close>

definition simple_types :: type_table where
  "simple_types = \<lparr>nameds =
     [context_info, error_info, def_info (Named 3) (Named 4),
      \<lparr>n_name = ''OrderRequest'', n_pkg = Some ''testdata/simple'',
       n_under = Struct [json_field ''OrderID'' (Basic BString) ''order_id'', json_field ''Amount'' (Basic BInt) ''amount''],
       n_targs = []\<rparr>,
      \<lparr>n_name = ''OrderResponse'', n_pkg = Some ''testdata/simple'',
       n_under = Struct [json_field ''Confirmed'' (Basic BBool) ''confirmed'',
         json_field ''Message'' (Basic BString) ''message''],
       n_targs = []\<rparr>,
      \<lparr>n_name = ''orderWorkflow'', n_pkg = Some ''testdata/simple'',
       n_under = Struct [Field ''wc'' False (Pointer (Named 0)) ''''], n_targs = []\<rparr>],
     type_string = (\<lambda>t. '''')\<rparr>"

definition simple_define :: node where
  "simple_define = CallExpr 10 (IndexListExpr 0 (flicker_fun ''Define'') [ident ''OrderRequest'', ident ''OrderResponse''])
     [string_literal 11 ''order-process'', string_literal 12 ''v1'',
      FuncLit 13 [ident ''wc'']
        [ReturnStmt 14 [UnaryExpr 15 (CompositeLit 16 [ident ''orderWorkflow'', OtherNode 0 ''*ast.KeyValueExpr'' [ident ''wc'', ident ''wc'']])]]]"

text \<open>\<open>w.wc\<close>, node 20.\<close>

definition simple_wc :: node where
  "simple_wc = SelectorExpr 20 (ident ''w'') ''wc''"

definition simple_body :: "node list" where
  "simple_body =
     [assign [''now'', ''err''] (CallExpr 21 (SelectorExpr 0 (SelectorExpr 0 simple_wc ''Time'') ''Now'') [ident ''ctx'']),
      check_err,
      assign [''result'', ''err''] (CallExpr 22 (IndexExpr 0 (flicker_fun ''Run'') (ident ''string''))
        [ident ''ctx'', simple_wc, string_literal 23 ''validate-order'',
         FuncLit 0 [] [assign [''s''] (string_literal 24 ''validated''), ReturnStmt 0 [UnaryExpr 0 (ident ''s''), ident ''nil'']]]),
      check_err,
      assign [''_'', ''err''] (CallExpr 25 (IndexExpr 0 (flicker_fun ''Run'') (ident ''bool''))
        [ident ''ctx'', simple_wc, string_literal 26 ''charge-payment'',
         FuncLit 0 [] [assign [''b''] (ident ''true''), ReturnStmt 0 [UnaryExpr 0 (ident ''b''), ident ''nil'']]]),
      check_err,
      ReturnStmt 0 [CompositeLit 0 [], ident ''nil'']]"

definition simple_info :: "nat \<Rightarrow> type_and_value option" where
  "simple_info = map_of
     [(10, \<lparr>tv_type = Pointer (Named 2), tv_value = None\<rparr>),
      (11, \<lparr>tv_type = Basic BUntypedString, tv_value = Some (quoted ''order-process'')\<rparr>),
      (12, \<lparr>tv_type = Basic BUntypedString, tv_value = Some (quoted ''v1'')\<rparr>),
      (16, \<lparr>tv_type = Named 5, tv_value = None\<rparr>),
      (20, \<lparr>tv_type = Pointer (Named 0), tv_value = None\<rparr>),
      (22, \<lparr>tv_type = Tuple [Pointer (Basic BString), Named 1], tv_value = None\<rparr>),
      (25, \<lparr>tv_type = Tuple [Pointer (Basic BBool), Named 1], tv_value = None\<rparr>)]"

definition simple_pkg :: package where
  "simple_pkg = \<lparr>syntax_files =
     [[OtherNode 0 ''*ast.GenDecl'' [OtherNode 0 ''*ast.ValueSpec'' [ident ''_'', simple_define]],
       FuncDecl 17 ''Execute'' [StarExpr 18 (Ident 19 ''orderWorkflow'')] [] simple_body]],
     types_info = simple_info, uses_info = library_uses, pkg_errors = [], types = simple_types\<rparr>"

text \<open>\<^verbatim>\<open>testdata/simple.golden\<close>.\<close>

definition simple_contract :: Contract where
  "simple_contract =
     \<lparr>ct_Name = ''order-process'', ct_Version = ''v1'',
      ct_RequestType = TypeShape ''OrderRequest'' ''testdata/simple'' ''struct''
        [FieldShape ''OrderID'' (leaf_shape ''string'' ''string'') ''order_id'',
         FieldShape ''Amount'' (leaf_shape ''int'' ''int'') ''amount''] None None,
      ct_ResponseType = TypeShape ''OrderResponse'' ''testdata/simple'' ''struct''
        [FieldShape ''Confirmed'' (leaf_shape ''bool'' ''bool'') ''confirmed'',
         FieldShape ''Message'' (leaf_shape ''string'' ''string'') ''message''] None None,
      ct_Steps =
        [Step ''_time.now:*'' StepKindProvider None ''provider'' [],
         Step ''validate-order'' StepKindLiteral (Some (leaf_shape ''string'' ''string'')) ''run'' [],
         Step ''charge-payment'' StepKindLiteral (Some (leaf_shape ''bool'' ''bool'')) ''run'' []],
      ct_Providers = [], ct_Errors = []\<rparr>"

lemma simple_golden: "BuildContracts (Inr [simple_pkg]) = Inr [simple_contract]"
  by code_simp

subsection \<open>\<^verbatim>\<open>workflows/greeting/v1\<close>\<close>

definition greeting_types :: type_table where
  "greeting_types = \<lparr>nameds =
     [context_info, error_info, def_info (Named 3) (Named 4),
      \<lparr>n_name = ''Request'', n_pkg = Some ''v1'', n_under = Struct [json_field ''UserID'' (Basic BString) ''user_id''],
       n_targs = []\<rparr>,
      \<lparr>n_name = ''Greeting'', n_pkg = Some ''v1'',
       n_under = Struct [json_field ''Message'' (Basic BString) ''message'', json_field ''UserID'' (Basic BString) ''user_id''],
       n_targs = []\<rparr>,
      \<lparr>n_name = ''Workflow'', n_pkg = Some ''v1'',
       n_under = Struct [Field ''WorkflowContext'' True (Pointer (Named 0)) ''''], n_targs = []\<rparr>,
      \<lparr>n_name = ''User'', n_pkg = Some ''v1'',
       n_under = Struct [json_field ''ID'' (Basic BString) ''id'', json_field ''Name'' (Basic BString) ''name''],
       n_targs = []\<rparr>],
     type_string = (\<lambda>t. '''')\<rparr>"

text \<open>\<open>w\<close>, node 20, of type \<open>*Workflow\<close>; \<open>w.WorkflowContext\<close>, node 21.\<close>

definition greeting_w :: node where
  "greeting_w = Ident 20 ''w''"

definition greeting_wc :: node where
  "greeting_wc = SelectorExpr 21 greeting_w ''WorkflowContext''"

definition greeting_now :: node where
  "greeting_now = CallExpr 24 (SelectorExpr 0 (SelectorExpr 0 greeting_w ''Time'') ''Now'') [ident ''ctx'']"

definition greeting_body :: "node list" where
  "greeting_body =
     [assign [''user'', ''err''] (CallExpr 22 (flicker_fun ''Run'')
        [ident ''ctx'', greeting_wc, string_literal 23 ''fetch_user'', FuncLit 0 [] [ReturnStmt 0 [ident ''nil'']]]),
      check_err,
      assign [''now'', ''err''] greeting_now,
      check_err,
      assign [''greeting'', ''err''] (CallExpr 25 (flicker_fun ''Run'')
        [ident ''ctx'', greeting_wc, string_literal 26 ''send_greeting'', FuncLit 0 [] [ReturnStmt 0 [ident ''nil'']]]),
      check_err,
      ReturnStmt 0 [StarExpr 0 (ident ''greeting''), ident ''nil'']]"

definition greeting_info :: "nat \<Rightarrow> type_and_value option" where
  "greeting_info = map_of
     [(20, \<lparr>tv_type = Pointer (Named 5), tv_value = None\<rparr>),
      (21, \<lparr>tv_type = Pointer (Named 0), tv_value = None\<rparr>),
      (22, \<lparr>tv_type = Tuple [Pointer (Named 6), Named 1], tv_value = None\<rparr>),
      (25, \<lparr>tv_type = Tuple [Pointer (Named 4), Named 1], tv_value = None\<rparr>)]"

definition greeting_pkg :: package where
  "greeting_pkg = \<lparr>syntax_files = [[FuncDecl 17 ''Execute'' [StarExpr 18 (Ident 19 ''Workflow'')] [] greeting_body]],
     types_info = greeting_info, uses_info = library_uses, pkg_errors = [], types = greeting_types\<rparr>"

text \<open>The step of \<open>w.Time.Now\<close> between the two is missing.\<close>

lemma greeting_steps:
  "map st_Name (fst (walkExecuteBody greeting_pkg greeting_body)) = [''fetch_user'', ''send_greeting'']"
  by code_simp

lemma greeting_receiver: "\<not> isWorkflowContextReceiver greeting_pkg greeting_w"
  by code_simp

end
