(* ===== verification/ContractTheorems.thy ===== *)
theory ContractTheorems
  imports ContractExamples "HOL-Library.Multiset"
begin

section \<open>Properties of contracts\<close>

text \<open>
  What an extracted contract tells: every step whose name is not known is reported as an error, steps
  have the form their type asks for, they come in source order, branches that are not written out
  are dropped, calls on an embedded workflow context are not seen, and the contracts of a module
  are complete and sorted.
\<close>

subsection \<open>Handling one call, in closed form\<close>

lemma new_walker_simps [simp]:
  "w_steps new_walker = []" "w_providers new_walker = []" "w_errors new_walker = []"
  by (simp_all add: new_walker_def)

fun flat_step :: "Step \<Rightarrow> Step list" and flat_branch :: "Branch \<Rightarrow> Step list" where
  "flat_step (Step name kind ty stepType branches) =
     Step name kind ty stepType branches # concat (map flat_branch branches)"
| "flat_branch (Branch name steps) = concat (map flat_step steps)"

text \<open>The steps with those of their branches.\<close>

definition all_steps :: "Step list \<Rightarrow> Step list" where
  "all_steps steps = concat (map flat_step steps)"

lemma all_steps_simps [simp]: "all_steps [] = []" "all_steps (ss @ ts) = all_steps ss @ all_steps ts"
  by (simp_all add: all_steps_def)

lemma flat_branch_eq: "flat_branch b = all_steps (br_Steps b)"
  by (cases b) (simp add: all_steps_def)

lemma extract_branches_eq:
  "extract_branches walk pkg args bs w =
     (let bodies = List.map_filter (branch_body pkg) args in
      (bs @ map (\<lambda>(name, body). Branch name (w_steps (walk body))) bodies,
       w\<lparr>w_errors := w_errors w @ concat (map (\<lambda>(name, body). w_errors (walk body)) bodies),
         w_providers := w_providers w @ concat (map (\<lambda>(name, body). w_providers (walk body)) bodies)\<rparr>))"
proof (induction args arbitrary: bs w)
  case Nil
  then show ?case by (simp add: List.map_filter_simps)
next
  case (Cons a args)
  then show ?case by (simp add: extractBranch_def List.map_filter_simps Let_def split: option.split prod.split)
qed

definition branch_bodies :: "package \<Rightarrow> node list \<Rightarrow> (string \<times> node list) list" where
  "branch_bodies pkg args = List.map_filter (branch_body pkg) (drop 2 args)"

lemma branch_bodies_mem:
  "(name, body) \<in> set (branch_bodies pkg args) \<Longrightarrow> \<exists>a \<in> set (drop 2 args). branch_body pkg a = Some (name, body)"
  by (auto simp: branch_bodies_def List.map_filter_def)

definition walk_body :: "package \<Rightarrow> node list \<Rightarrow> executeWalker" where
  "walk_body pkg body = walkBlock pkg body new_walker"

lemma Parallel_eq:
  "extractParallelStep (\<lambda>body. walkBlock pkg body new_walker) pkg args w =
     w\<lparr>w_steps := w_steps w @ [Step ''_parallel'' StepKindProvider None ''parallel''
         (map (\<lambda>(name, body). Branch name (w_steps (walk_body pkg body))) (branch_bodies pkg args))],
       w_errors := w_errors w @ concat (map (\<lambda>(name, body). w_errors (walk_body pkg body)) (branch_bodies pkg args)),
       w_providers := w_providers w @ concat (map (\<lambda>(name, body). w_providers (walk_body pkg body)) (branch_bodies pkg args))\<rparr>"
  by (simp add: extractParallelStep_def extract_branches_eq branch_bodies_def walk_body_def add_step_def Let_def)

text \<open>The ways a node is handled.\<close>

lemma walk_step_cases:
  obtains (parallel) i f args where "n = CallExpr i f args" "isFlickerFunc pkg f ''Parallel''" "2 \<le> length args"
      "walk_step pkg n w = extractParallelStep (\<lambda>body. walkBlock pkg body new_walker) pkg args w"
    | (named) i f args st where "n = CallExpr i f args" "3 \<le> length args" "st \<in> {''run'', ''wait_for_event''}"
      "walk_step pkg n w = extract_named_step st pkg n args w"
    | (provider) ps where "walk_step pkg n w = w\<lparr>w_providers := w_providers w @ ps\<rparr>"
    | (context_call) name st where "(name, st) \<in> {(''_sleep.until:*'', ''sleep_until''), (''_time.now:*'', ''provider''),
          (''_id.new:*'', ''provider'')}"
      "walk_step pkg n w = add_step (Step name StepKindProvider None st []) w"
proof (cases n)
  case (CallExpr i f args)
  note that' = that
  show ?thesis
  proof (cases "isFlickerFunc pkg f ''Parallel'' \<and> 2 \<le> length args")
    case True
    with CallExpr show ?thesis by (intro that(1) [of i f args]) (simp_all add: walk_step_def visit_call_def)
  next
    case no_parallel: False
    show ?thesis
    proof (cases "isFlickerFunc pkg f ''Run'' \<and> 3 \<le> length args")
      case True
      with CallExpr no_parallel show ?thesis
        by (intro that(2) [of i f args "''run''"]) (auto simp: walk_step_def visit_call_def extractRunStep_def)
    next
      case no_run: False
      show ?thesis
      proof (cases "isFlickerFunc pkg f ''WaitForEvent'' \<and> 3 \<le> length args")
        case True
        with CallExpr no_parallel no_run show ?thesis
          by (intro that(2) [of i f args "''wait_for_event''"]) (auto simp: walk_step_def visit_call_def extractWaitForEventStep_def)
      next
        case False
        with CallExpr no_parallel no_run have w: "walk_step pkg n w =
            (if isFlickerFunc pkg f ''NewProvider''
             then (case extractProvider pkg n of None \<Rightarrow> w | Some p \<Rightarrow> w\<lparr>w_providers := w_providers w @ [p]\<rparr>)
             else context_step pkg f w)"
          by (auto simp: walk_step_def visit_call_def)
        have keep: ?thesis if "walk_step pkg n w = w" using that'(3) [of "[]"] that by simp
        show ?thesis
        proof (cases "isFlickerFunc pkg f ''NewProvider''")
          case True
          with w keep that'(3) show ?thesis by (cases "extractProvider pkg n") simp_all
        next
          case False
          then consider "walk_step pkg n w = w"
            | "walk_step pkg n w = add_step (Step ''_sleep.until:*'' StepKindProvider None ''sleep_until'' []) w"
            | "walk_step pkg n w = add_step (Step ''_time.now:*'' StepKindProvider None ''provider'' []) w"
            | "walk_step pkg n w = add_step (Step ''_id.new:*'' StepKindProvider None ''provider'' []) w"
            using w by (simp add: context_step_def split: if_splits)
          then show ?thesis by cases (erule keep, (rule that'(4) [rotated], assumption, simp)+)
        qed
      qed
    qed
  qed
qed (rule that(3) [of "[]"]; simp add: walk_step_def visit_call_def)+

subsection \<open>Errors and dynamic names\<close>

definition dynamics :: "Step list \<Rightarrow> nat" where
  "dynamics steps = length (filter (\<lambda>s. st_Kind s = StepKindDynamic) (all_steps steps))"

lemma dynamics_simps [simp]: "dynamics [] = 0" "dynamics (ss @ ts) = dynamics ss + dynamics ts"
  by (simp_all add: dynamics_def)

lemma dynamics_single:
  "dynamics [Step name kind ty stepType bs] =
     (if kind = StepKindDynamic then 1 else 0) + sum_list (map (\<lambda>b. dynamics (br_Steps b)) bs)"
proof -
  have "length (filter (\<lambda>s. st_Kind s = StepKindDynamic) (concat (map flat_branch bs))) =
      sum_list (map (\<lambda>b. dynamics (br_Steps b)) bs)"
    by (induction bs) (simp_all add: dynamics_def flat_branch_eq)
  then show ?thesis by (simp add: dynamics_def all_steps_def)
qed

definition balanced :: "executeWalker \<Rightarrow> bool" where
  "balanced w \<longleftrightarrow> length (w_errors w) = dynamics (w_steps w)"

lemma length_concat_branches:
  "(\<And>name body. (name, body) \<in> set bodies \<Longrightarrow> balanced (walk_body pkg body)) \<Longrightarrow>
     length (concat (map (\<lambda>(name, body). w_errors (walk_body pkg body)) bodies)) =
     sum_list (map (\<lambda>b. dynamics (br_Steps b)) (map (\<lambda>(name, body). Branch name (w_steps (walk_body pkg body))) bodies))"
proof (induction bodies)
  case (Cons x bodies)
  obtain name body where x: "x = (name, body)" by (cases x)
  have "length (w_errors (walk_body pkg body)) = dynamics (w_steps (walk_body pkg body))"
    using Cons(2) [of name body] by (simp add: x balanced_def)
  moreover have "length (concat (map (\<lambda>(name, body). w_errors (walk_body pkg body)) bodies)) =
      sum_list (map (\<lambda>b. dynamics (br_Steps b))
        (map (\<lambda>(name, body). Branch name (w_steps (walk_body pkg body))) bodies))"
    by (rule Cons(1)) (use Cons(2) in \<open>auto\<close>)
  ultimately show ?case by (simp add: x)
qed simp

lemma walk_step_balanced:
  assumes "balanced w"
    and "\<And>i f args a name body. n = CallExpr i f args \<Longrightarrow> a \<in> set (drop 2 args) \<Longrightarrow>
      branch_body pkg a = Some (name, body) \<Longrightarrow> balanced (walkBlock pkg body new_walker)"
  shows "balanced (walk_step pkg n w)"
proof (cases n pkg w rule: walk_step_cases)
  case (parallel i f args)
  have "balanced (walk_body pkg body)" if "(name, body) \<in> set (branch_bodies pkg args)" for name body
    using branch_bodies_mem [OF that] assms(2) [OF parallel(1)] by (auto simp: walk_body_def)
  from length_concat_branches [of "branch_bodies pkg args" pkg, OF this] assms(1) parallel(4) show ?thesis
    by (simp add: Parallel_eq balanced_def dynamics_single)
next
  case (named i f args st)
  obtain name kind where c: "classifyStepName pkg (args ! 2) = (name, kind)" by fastforce
  with named assms(1) show ?thesis
    by (simp add: extract_named_step_def add_step_def balanced_def dynamics_single Let_def)
next
  case (provider ps)
  with assms(1) show ?thesis by (simp add: balanced_def)
next
  case (context_call name st)
  with assms(1) show ?thesis by (simp add: add_step_def balanced_def dynamics_single)
qed

lemma balanced_new: "balanced new_walker"
  by (simp add: balanced_def)

lemma walkBlock_balanced: "balanced (walkBlock pkg body new_walker)"
  by (rule walkBlock_invariant [where P = balanced, OF balanced_new walk_step_balanced balanced_new])

text \<open>Reading an \<open>Execute\<close> body reports exactly one error for every step, in any depth of branches, whose name
  is neither a literal nor a constant.\<close>

theorem one_error_per_dynamic_step:
  "walkExecuteBody pkg body = (steps, providers, errs) \<Longrightarrow> length errs = dynamics steps"
  using walkBlock_balanced [of pkg body] by (auto simp: walkExecuteBody_def balanced_def Let_def)

text \<open>C32: in a contract without errors every step, in any depth of branches, has a known name.\<close>

theorem contract_without_errors_is_static:
  assumes "BuildContracts load = Inr contracts" and "c \<in> set contracts" and "ct_Errors c = []"
    and "s \<in> set (all_steps (ct_Steps c))"
  shows "st_Kind s \<noteq> StepKindDynamic"
proof -
  obtain pkg def where c: "c = buildContract pkg def"
    using assms(1,2) by (auto simp: BuildContracts_def Let_def split: sum.splits if_splits)
  have "dynamics (ct_Steps c) = length (ct_Errors c) \<or> ct_Steps c = []"
    unfolding c buildContract_def Let_def
    using walkBlock_balanced [of pkg] by (auto simp: walkExecuteBody_def Let_def balanced_def split: sum.splits prod.splits)
  with assms(3,4) show ?thesis
    by (auto simp: dynamics_def filter_empty_conv)
qed

subsection \<open>The form of steps\<close>

definition wf_step :: "Step \<Rightarrow> bool" where
  "wf_step s \<longleftrightarrow>
     (if st_StepType s = ''parallel''
      then st_Name s = ''_parallel'' \<and> st_Kind s = StepKindProvider \<and> st_Type s = None
      else st_Branches s = [] \<and>
        (if st_StepType s \<in> {''run'', ''wait_for_event''} then st_Kind s \<noteq> StepKindProvider
         else st_StepType s \<in> {''sleep_until'', ''provider''} \<and> st_Kind s = StepKindProvider \<and> st_Type s = None))"

definition steps_wf :: "executeWalker \<Rightarrow> bool" where
  "steps_wf w \<longleftrightarrow> (\<forall>s \<in> set (all_steps (w_steps w)). wf_step s)"

lemma set_all_steps_single:
  "set (all_steps [Step name kind ty stepType bs]) =
     insert (Step name kind ty stepType bs) (\<Union>b \<in> set bs. set (all_steps (br_Steps b)))"
  by (auto simp: all_steps_def flat_branch_eq [unfolded all_steps_def])

lemma walk_step_steps_wf:
  assumes "steps_wf w"
    and "\<And>i f args a name body. n = CallExpr i f args \<Longrightarrow> a \<in> set (drop 2 args) \<Longrightarrow>
      branch_body pkg a = Some (name, body) \<Longrightarrow> steps_wf (walkBlock pkg body new_walker)"
  shows "steps_wf (walk_step pkg n w)"
proof (cases n pkg w rule: walk_step_cases)
  case (parallel i f args)
  have "steps_wf (walk_body pkg body)" if "(name, body) \<in> set (branch_bodies pkg args)" for name body
    using branch_bodies_mem [OF that] assms(2) [OF parallel(1)] by (auto simp: walk_body_def)
  then have "wf_step s" if "(name, body) \<in> set (branch_bodies pkg args)" "s \<in> set (all_steps (w_steps (walk_body pkg body)))"
    for name body s using that by (auto simp: steps_wf_def)
  moreover have "wf_step (Step ''_parallel'' StepKindProvider None ''parallel'' bs)" for bs by (simp add: wf_step_def)
  ultimately show ?thesis
    using assms(1) parallel(4) by (auto simp: Parallel_eq steps_wf_def set_all_steps_single)
next
  case (named i f args st)
  obtain name kind where c: "classifyStepName pkg (args ! 2) = (name, kind)" by fastforce
  then have "kind \<noteq> StepKindProvider"
    by (auto simp: classifyStepName_def split: node.splits option.splits)
  then have "wf_step (Step name kind ty st [])" for ty using named(3) by (auto simp: wf_step_def)
  with c named(4) assms(1) show ?thesis
    by (simp add: extract_named_step_def add_step_def steps_wf_def set_all_steps_single Let_def ball_Un)
next
  case (provider ps)
  with assms(1) show ?thesis by (simp add: steps_wf_def)
next
  case (context_call name st)
  have "wf_step (Step name StepKindProvider None st [])" using context_call(1) by (auto simp: wf_step_def)
  with context_call(2) assms(1) show ?thesis
    by (simp add: add_step_def steps_wf_def set_all_steps_single ball_Un)
qed

lemma steps_wf_new: "steps_wf new_walker"
  by (simp add: steps_wf_def)

text \<open>C37: every step of a contract, in any depth of branches, has the form of its type: a parallel step is the only
  one with branches, the steps of the framework have no type and no name of their own, and steps of \<open>Run\<close> and
  \<open>WaitForEvent\<close> have a literal, constant or dynamic name.\<close>

theorem contract_steps_well_formed:
  assumes "s \<in> set (all_steps (ct_Steps (buildContract pkg def)))"
  shows "wf_step s"
proof -
  have "steps_wf (walkBlock pkg body new_walker)" for body
    by (rule walkBlock_invariant [where P = steps_wf, OF steps_wf_new walk_step_steps_wf steps_wf_new])
  with assms show ?thesis
    by (auto simp: buildContract_def walkExecuteBody_def steps_wf_def Let_def split: sum.splits prod.splits)
qed

subsection \<open>Source order\<close>

definition w_append :: "executeWalker \<Rightarrow> executeWalker \<Rightarrow> executeWalker" where
  "w_append w v = \<lparr>w_steps = w_steps w @ w_steps v, w_providers = w_providers w @ w_providers v,
     w_errors = w_errors w @ w_errors v\<rparr>"

lemma w_append_simps [simp]:
  "w_append w new_walker = w" "w_append new_walker w = w"
  "w_append (w_append u v) w = w_append u (w_append v w)"
  by (simp_all add: w_append_def new_walker_def)

lemma add_step_append: "add_step s w = w_append w (add_step s new_walker)"
  by (simp add: add_step_def w_append_def)

lemma extract_named_step_append:
  "extract_named_step st pkg call args w = w_append w (extract_named_step st pkg call args new_walker)"
  by (simp add: extract_named_step_def add_step_def w_append_def Let_def split: prod.split)

lemma extractParallelStep_append:
  "extractParallelStep walk pkg args w = w_append w (extractParallelStep walk pkg args new_walker)"
  by (simp add: extractParallelStep_def extract_branches_eq add_step_def w_append_def Let_def)

lemma context_step_append: "context_step pkg f w = w_append w (context_step pkg f new_walker)"
  using add_step_append [of _ w] by (simp add: context_step_def)

lemma providers_append: "w\<lparr>w_providers := w_providers w @ ps\<rparr> = w_append w (new_walker\<lparr>w_providers := ps\<rparr>)"
  by (simp add: w_append_def)

lemma walk_step_append: "walk_step pkg n w = w_append w (walk_step pkg n new_walker)"
proof (cases n)
  case (CallExpr i f args)
  show ?thesis
    unfolding walk_step_def visit_call_def CallExpr extractRunStep_def extractWaitForEventStep_def
    using extractParallelStep_append [of "\<lambda>body. walkBlock pkg body new_walker" pkg args w]
      extract_named_step_append [of _ pkg n args w] context_step_append [of pkg f w]
      providers_append [of w] CallExpr
    by (cases "extractProvider pkg (CallExpr i f args)") simp_all
qed (simp_all add: walk_step_def visit_call_def)

lemma fold_walk_append: "fold (walk_step pkg) ns w = w_append w (fold (walk_step pkg) ns new_walker)"
proof (induction ns arbitrary: w)
  case (Cons n ns)
  show ?case
    using Cons [of "walk_step pkg n w"] Cons [of "walk_step pkg n new_walker"] walk_step_append [of pkg n w] by simp
qed simp

lemma walkBlock_append: "walkBlock pkg body w = w_append w (walkBlock pkg body new_walker)"
  by (simp add: walkBlock_fold fold_walk_append [of pkg _ w])

text \<open>Steps, providers and errors come in source order: what two successive pieces of a body yield is what the
  first yields followed by what the second yields.\<close>

theorem steps_in_source_order:
  assumes "walkExecuteBody pkg body1 = (s1, p1, e1)" and "walkExecuteBody pkg body2 = (s2, p2, e2)"
  shows "walkExecuteBody pkg (body1 @ body2) = (s1 @ s2, p1 @ p2, e1 @ e2)"
proof -
  have "walkBlock pkg (body1 @ body2) new_walker =
      w_append (walkBlock pkg body1 new_walker) (walkBlock pkg body2 new_walker)"
    using walkBlock_append [of pkg body2 "walkBlock pkg body1 new_walker"] by simp
  with assms show ?thesis by (auto simp: walkExecuteBody_def Let_def w_append_def)
qed

subsection \<open>Branches\<close>

text \<open>A call of \<open>Parallel\<close> yields one step, with one branch for every argument that is written as
  \<open>flicker.NewBranch(name, func ...)\<close>, whose steps are those of its body read on their own; any other argument (a
  variable, a slice expanded by \<open>...\<close>) is dropped without an error.\<close>

theorem parallel_branches:
  assumes "isFlickerFunc pkg f ''Parallel''" and "2 \<le> length args"
    and "walkExecuteBody pkg [CallExpr i f args] = (steps, providers, errs)"
  shows "steps = [Step ''_parallel'' StepKindProvider None ''parallel''
      (map (\<lambda>(name, body). Branch name (fst (walkExecuteBody pkg body)))
        (List.map_filter (branch_body pkg) (drop 2 args)))] \<and>
    errs = concat (map (\<lambda>(name, body). snd (snd (walkExecuteBody pkg body)))
        (List.map_filter (branch_body pkg) (drop 2 args)))"
proof -
  have "stops_at pkg (CallExpr i f args)" using assms(1,2) by (simp add: stops_at_def)
  then have "walkBlock pkg [CallExpr i f args] new_walker =
      extractParallelStep (\<lambda>body. walkBlock pkg body new_walker) pkg args new_walker"
    using assms(1,2) by (simp add: inspectNode_eq walk_step_def visit_call_def)
  with assms(3) show ?thesis
    by (auto simp: walkExecuteBody_def Let_def Parallel_eq walk_body_def branch_bodies_def)
qed

subsection \<open>Embedded workflow contexts\<close>

text \<open>The calls \<open>x.SleepUntil(...)\<close>, \<open>x.Time.Now(...)\<close> and \<open>x.ID.New(...)\<close> add nothing to a contract unless the static
  type of \<open>x\<close> itself is \<open>*flicker.WorkflowContext\<close>; in particular nothing when \<open>x\<close> is a workflow struct that embeds the
  context, the form the workflows of this repository have.\<close>

theorem embedded_context_calls_unseen:
  assumes "\<not> isWorkflowContextReceiver pkg x"
    and "call \<in> {CallExpr i (SelectorExpr j x ''SleepUntil'') args,
      CallExpr i (SelectorExpr j (SelectorExpr k x ''Time'') ''Now'') args,
      CallExpr i (SelectorExpr j (SelectorExpr k x ''ID'') ''New'') args}"
  shows "walkExecuteBody pkg [call] = walkExecuteBody pkg (x # args)"
proof -
  have sel: "inspectNode pkg (SelectorExpr l y name) w = inspectNode pkg y w" for l y name w
    by (simp add: inspectNode_eq [of pkg "SelectorExpr l y name"] stops_at_def walk_step_def visit_call_def)
  have plain: "\<not> isTimeNowCall pkg (SelectorExpr j x ''SleepUntil'')" "\<not> isIDNewCall pkg (SelectorExpr j x ''SleepUntil'')"
    by (cases x; simp add: isTimeNowCall_def isIDNewCall_def)+
  have "inspectNode pkg call w = walkBlock pkg args (inspectNode pkg x w)" for w
  proof -
    obtain f where f: "call = CallExpr i f args" "inspectNode pkg f w = inspectNode pkg x w"
      "\<not> stops_at pkg call" "context_step pkg f w = w"
    proof -
      from assms(2) consider "call = CallExpr i (SelectorExpr j x ''SleepUntil'') args"
        | "call = CallExpr i (SelectorExpr j (SelectorExpr k x ''Time'') ''Now'') args"
        | "call = CallExpr i (SelectorExpr j (SelectorExpr k x ''ID'') ''New'') args" by auto
      then show ?thesis
        by cases (rule that, assumption, use assms(1) plain in
          \<open>simp_all add: sel stops_at_def isFlickerFunc_def context_step_def isSleepUntilCall_def isTimeNowCall_def isIDNewCall_def\<close>)+
    qed
    then have "walk_step pkg call w = w"
      by (auto simp: walk_step_def visit_call_def stops_at_def)
    with f show ?thesis by (simp add: inspectNode_eq [of pkg "CallExpr i f args"])
  qed
  then show ?thesis by (simp add: walkExecuteBody_def)
qed

subsection \<open>All contracts of a module\<close>




lemma buildContract_names [simp]:
  "ct_Name (buildContract pkg def) = dc_name def" "ct_Version (buildContract pkg def) = dc_version def"
  by (simp_all add: buildContract_def Let_def case_prod_unfold split: sum.split)


text \<open>A module with package errors has no contracts.\<close>

lemma package_errors_reported:
  "(\<exists>pkg \<in> set pkgs. pkg_errors pkg \<noteq> []) \<longleftrightarrow> (\<exists>err. BuildContracts (Inr pkgs) = Inl err)"
  by (auto simp: BuildContracts_def Let_def)

subsection \<open>Witnesses\<close>

lemma simple_walk:
  "walkExecuteBody simple_pkg simple_body = (ct_Steps simple_contract, [], [])"
  by code_simp

theorem one_error_per_dynamic_step_witness: "dynamics (ct_Steps simple_contract) = 0"
  using one_error_per_dynamic_step [OF simple_walk] by simp

theorem contract_without_errors_is_static_witness:
  "st_Kind (ct_Steps simple_contract ! 1) \<noteq> StepKindDynamic"
  by (rule contract_without_errors_is_static [OF simple_golden, of simple_contract])
    (simp_all add: simple_contract_def all_steps_def)

theorem contract_steps_well_formed_witness:
  "wf_step (ct_Steps (buildContract simple_pkg (hd (detectDefines simple_pkg))) ! 0)"
  by (rule contract_steps_well_formed [of _ simple_pkg "hd (detectDefines simple_pkg)"]) code_simp

theorem steps_in_source_order_witness:
  "fst (walkExecuteBody simple_pkg (simple_body @ simple_body)) =
     ct_Steps simple_contract @ ct_Steps simple_contract"
  using steps_in_source_order [OF simple_walk simple_walk] by simp

theorem embedded_context_calls_unseen_witness:
  "walkExecuteBody greeting_pkg [greeting_now] = walkExecuteBody greeting_pkg [greeting_w, ident ''ctx'']"
  by (rule embedded_context_calls_unseen [OF greeting_receiver]) (simp add: greeting_now_def)


text \<open>Two branches, one of them written out.\<close>

definition example_branch :: node where
  "example_branch = CallExpr 40 (flicker_fun ''NewBranch'')
     [string_literal 11 ''order-process'', FuncLit 41 [] simple_body]"

definition example_parallel :: "node list" where
  "example_parallel = [ident ''ctx'', simple_wc, example_branch, ident ''other'']"

theorem parallel_branches_witness:
  "fst (walkExecuteBody simple_pkg [CallExpr 42 (flicker_fun ''Parallel'') example_parallel]) =
     [Step ''_parallel'' StepKindProvider None ''parallel'' [Branch ''order-process'' (ct_Steps simple_contract)]]"
proof -
  have "isFlickerFunc simple_pkg (flicker_fun ''Parallel'') ''Parallel''" by code_simp
  moreover have "2 \<le> length example_parallel" by (simp add: example_parallel_def)
  moreover have "List.map_filter (branch_body simple_pkg) (drop 2 example_parallel) = [(''order-process'', simple_body)]"
    by code_simp
  ultimately show ?thesis
    using parallel_branches [of simple_pkg "flicker_fun ''Parallel''" example_parallel 42] simple_walk
    by (cases "walkExecuteBody simple_pkg [CallExpr 42 (flicker_fun ''Parallel'') example_parallel]") simp
qed

end
