(* ===== verification/Workflows.thy ===== *)
theory Workflows
  imports Runner
begin

section \<open>The workflows of the repository\<close>

text \<open>
  \<^verbatim>\<open>workflows/greeting/v1\<close> and \<^verbatim>\<open>workflows/order/v1\<close>. An \<open>Execute\<close> is a composition of durable calls: \<open>and_then\<close>
  is a call followed by \<open>if err != nil { return zero, err }\<close>, and a panic outside of a step function
  ends the execution. The codecs of the step types, the HTTP client, the JSON decoder of a response
  body and the repository are parameters; client and repository act on the world and may panic. A
  response has the fields the code can look at, and an error while its body is read is one of the
  decoder's. Logging is left out.
\<close>

definition and_then :: "'a go_outcome \<times> wctx \<times> 'w env \<Rightarrow> ('a \<Rightarrow> wctx \<Rightarrow> 'w env \<Rightarrow> 'b go_outcome \<times> 'w env) \<Rightarrow>
    'b go_outcome \<times> 'w env" where
  "and_then x k = continue x (\<lambda>r wc e. case r of Inl err \<Rightarrow> (Returned (Inl err), e) | Inr v \<Rightarrow> k v wc e)"

definition nil_dereference :: "'a go_outcome" where
  "nil_dereference = Panicked ''runtime error: invalid memory address or nil pointer dereference'' ''''"

subsection \<open>Greeting\<close>

record GreetingRequest =
  gr_UserID :: string

record GreetingUser =
  gu_ID :: string
  gu_Name :: string

record Greeting =
  g_Message :: string
  g_UserID :: string

record greeting_json =
  json_user :: "GreetingUser codec"
  json_time :: "time codec"
  json_greeting :: "Greeting codec"

text \<open>\<open>now.Format("2006-01-02T15:04:05Z")\<close> of a time in UTC.\<close>

definition format_now :: "time \<Rightarrow> string" where
  "format_now t = stamp t @ ''Z''"

definition fetch_greeted :: "GreetingRequest \<Rightarrow> 'w \<Rightarrow> GreetingUser option go_outcome \<times> 'w" where
  "fetch_greeted req w = (Returned (Inr (Some \<lparr>gu_ID = gr_UserID req, gu_Name = ''Alice''\<rparr>)), w)"

definition send_greeting :: "string \<Rightarrow> GreetingUser \<Rightarrow> 'w \<Rightarrow> Greeting option go_outcome \<times> 'w" where
  "send_greeting msg user w = (Returned (Inr (Some \<lparr>g_Message = msg, g_UserID = gu_ID user\<rparr>)), w)"

definition greeting_message :: "GreetingUser \<Rightarrow> time \<Rightarrow> string" where
  "greeting_message user t = ''Hello, '' @ gu_Name user @ ''! ('' @ format_now t @ '')''"

definition greeting_Execute :: "greeting_json \<Rightarrow> GreetingRequest \<Rightarrow> wctx \<Rightarrow> 'w env \<Rightarrow> Greeting go_outcome \<times> 'w env" where
  "greeting_Execute js req wc e =
     and_then (as_call (\<lambda>wc. Run (json_user js) wc ''fetch_user'' (on_world (fetch_greeted req))) wc e) (\<lambda>user wc e.
     and_then (TimeNow (json_time js) wc e) (\<lambda>t wc e.
     case user of None \<Rightarrow> (nil_dereference, e) | Some user \<Rightarrow>
     let msg = greeting_message user t in
     and_then (as_call (\<lambda>wc. Run (json_greeting js) wc ''send_greeting'' (on_world (send_greeting msg user))) wc e)
       (\<lambda>greeting wc e.
     case greeting of None \<Rightarrow> (nil_dereference, e) | Some greeting \<Rightarrow>
     (Returned (Inr greeting), e))))"

text \<open>\<open>Definition\<close>, with the codec of the request and the encoder of the answer.\<close>

definition greeting_Definition :: "greeting_json \<Rightarrow> (bytes option \<Rightarrow> GreetingRequest res) \<Rightarrow> (Greeting \<Rightarrow> bytes res) \<Rightarrow>
    (GreetingRequest, Greeting, 'w) WorkflowDef" where
  "greeting_Definition js unm mar = Define ''greeting'' ''v1'' unm mar (\<lambda>wc req. greeting_Execute js req wc)"

subsection \<open>Order\<close>

text \<open>\<open>Amount\<close> is a 64-bit float that the workflow only carries; it is kept as its bits.\<close>

record OrderRequest =
  or_OrderID :: string
  or_CustomerID :: string
  or_Amount :: "64 word"

record OrderUser =
  ou_ID :: string
  ou_Name :: string
  ou_Email :: string

record Reservation =
  rs_ID :: string
  rs_ExpiresAt :: time

record PaymentResult =
  pr_Status :: string
  pr_Reference :: string

record OrderResult =
  res_OrderID :: string
  res_Status :: string
  res_PaymentRef :: string
  res_ReservationID :: string

record response =
  StatusCode :: int
  Body :: bytes

record 'w order_deps =
  client_Get :: "string \<Rightarrow> 'w \<Rightarrow> response go_outcome \<times> 'w"
  client_Post :: "string \<Rightarrow> string \<Rightarrow> 'w \<Rightarrow> response go_outcome \<times> 'w"
  baseURL :: string
  SaveOrder :: "OrderResult \<Rightarrow> 'w \<Rightarrow> unit go_outcome \<times> 'w"
  decode_user :: "bytes \<Rightarrow> OrderUser res"
  decode_reservation :: "bytes \<Rightarrow> Reservation res"
  decode_payment :: "bytes \<Rightarrow> PaymentResult res"

record order_json =
  json_customer :: "OrderUser codec"
  json_reservation :: "Reservation codec"
  json_sleep :: "time codec"
  json_payment :: "PaymentResult codec"
  json_order :: "OrderResult codec"

text \<open>A request whose answer is decoded from the body.\<close>

definition decoded :: "string \<Rightarrow> string \<Rightarrow> (bytes \<Rightarrow> 'a res) \<Rightarrow> response go_outcome \<times> 'w \<Rightarrow> 'a option go_outcome \<times> 'w" where
  "decoded request_error decode_error dec x =
     (case x of
        (Panicked v stack, w) \<Rightarrow> (Panicked v stack, w)
      | (Returned (Inl err), w) \<Rightarrow> (Returned (Inl (WrapError request_error err)), w)
      | (Returned (Inr resp), w) \<Rightarrow>
          (case dec (Body resp) of
             Inl err \<Rightarrow> (Returned (Inl (WrapError decode_error err)), w)
           | Inr v \<Rightarrow> (Returned (Inr (Some v)), w)))"

definition fetch_user :: "'w order_deps \<Rightarrow> OrderRequest \<Rightarrow> 'w \<Rightarrow> OrderUser option go_outcome \<times> 'w" where
  "fetch_user d req w =
     decoded ''fetch user'' ''decode user'' (decode_user d)
       (client_Get d (baseURL d @ ''/users/'' @ or_CustomerID req) w)"

text \<open>The user is read for the log only.\<close>

definition reserve_inventory :: "'w order_deps \<Rightarrow> OrderUser option \<Rightarrow> 'w \<Rightarrow> Reservation option go_outcome \<times> 'w" where
  "reserve_inventory d user w =
     (if user = None then (nil_dereference, w)
      else decoded ''reserve inventory'' ''decode reservation'' (decode_reservation d)
        (client_Post d (baseURL d @ ''/inventory/reserve'') ''application/json'' w))"

definition check_payment :: "'w order_deps \<Rightarrow> OrderRequest \<Rightarrow> 'w \<Rightarrow> PaymentResult option go_outcome \<times> 'w" where
  "check_payment d req w =
     decoded ''check payment'' ''decode payment'' (decode_payment d)
       (client_Get d (baseURL d @ ''/payments/'' @ or_OrderID req) w)"

definition order_status :: "PaymentResult \<Rightarrow> string" where
  "order_status payment = (if pr_Status payment \<noteq> ''approved'' then ''cancelled'' else ''confirmed'')"

definition order_result :: "OrderRequest \<Rightarrow> Reservation \<Rightarrow> PaymentResult \<Rightarrow> OrderResult" where
  "order_result req reservation payment =
     \<lparr>res_OrderID = or_OrderID req, res_Status = order_status payment, res_PaymentRef = pr_Reference payment,
      res_ReservationID = rs_ID reservation\<rparr>"

definition save_order :: "'w order_deps \<Rightarrow> OrderResult \<Rightarrow> 'w \<Rightarrow> OrderResult option go_outcome \<times> 'w" where
  "save_order d r w =
     (case SaveOrder d r w of
        (Panicked v stack, w) \<Rightarrow> (Panicked v stack, w)
      | (Returned (Inl err), w) \<Rightarrow> (Returned (Inl (WrapError ''save order'' err)), w)
      | (Returned (Inr _), w) \<Rightarrow> (Returned (Inr (Some r)), w))"

text \<open>\<open>Execute\<close>: up to the reservation, the sleep, and from the payment on.\<close>

definition order_settle :: "order_json \<Rightarrow> 'w order_deps \<Rightarrow> OrderRequest \<Rightarrow> Reservation \<Rightarrow> wctx \<Rightarrow> 'w env \<Rightarrow>
    OrderResult go_outcome \<times> 'w env" where
  "order_settle js d req reservation wc e =
     and_then (as_call (\<lambda>wc. Run (json_payment js) wc ''check_payment'' (on_world (check_payment d req))) wc e)
       (\<lambda>payment wc e.
     case payment of None \<Rightarrow> (nil_dereference, e) | Some payment \<Rightarrow>
     and_then (as_call (\<lambda>wc. Run (json_order js) wc ''save_result''
         (on_world (save_order d (order_result req reservation payment)))) wc e) (\<lambda>result wc e.
     case result of None \<Rightarrow> (nil_dereference, e) | Some result \<Rightarrow> (Returned (Inr result), e)))"

definition order_Execute :: "order_json \<Rightarrow> 'w order_deps \<Rightarrow> OrderRequest \<Rightarrow> wctx \<Rightarrow> 'w env \<Rightarrow>
    OrderResult go_outcome \<times> 'w env" where
  "order_Execute js d req wc e =
     and_then (as_call (\<lambda>wc. Run (json_customer js) wc ''fetch_user'' (on_world (fetch_user d req))) wc e) (\<lambda>user wc e.
     and_then (as_call (\<lambda>wc. Run (json_reservation js) wc ''reserve_inventory''
         (on_world (reserve_inventory d user))) wc e) (\<lambda>reservation wc e.
     case reservation of None \<Rightarrow> (nil_dereference, e) | Some reservation \<Rightarrow>
     and_then (SleepUntil (json_sleep js) wc (rs_ExpiresAt reservation) e) (\<lambda>_. order_settle js d req reservation)))"

definition NewDefinition :: "order_json \<Rightarrow> 'w order_deps \<Rightarrow> (bytes option \<Rightarrow> OrderRequest res) \<Rightarrow> (OrderResult \<Rightarrow> bytes res) \<Rightarrow>
    (OrderRequest, OrderResult, 'w) WorkflowDef" where
  "NewDefinition js d unm mar = Define ''order'' ''v1'' unm mar (\<lambda>wc req. order_Execute js d req wc)"

end
