(* ===== verification/WorkflowTheorems.thy ===== *)
theory WorkflowTheorems
  imports Workflows Examples
begin

section \<open>Properties of the workflows\<close>

text \<open>
  The greeting and the order workflow replay, an order suspends until its reservation ends and comes
  back to the payment without contacting a service, and what they decide. The lemmas on \<open>and_then\<close>
  carry the general replay theorem over to compositions of calls of different types.
\<close>

subsection \<open>Compositions\<close>

lemma and_then_cases:
  assumes "and_then x k = (out, e')"
  obtains (failed) err wc' where "x = (Returned (Inl err), wc', e')" "out = Returned (Inl err)"
    | (answer) v wc' e1 where "x = (Returned (Inr v), wc', e1)" "k v wc' e1 = (out, e')"
    | (panic) v stack wc' where "x = (Panicked v stack, wc', e')" "out = Panicked v stack"
  using assms by (cases x) (auto simp: and_then_def continue_def split: go_outcome.splits sum.splits)

lemma comes_back_and_then:
  assumes "\<And>wc e. P wc e = and_then (op wc e) k" and "durable_call op succeeded"
    and "\<And>v. comes_back out ok Q (k v)"
    and "\<And>wc e err wc' e'. op wc e = (Returned (Inl err), wc', e') \<Longrightarrow> out \<noteq> Returned (Inl err)"
    and "\<And>v stack. out \<noteq> Panicked v stack" and "\<And>e e'. ok e \<Longrightarrow> replayed e e' \<Longrightarrow> ok e'"
  shows "comes_back out ok Q P"
proof (rule comes_back_step [OF assms(1) [unfolded and_then_def] assms(2)])
  fix r :: "'c res" assume "succeeded r"
  then obtain v where "r = Inr v" by (auto simp: succeeded_def)
  then show "comes_back out ok Q
      (\<lambda>wc e. case r of Inl err \<Rightarrow> (Returned (Inl err), e) | Inr v \<Rightarrow> k v wc e)"
    using assms(3) [of v] by simp
next
  fix wc e r wc' e' assume op: "op wc e = (Returned r, wc', e')" and "\<not> succeeded r"
  then obtain err where r: "r = Inl err" by (cases r) (auto simp: succeeded_def)
  have "out \<noteq> Returned (Inl err)" by (rule assms(4) [OF op [unfolded r]])
  with r show "fst (case r of Inl err \<Rightarrow> (Returned (Inl err), e') | Inr v \<Rightarrow> k v wc' e') \<noteq> out" by auto
qed (use assms(5,6) in blast)+

lemma replays_and_then:
  assumes "\<And>wc e. P wc e = and_then (op wc e) k" and "durable_call op succeeded" and "\<And>v. replays (k v)"
  shows "replays P"
  unfolding replays_def
  by (intro allI, rule comes_back_and_then [OF assms(1,2)]) (use assms(3) in \<open>auto simp: replays_def\<close>)

lemma replays_panic: "replays (\<lambda>wc e. (nil_dereference, e))"
  by (simp add: replays_def comes_back_def nil_dereference_def)

text \<open>A step on the world that never yields a nil pointer.\<close>

lemma durable_world_step:
  assumes "\<And>w. fst (f w) \<noteq> Returned (Inr None)" and "round_trip cd"
  shows "durable_call (as_call (\<lambda>wc. Run cd wc name (on_world f))) succeeded"
  by (rule durable_Run [OF tame_on_world _ assms(2)]) (use assms(1) in \<open>simp add: on_world_def case_prod_unfold Let_def\<close>)

lemma decoded_not_nil [simp]: "fst (decoded a b dec x) \<noteq> Returned (Inr None)"
  by (auto simp: decoded_def split: prod.splits go_outcome.splits sum.splits)

lemma order_steps_not_nil:
  "fst (fetch_user d req w) \<noteq> Returned (Inr None)" "fst (reserve_inventory d user w) \<noteq> Returned (Inr None)"
  "fst (check_payment d req w) \<noteq> Returned (Inr None)" "fst (save_order d r w) \<noteq> Returned (Inr None)"
  by (auto simp: fetch_user_def reserve_inventory_def check_payment_def save_order_def nil_dereference_def
      split: prod.splits go_outcome.splits sum.splits)

subsection \<open>Replay\<close>

definition greeting_codecs :: "greeting_json \<Rightarrow> bool" where
  "greeting_codecs js \<longleftrightarrow> round_trip (json_user js) \<and> round_trip (json_time js) \<and> round_trip (json_greeting js)"

definition order_codecs :: "order_json \<Rightarrow> bool" where
  "order_codecs js \<longleftrightarrow> round_trip (json_customer js) \<and> round_trip (json_reservation js) \<and>
     round_trip (json_sleep js) \<and> round_trip (json_payment js) \<and> round_trip (json_order js)"

lemma replays_result: "replays (\<lambda>wc e. case x of None \<Rightarrow> (nil_dereference, e) | Some v \<Rightarrow> (Returned (Inr v), e))"
  using replays_panic replays_return by (cases x) simp_all

lemma greeting_replays:
  assumes "greeting_codecs js"
  shows "replays (greeting_Execute js req)"
proof (rule replays_and_then [OF greeting_Execute_def])
  show "durable_call (as_call (\<lambda>wc. Run (json_user js) wc ''fetch_user'' (on_world (fetch_greeted req)))) succeeded"
    by (rule durable_world_step) (use assms in \<open>simp_all add: fetch_greeted_def greeting_codecs_def\<close>)
next
  fix user
  show "replays (\<lambda>wc e. and_then (TimeNow (json_time js) wc e) (\<lambda>t wc e.
     case user of None \<Rightarrow> (nil_dereference, e) | Some user \<Rightarrow>
     let msg = greeting_message user t in
     and_then (as_call (\<lambda>wc. Run (json_greeting js) wc ''send_greeting'' (on_world (send_greeting msg user))) wc e)
       (\<lambda>greeting wc e. case greeting of None \<Rightarrow> (nil_dereference, e) | Some greeting \<Rightarrow> (Returned (Inr greeting), e))))"
  proof (rule replays_and_then [OF refl durable_TimeNow])
    show "round_trip (json_time js)" using assms by (simp add: greeting_codecs_def)
  next
    fix t
    have "replays (\<lambda>wc e. and_then (as_call (\<lambda>wc. Run (json_greeting js) wc ''send_greeting''
        (on_world (send_greeting (greeting_message u t) u))) wc e)
       (\<lambda>greeting wc e. case greeting of None \<Rightarrow> (nil_dereference, e) | Some greeting \<Rightarrow> (Returned (Inr greeting), e)))" for u
      by (rule replays_and_then [OF refl durable_world_step replays_result])
        (use assms in \<open>simp_all add: send_greeting_def greeting_codecs_def\<close>)
    then show "replays (\<lambda>wc e. case user of None \<Rightarrow> (nil_dereference, e) | Some user \<Rightarrow>
       let msg = greeting_message user t in
       and_then (as_call (\<lambda>wc. Run (json_greeting js) wc ''send_greeting'' (on_world (send_greeting msg user))) wc e)
       (\<lambda>greeting wc e. case greeting of None \<Rightarrow> (nil_dereference, e) | Some greeting \<Rightarrow> (Returned (Inr greeting), e)))"
      using replays_panic by (cases user) (simp_all add: Let_def)
  qed
qed

lemma order_settle_replays:
  assumes "order_codecs js"
  shows "replays (order_settle js d req reservation)"
proof (rule replays_and_then [OF order_settle_def durable_world_step])
  show "fst (check_payment d req w) \<noteq> Returned (Inr None)" for w by (rule order_steps_not_nil)
  show "round_trip (json_payment js)" using assms by (simp add: order_codecs_def)
next
  fix payment
  have "replays (\<lambda>wc e. and_then (as_call (\<lambda>wc. Run (json_order js) wc ''save_result''
         (on_world (save_order d (order_result req reservation p)))) wc e) (\<lambda>result wc e.
       case result of None \<Rightarrow> (nil_dereference, e) | Some result \<Rightarrow> (Returned (Inr result), e)))" for p
    by (rule replays_and_then [OF refl durable_world_step replays_result])
      (use assms order_steps_not_nil in \<open>simp_all add: order_codecs_def\<close>)
  then show "replays (\<lambda>wc e. case payment of None \<Rightarrow> (nil_dereference, e) | Some payment \<Rightarrow>
     and_then (as_call (\<lambda>wc. Run (json_order js) wc ''save_result''
         (on_world (save_order d (order_result req reservation payment)))) wc e) (\<lambda>result wc e.
     case result of None \<Rightarrow> (nil_dereference, e) | Some result \<Rightarrow> (Returned (Inr result), e)))"
    using replays_panic by (cases payment) simp_all
qed

lemma order_replays:
  assumes "order_codecs js"
  shows "replays (order_Execute js d req)"
proof (rule replays_and_then [OF order_Execute_def durable_world_step])
  show "fst (fetch_user d req w) \<noteq> Returned (Inr None)" for w by (rule order_steps_not_nil)
  show "round_trip (json_customer js)" using assms by (simp add: order_codecs_def)
next
  fix user
  show "replays (\<lambda>wc e. and_then (as_call (\<lambda>wc. Run (json_reservation js) wc ''reserve_inventory''
         (on_world (reserve_inventory d user))) wc e) (\<lambda>reservation wc e.
     case reservation of None \<Rightarrow> (nil_dereference, e) | Some reservation \<Rightarrow>
     and_then (SleepUntil (json_sleep js) wc (rs_ExpiresAt reservation) e) (\<lambda>_. order_settle js d req reservation)))"
  proof (rule replays_and_then [OF refl durable_world_step])
    show "fst (reserve_inventory d user w) \<noteq> Returned (Inr None)" for w by (rule order_steps_not_nil)
    show "round_trip (json_reservation js)" using assms by (simp add: order_codecs_def)
  next
    fix reservation
    have "replays (\<lambda>wc e. and_then (SleepUntil (json_sleep js) wc (rs_ExpiresAt r) e) (\<lambda>_. order_settle js d req r))" for r
      by (rule replays_and_then [OF refl durable_SleepUntil order_settle_replays])
        (use assms in \<open>simp_all add: order_codecs_def\<close>)
    then show "replays (\<lambda>wc e. case reservation of None \<Rightarrow> (nil_dereference, e) | Some reservation \<Rightarrow>
     and_then (SleepUntil (json_sleep js) wc (rs_ExpiresAt reservation) e) (\<lambda>_. order_settle js d req reservation))"
      using replays_panic by (cases reservation) simp_all
  qed
qed

subsection \<open>Coming back from a sleep\<close>

text \<open>\<open>Run\<close> suspends only if the step function did.\<close>

lemma Run_suspends:
  assumes "Run cd wc name fn e = (Inl (SuspendError c), e')"
  obtains e1 where "fst (fn e1) = Returned (Inl (SuspendError c))"
proof -
  have miss: "\<exists>e1. fst (fn e1) = Returned (Inl (SuspendError c))"
    if "cache_miss cd wc n fn e0 = (Inl (SuspendError c), e')" for n e0
  proof -
    obtain out e2 where fn: "fn e0 = (out, e2)" by (cases "fn e0")
    with that have "panicToError out = Inl (SuspendError c)"
      by (auto simp: cache_miss_def split: sum.splits prod.splits)
    then have "out = Returned (Inl (SuspendError c))" by (cases out) auto
    with fn show ?thesis by (metis fst_conv)
  qed
  have look: "lookup_step wc n e0 \<noteq> (Inl (SuspendError c), e1)" for n e0 e1
    by (auto simp: lookup_step_def split: option.splits prod.splits sum.splits)
  have hit: "cache_hit cd n c' \<noteq> Inl (SuspendError c)" for n c'
    by (auto simp: cache_hit_def cachedStepError_def ErrEventTimeout_def split: sum.splits)
  from assms have "\<exists>e1. fst (fn e1) = Returned (Inl (SuspendError c))"
    unfolding Run_def Let_def
    by (auto simp: trackStep_def ErrCancelled_def look hit dest: miss
        split: prod.splits sum.splits option.splits if_splits)
  then show thesis using that by blast
qed

definition sleep_name :: "wctx \<Rightarrow> string" where
  "sleep_name wc = resolveStepName wc (step_number ''_sleep.until'' (Suc (sleepCounter wc)))"

text \<open>From a moment on the clock shows at least the time \<open>c\<close>.\<close>

definition clock_past :: "time \<Rightarrow> 'w env \<Rightarrow> bool" where
  "clock_past c e \<longleftrightarrow> (\<forall>j \<ge> engineNows e. c \<le> engineNow e j)"

lemma clock_past_replayed: "clock_past c e \<Longrightarrow> replayed e e' \<Longrightarrow> clock_past c e'"
  by (auto simp: clock_past_def replayed_def)

lemma SleepUntil_suspends:
  fixes e :: "'w env"
  assumes "SleepUntil cd wc t e = (Returned (Inl (SuspendError c)), wc', e')" and "cache_consistent wc e"
    and "good_clock e" and "round_trip cd"
  shows "progress wc e e'" and "sleep_name wc \<notin> seenSteps e" and "seenSteps e' = insert (sleep_name wc) (seenSteps e)"
    and "settled cd wc (sleep_name wc) e' (Inr (Some c))"
proof -
  let ?wc = "wc\<lparr>sleepCounter := Suc (sleepCounter wc)\<rparr>"
  let ?fn = "\<lambda>e :: 'w env. (Returned (Inr (Some t)), e)"
  let ?nm = "step_number ''_sleep.until'' (Suc (sleepCounter wc))"
  have name: "sleep_name wc = resolveStepName ?wc ?nm" by (simp add: sleep_name_def)
  have tame: "tame ?fn" by (simp add: tame_def)
  have "Run cd ?wc ?nm ?fn e \<noteq> (Inl (SuspendError c), e')" using Run_suspends [of cd ?wc ?nm ?fn e c e'] by auto
  with assms(1) obtain e1 where run: "Run cd ?wc ?nm ?fn e = (Inr (Some c), e1)" and e': "e' = snd (nowFunc e1)"
    by (auto simp: SleepUntil_def Let_def case_prod_unfold deref_def prod_eq_iff
        split: sum.splits option.splits if_splits go_outcome.splits)
  note first = Run_first' [OF run name tame, unfolded cache_consistent_counters progress_counters, OF assms(2)]
  show "progress wc e e'"
    using first(1) progress_trans [of wc e e1 e'] progress_same_rows [of e1 e' wc] by (simp add: e')
  show "sleep_name wc \<notin> seenSteps e" "seenSteps e' = insert (sleep_name wc) (seenSteps e)"
    using first(2) by (simp_all add: e' run_duplicate_def)
  have "settled cd ?wc (sleep_name wc) e1 (Inr (Some c))"
    by (rule Run_settles [OF run name _ tame assms(4)]) (use assms(2,3) in \<open>simp_all add: good_clock_def\<close>)
  then show "settled cd wc (sleep_name wc) e' (Inr (Some c))"
    using settled_row [of cd ?wc "sleep_name wc" e1 _ e'] by (simp add: e' stored_def)
qed

lemma SleepUntil_wakes:
  fixes e :: "'w env"
  assumes "quiet wc e" and "cache_consistent wc e" and "sleep_name wc \<notin> seenSteps e"
    and "settled cd wc (sleep_name wc) e (Inr (Some c))" and "clock_past c e"
  obtains e' where "SleepUntil cd wc t e = (Returned (Inr ()), wc\<lparr>sleepCounter := Suc (sleepCounter wc)\<rparr>, e')"
    "replayed e e'" "seenSteps e' = insert (sleep_name wc) (seenSteps e)"
proof -
  let ?wc = "wc\<lparr>sleepCounter := Suc (sleepCounter wc)\<rparr>"
  let ?fn = "\<lambda>e :: 'w env. (Returned (Inr (Some t)), e)"
  let ?nm = "step_number ''_sleep.until'' (Suc (sleepCounter wc))"
  obtain e1 where run: "Run cd ?wc ?nm ?fn e = (Inr (Some c), e1)" "replayed e e1"
    "seenSteps e1 = insert (sleep_name wc) (seenSteps e)"
    by (rule Run_again [of ?wc e "sleep_name wc" cd "Inr (Some c)" ?nm ?fn])
      (use assms in \<open>simp_all add: sleep_name_def\<close>)
  have "c \<le> engineNow e1 (engineNows e1)" using run(2) assms(5) by (auto simp: replayed_def clock_past_def)
  with run(1) have "SleepUntil cd wc t e = (Returned (Inr ()), ?wc, snd (nowFunc e1))"
    by (simp add: SleepUntil_def Let_def case_prod_unfold deref_def)
  moreover have "replayed e (snd (nowFunc e1))" using run(2) replayed_now replayed_trans by blast
  ultimately show thesis by (rule that) (simp add: run(3))
qed

lemma comes_back_sleep:
  fixes k :: "unit \<Rightarrow> wctx \<Rightarrow> 'w env \<Rightarrow> 'b go_outcome \<times> 'w env"
  assumes "round_trip cd" and "\<And>wc e. fst (k () wc e) \<noteq> Returned (Inl (SuspendError c))" and "k () \<in> Q"
  shows "comes_back (Returned (Inl (SuspendError c))) (clock_past c) Q (\<lambda>wc e. and_then (SleepUntil cd wc t e) k)"
  unfolding comes_back_def
proof (intro allI impI)
  fix wc :: wctx and e e' :: "'w env"
  assume run: "and_then (SleepUntil cd wc t e) k = (Returned (Inl (SuspendError c)), e')"
    and cc: "cache_consistent wc e" and clock: "good_clock e"
  obtain wc' where sleep: "SleepUntil cd wc t e = (Returned (Inl (SuspendError c)), wc', e')"
    using run
  proof (cases rule: and_then_cases)
    case (answer v wc1 e1)
    with assms(2) [of wc1 e1] show ?thesis by (cases v) simp
  qed simp_all
  note first = SleepUntil_suspends [OF sleep cc clock assms(1)]
  have again: "\<exists>wc3 e3. and_then (SleepUntil cd (wc\<lparr>stepCache := ca\<rparr>) t e2) k = k () wc3 e3 \<and> replayed e2 e3"
    if q: "quiet wc e2" "cache_consistent (wc\<lparr>stepCache := ca\<rparr>) e2" "seenSteps e2 = seenSteps e"
      "\<forall>n \<in> seenSteps e' - seenSteps e. stored wc n e2 = stored wc n e'" "clock_past c e2" for ca e2
  proof -
    have name: "sleep_name (wc\<lparr>stepCache := ca\<rparr>) = sleep_name wc" by (simp add: sleep_name_def)
    have "settled cd wc (sleep_name wc) e2 (Inr (Some c))"
      by (rule settled_row [OF first(4)]) (use q(4) first(2,3) in simp)
    then have s: "settled cd (wc\<lparr>stepCache := ca\<rparr>) (sleep_name (wc\<lparr>stepCache := ca\<rparr>)) e2 (Inr (Some c))"
      by (simp add: name)
    have new: "quiet (wc\<lparr>stepCache := ca\<rparr>) e2" "sleep_name (wc\<lparr>stepCache := ca\<rparr>) \<notin> seenSteps e2"
      using q(1,3) first(2) by (simp_all add: name)
    from SleepUntil_wakes [OF new(1) q(2) new(2) s q(5)] obtain wc3 e3 where
      "SleepUntil cd (wc\<lparr>stepCache := ca\<rparr>) t e2 = (Returned (Inr ()), wc3, e3)" "replayed e2 e3" by metis
    then show ?thesis by (auto simp: and_then_def continue_def)
  qed
  show "progress wc e e' \<and>
     (\<forall>ca e2. quiet wc e2 \<longrightarrow> cache_consistent (wc\<lparr>stepCache := ca\<rparr>) e2 \<longrightarrow> seenSteps e2 = seenSteps e \<longrightarrow>
        (\<forall>n \<in> seenSteps e' - seenSteps e. stored wc n e2 = stored wc n e') \<longrightarrow> later e' e2 \<longrightarrow> clock_past c e2 \<longrightarrow>
        (\<exists>k' \<in> Q. \<exists>wc3 e3. and_then (SleepUntil cd (wc\<lparr>stepCache := ca\<rparr>) t e2) k = k' wc3 e3 \<and> replayed e2 e3))"
    using first(1) again assms(3) by blast
qed

lemma comes_back_panic: "comes_back (Returned r) ok Q (\<lambda>wc e. (nil_dereference, e))"
  by (simp add: comes_back_def nil_dereference_def)

text \<open>The steps of an order wrap the errors of the services, so that none of them suspends by itself.\<close>

lemma as_call_suspends:
  assumes "as_call (\<lambda>wc. Run cd wc name fn) wc e = (Returned (Inl (SuspendError c)), wc', e')"
  obtains e1 where "fst (fn e1) = Returned (Inl (SuspendError c))"
  using assms Run_suspends [of cd wc name fn e c e'] by (auto simp: as_call_def split: prod.splits)

lemma order_steps_wrap [simp]:
  "fst (fetch_user d req w) \<noteq> Returned (Inl (SuspendError c))"
  "fst (reserve_inventory d user w) \<noteq> Returned (Inl (SuspendError c))"
  "fst (check_payment d req w) \<noteq> Returned (Inl (SuspendError c))"
  "fst (save_order d r w) \<noteq> Returned (Inl (SuspendError c))"
  by (auto simp: fetch_user_def reserve_inventory_def check_payment_def save_order_def decoded_def nil_dereference_def
      split: prod.splits go_outcome.splits sum.splits)

lemma world_step_not_suspended:
  assumes "\<And>w. fst (f w) \<noteq> Returned (Inl (SuspendError c))"
    and "as_call (\<lambda>wc. Run cd wc name (on_world f)) wc e = (Returned (Inl err), wc', e')"
  shows "Returned (Inl (SuspendError c)) \<noteq> Returned (Inl err)"
proof
  assume "Returned (Inl (SuspendError c)) = Returned (Inl err)"
  with assms(2) as_call_suspends [of cd name "on_world f" wc e c wc' e'] obtain e1 where
    "fst (on_world f e1) = Returned (Inl (SuspendError c))" by auto
  with assms(1) show False by (simp add: on_world_def case_prod_unfold Let_def)
qed

lemma and_then_not_suspended:
  assumes "\<And>w. fst (f w) \<noteq> Returned (Inl (SuspendError c))"
    and "\<And>v wc e. fst (k v wc e) \<noteq> Returned (Inl (SuspendError c))"
  shows "fst (and_then (as_call (\<lambda>wc. Run cd wc name (on_world f)) wc e) k) \<noteq> Returned (Inl (SuspendError c))"
proof -
  obtain out e' where x: "and_then (as_call (\<lambda>wc. Run cd wc name (on_world f)) wc e) k = (out, e')" by fastforce
  then show ?thesis
  proof (cases rule: and_then_cases)
    case (failed err wc')
    from world_step_not_suspended [OF assms(1) failed(1)] x failed(2) show ?thesis by simp
  next
    case (answer v wc' e1)
    from assms(2) [of v wc' e1] answer(2) x show ?thesis by simp
  qed (use x in simp)
qed

lemma result_not_suspended:
  "fst (case x of None \<Rightarrow> (nil_dereference, e) | Some v \<Rightarrow> (Returned (Inr v), e)) \<noteq> Returned (Inl (SuspendError c))"
  by (cases x) (simp_all add: nil_dereference_def)

lemma order_settle_not_suspended [simp]:
  "fst (order_settle js d req reservation wc e) \<noteq> Returned (Inl (SuspendError c))"
  unfolding order_settle_def
proof (rule and_then_not_suspended, simp, goal_cases)
  case (1 payment wc e)
  show ?case
  proof (cases payment)
    case (Some p)
    show ?thesis unfolding Some option.case
      by (rule and_then_not_suspended) (simp_all add: result_not_suspended)
  qed (simp add: nil_dereference_def)
qed

lemma order_comes_back:
  assumes "order_codecs js"
  shows "comes_back (Returned (Inl (SuspendError c))) (clock_past c) (range (order_settle js d req)) (order_Execute js d req)"
proof (rule comes_back_and_then [OF order_Execute_def durable_world_step])
  show "fst (fetch_user d req w) \<noteq> Returned (Inr None)" for w by (rule order_steps_not_nil)
  show "round_trip (json_customer js)" using assms by (simp add: order_codecs_def)
  show "Returned (Inl (SuspendError c)) \<noteq> Returned (Inl err)"
    if "as_call (\<lambda>wc. Run (json_customer js) wc ''fetch_user'' (on_world (fetch_user d req))) wc e =
      (Returned (Inl err), wc', e')" for wc e err wc' e'
    by (rule world_step_not_suspended [OF order_steps_wrap(1) that])
next
  fix user
  show "comes_back (Returned (Inl (SuspendError c))) (clock_past c) (range (order_settle js d req))
    (\<lambda>wc e. and_then (as_call (\<lambda>wc. Run (json_reservation js) wc ''reserve_inventory''
         (on_world (reserve_inventory d user))) wc e) (\<lambda>reservation wc e.
     case reservation of None \<Rightarrow> (nil_dereference, e) | Some reservation \<Rightarrow>
     and_then (SleepUntil (json_sleep js) wc (rs_ExpiresAt reservation) e) (\<lambda>_. order_settle js d req reservation)))"
  proof (rule comes_back_and_then [OF refl durable_world_step])
    show "fst (reserve_inventory d user w) \<noteq> Returned (Inr None)" for w by (rule order_steps_not_nil)
    show "round_trip (json_reservation js)" using assms by (simp add: order_codecs_def)
    show "Returned (Inl (SuspendError c)) \<noteq> Returned (Inl err)"
      if "as_call (\<lambda>wc. Run (json_reservation js) wc ''reserve_inventory'' (on_world (reserve_inventory d user))) wc e =
        (Returned (Inl err), wc', e')" for wc e err wc' e'
      by (rule world_step_not_suspended [OF order_steps_wrap(2) that])
  next
    fix reservation
    have "comes_back (Returned (Inl (SuspendError c))) (clock_past c) (range (order_settle js d req))
        (\<lambda>wc e. and_then (SleepUntil (json_sleep js) wc (rs_ExpiresAt r) e) (\<lambda>_. order_settle js d req r))" for r
      by (rule comes_back_sleep) (use assms in \<open>simp_all add: order_codecs_def\<close>)
    then show "comes_back (Returned (Inl (SuspendError c))) (clock_past c) (range (order_settle js d req)) (\<lambda>wc e.
     case reservation of None \<Rightarrow> (nil_dereference, e) | Some reservation \<Rightarrow>
     and_then (SleepUntil (json_sleep js) wc (rs_ExpiresAt reservation) e) (\<lambda>_. order_settle js d req reservation))"
      using comes_back_panic by (cases reservation) simp_all
  qed (simp_all add: clock_past_replayed)
qed (simp_all add: clock_past_replayed)

text \<open>An order that was suspended until its reservation ends goes on at the payment: executed again once that
  time has passed, with the rows the first execution left, it contacts no service and changes no table
  before it checks the payment.\<close>

theorem order_resumes_at_payment:
  assumes "order_codecs js" and "cache_consistent wc e" and "good_clock e"
    and "order_Execute js d req wc e = (Returned (Inl (SuspendError c)), e')"
    and "quiet wc e2" and "cache_consistent (wc\<lparr>stepCache := ca\<rparr>) e2" and "seenSteps e2 = seenSteps e"
    and "\<forall>n \<in> seenSteps e' - seenSteps e. stored wc n e2 = stored wc n e'"
    and "later e' e2" and "clock_past c e2"
  shows "\<exists>reservation wc3 e3. order_Execute js d req (wc\<lparr>stepCache := ca\<rparr>) e2 = order_settle js d req reservation wc3 e3 \<and>
    world e3 = world e2 \<and> tables_of (the_store e3) = tables_of (the_store e2)"
proof -
  obtain k wc3 e3 where "k \<in> range (order_settle js d req)" "order_Execute js d req (wc\<lparr>stepCache := ca\<rparr>) e2 = k wc3 e3"
    "replayed e2 e3"
    using order_comes_back [OF assms(1), unfolded comes_back_def, rule_format, OF assms(4,2,3), THEN conjunct2,
        rule_format, OF assms(5-7) _ assms(9,10)] assms(8) by blast
  then show ?thesis by (auto simp: replayed_def)
qed

text \<open>A finished order is final: executed again on the rows it left it gives the same result, and no service is
  contacted and nothing saved again.\<close>

lemma order_replay_gives_the_same:
  assumes "order_codecs js" and "cache_consistent wc e" and "good_clock e"
    and "order_Execute js d req wc e = (Returned (Inr v), e')"
    and "quiet wc e2" and "cache_consistent (wc\<lparr>stepCache := ca\<rparr>) e2" and "seenSteps e2 = seenSteps e"
    and "\<forall>n \<in> seenSteps e' - seenSteps e. stored wc n e2 = stored wc n e'" and "later e' e2"
  shows "\<exists>e2'. order_Execute js d req (wc\<lparr>stepCache := ca\<rparr>) e2 = (Returned (Inr v), e2') \<and>
    world e2' = world e2 \<and> tables_of (the_store e2') = tables_of (the_store e2)"
proof -
  from replays_value [OF order_replays [OF assms(1)] assms(4,2,3,5-9)] obtain e2' where
    "order_Execute js d req (wc\<lparr>stepCache := ca\<rparr>) e2 = (Returned (Inr v), e2')" "replayed e2 e2'" .
  then show ?thesis by (auto simp: replayed_def)
qed

subsection \<open>A first execution\<close>

text \<open>A step that was not called and not recorded before.\<close>

definition untouched :: "wctx \<Rightarrow> string \<Rightarrow> 'w env \<Rightarrow> bool" where
  "untouched wc n e \<longleftrightarrow> n \<notin> seenSteps e \<and> stored wc n e = None \<and> stepCache wc n = None"

lemma Run_new:
  fixes e :: "'w env"
  assumes "quiet wc e" and "good_clock e" and "n = resolveStepName wc name" and "untouched wc n e"
    and fn: "\<And>e0. world e0 = world e \<Longrightarrow> engineNow e0 = engineNow e \<Longrightarrow> engineNows e0 = engineNows e \<Longrightarrow>
      fn e0 = (Returned (Inr (Some v)), e0\<lparr>world := w', engineNows := k\<rparr>)"
    and "marshal cd (Some v) = Inr data" and "unmarshal cd (Some data) = Inr v"
  obtains e' where "Run cd wc name fn e = (Inr (Some v), e')" "world e' = w'" "quiet wc e'"
    "settled cd wc n e' (Inr (Some v))" "\<forall>m. m \<noteq> n \<longrightarrow> stored wc m e' = stored wc m e"
    "seenSteps e' = insert n (seenSteps e)" "engineNow e' = engineNow e" "engineNows e' = Suc k"
proof -
  let ?e1 = "e\<lparr>seenSteps := insert n (seenSteps e)\<rparr>"
  have ok: "no_fault (the_store e)" using assms(1) by (simp add: quiet_def)
  have "quiet wc ?e1" using assms(1) by (simp add: quiet_def)
  from on_store_quiet_signal [OF this] obtain sig where
    sig: "on_store (GetSignal (wc_id wc)) ?e1 =
      (Inr sig, ?e1\<lparr>the_store := (the_store e)\<lparr>dbCalls := Suc (dbCalls (the_store e))\<rparr>\<rparr>)"
      "sig \<noteq> SignalCancelRequested"
    by auto
  let ?e2 = "?e1\<lparr>the_store := (the_store e)\<lparr>dbCalls := Suc (dbCalls (the_store e))\<rparr>\<rparr>"
  let ?e3 = "?e1\<lparr>the_store := (the_store e)\<lparr>dbCalls := Suc (Suc (dbCalls (the_store e)))\<rparr>\<rparr>"
  have look: "lookup_step wc n ?e2 = (Inr None, ?e3)"
    using assms(4) ok
    by (simp add: lookup_step_def untouched_def on_store_def GetStepResult_def db_call_no_fault stored_def)
  let ?e4 = "?e3\<lparr>world := w', engineNows := k\<rparr>"
  have "fn ?e3 = (Returned (Inr (Some v)), ?e4)" by (rule fn) simp_all
  then have miss: "cache_miss cd wc n fn ?e3 = (case save_result wc n data ?e4 of
      (Inl err, e) \<Rightarrow> (Inl (WrapError (''save step '' @ go_quote n @ '' result'') err), e) | (Inr _, e) \<Rightarrow> (Inr (Some v), e))"
    using assms(6) by (simp add: cache_miss_def)
  obtain e' where e': "save_result wc n data ?e4 = (Inr (), e')" "seenSteps e' = insert n (seenSteps e)" "world e' = w'"
      "engineNow e' = engineNow e" "engineNows e' = Suc k" "no_fault (the_store e')"
      "workflows (the_store e') = workflows (the_store e)"
    using ok by (simp add: save_result_def on_store_def nowFunc_def SaveStepResult_def db_call_no_fault no_fault_def)
  have "Run cd wc name fn e = (Inr (Some v), e')"
    using sig look miss e'(1) assms(3,4) by (simp add: Run_def Let_def trackStep_def untouched_def)
  moreover have "quiet wc e'" using assms(1) e'(6,7) by (simp add: quiet_def)
  moreover have "settled cd wc n e' (Inr (Some v))"
    using save_result_ok [OF e'(1)] assms(2,7)
    by (simp add: settled_def scanStepResult_def formatTime_def parseTime_rfc3339nano good_time_def cache_hit_def
        good_clock_def)
  moreover have "stored wc m e' = stored wc m e" if "m \<noteq> n" for m
    using save_result_frame [of wc n data ?e4] that e'(1) by (simp add: stored_def)
  ultimately show thesis using e' that by blast
qed

text \<open>A value survives its way through the codec.\<close>

definition carries :: "'v codec \<Rightarrow> 'v \<Rightarrow> bool" where
  "carries cd v \<longleftrightarrow> (\<exists>d. marshal cd (Some v) = Inr d \<and> unmarshal cd (Some d) = Inr v)"

lemma world_step_new:
  fixes e :: "'w env"
  assumes "quiet wc e" and "good_clock e" and "untouched wc (resolveStepName wc name) e"
    and "f (world e) = (Returned (Inr (Some v)), w')" and "carries cd v"
  obtains e' where "Run cd wc name (on_world f) e = (Inr (Some v), e')" "world e' = w'" "quiet wc e'" "good_clock e'"
    "settled cd wc (resolveStepName wc name) e' (Inr (Some v))"
    "\<forall>m. m \<noteq> resolveStepName wc name \<longrightarrow> stored wc m e' = stored wc m e"
    "seenSteps e' = insert (resolveStepName wc name) (seenSteps e)" "engineNow e' = engineNow e"
    "engineNows e' = Suc (engineNows e)"
proof -
  obtain data where d: "marshal cd (Some v) = Inr data" "unmarshal cd (Some data) = Inr v"
    using assms(5) by (auto simp: carries_def)
  have "on_world f e0 = (Returned (Inr (Some v)), e0\<lparr>world := w', engineNows := engineNows e\<rparr>)"
    if "world e0 = world e" "engineNows e0 = engineNows e" for e0
    using that assms(4) by (simp add: on_world_def)
  from Run_new [OF assms(1,2) refl assms(3) this d] assms(2) that show thesis
    by (metis good_clock_def)
qed

lemma resolve_inject [simp]: "resolveStepName wc a = resolveStepName wc b \<longleftrightarrow> a = b"
  by (simp add: resolveStepName_def)

text \<open>The first sleep of an execution suspends until the time it was given.\<close>

lemma SleepUntil_new:
  fixes e :: "'w env"
  assumes "quiet wc e" and "good_clock e" and "untouched wc (sleep_name wc) e" and "carries cd t"
    and "engineNow e (Suc (engineNows e)) < t"
  obtains wc' e' where "SleepUntil cd wc t e = (Returned (Inl (SuspendError t)), wc', e')" "world e' = world e"
    "settled cd wc (sleep_name wc) e' (Inr (Some t))" "\<forall>m. m \<noteq> sleep_name wc \<longrightarrow> stored wc m e' = stored wc m e"
proof -
  let ?wc = "wc\<lparr>sleepCounter := Suc (sleepCounter wc)\<rparr>"
  let ?nm = "step_number ''_sleep.until'' (Suc (sleepCounter wc))"
  have name: "sleep_name wc = resolveStepName ?wc ?nm" by (simp add: sleep_name_def)
  obtain data where d: "marshal cd (Some t) = Inr data" "unmarshal cd (Some data) = Inr t"
    using assms(4) by (auto simp: carries_def)
  have q: "quiet ?wc e" "untouched ?wc (sleep_name wc) e" using assms(1,3) by (simp_all add: untouched_def)
  obtain e1 where run: "Run cd ?wc ?nm (\<lambda>e. (Returned (Inr (Some t)), e)) e = (Inr (Some t), e1)"
    "world e1 = world e" "settled cd ?wc (sleep_name wc) e1 (Inr (Some t))"
    "\<forall>m. m \<noteq> sleep_name wc \<longrightarrow> stored ?wc m e1 = stored ?wc m e"
    "engineNow e1 = engineNow e" "engineNows e1 = Suc (engineNows e)"
    by (rule Run_new [where fn = "\<lambda>e. (Returned (Inr (Some t)), e)" and w' = "world e" and k = "engineNows e",
          OF q(1) assms(2) name q(2) _ d]) simp_all
  have "SleepUntil cd wc t e = (Returned (Inl (SuspendError t)), ?wc, snd (nowFunc e1))"
    using run(1,5,6) assms(5) by (simp add: SleepUntil_def Let_def case_prod_unfold deref_def)
  then show thesis
    by (rule that) (use run in \<open>simp_all add: settled_def stored_def\<close>)
qed

subsection \<open>An order in two executions\<close>

definition fresh_context :: "wctx \<Rightarrow> 'w env \<Rightarrow> bool" where
  "fresh_context wc e \<longleftrightarrow> seenSteps e = {} \<and> (\<forall>n. stored wc n e = None) \<and> stepCache wc = Map.empty \<and> sleepCounter wc = 0"

definition order_sleep :: "wctx \<Rightarrow> string" where
  "order_sleep wc = resolveStepName wc (step_number ''_sleep.until'' 1)"

lemma order_names [simp]:
  "order_sleep wc \<noteq> resolveStepName wc ''fetch_user''" "order_sleep wc \<noteq> resolveStepName wc ''reserve_inventory''"
  "order_sleep wc \<noteq> resolveStepName wc ''check_payment''" "order_sleep wc \<noteq> resolveStepName wc ''save_result''"
  "resolveStepName wc ''fetch_user'' \<noteq> order_sleep wc" "resolveStepName wc ''reserve_inventory'' \<noteq> order_sleep wc"
  "resolveStepName wc ''check_payment'' \<noteq> order_sleep wc" "resolveStepName wc ''save_result'' \<noteq> order_sleep wc"
  by (simp_all add: order_sleep_def step_number_def)

text \<open>What the first execution leaves: the rows of the first two steps and of the sleep.\<close>

definition order_waiting :: "order_json \<Rightarrow> wctx \<Rightarrow> OrderUser \<Rightarrow> Reservation \<Rightarrow> 'w env \<Rightarrow> bool" where
  "order_waiting js wc user reservation e \<longleftrightarrow>
     settled (json_customer js) wc (resolveStepName wc ''fetch_user'') e (Inr (Some user)) \<and>
     settled (json_reservation js) wc (resolveStepName wc ''reserve_inventory'') e (Inr (Some reservation)) \<and>
     settled (json_sleep js) wc (order_sleep wc) e (Inr (Some (rs_ExpiresAt reservation))) \<and>
     stored wc (resolveStepName wc ''check_payment'') e = None \<and> stored wc (resolveStepName wc ''save_result'') e = None"

lemma order_first_execution:
  fixes e :: "'w env"
  assumes "quiet wc e" and "good_clock e" and "fresh_context wc e"
    and "carries (json_customer js) user" and "carries (json_reservation js) reservation"
    and "carries (json_sleep js) (rs_ExpiresAt reservation)"
    and "fetch_user d req (world e) = (Returned (Inr (Some user)), w1)"
    and "reserve_inventory d (Some user) w1 = (Returned (Inr (Some reservation)), w2)"
    and "engineNow e (engineNows e + 3) < rs_ExpiresAt reservation"
  obtains e' where "order_Execute js d req wc e = (Returned (Inl (SuspendError (rs_ExpiresAt reservation))), e')"
    "world e' = w2" "order_waiting js wc user reservation e'"
proof -
  have un: "untouched wc n e" for n using assms(3) by (simp add: fresh_context_def untouched_def)
  obtain e1 where 1: "Run (json_customer js) wc ''fetch_user'' (on_world (fetch_user d req)) e = (Inr (Some user), e1)"
    "world e1 = w1" "quiet wc e1" "good_clock e1"
    "settled (json_customer js) wc (resolveStepName wc ''fetch_user'') e1 (Inr (Some user))"
    "\<forall>m. m \<noteq> resolveStepName wc ''fetch_user'' \<longrightarrow> stored wc m e1 = stored wc m e"
    "seenSteps e1 = insert (resolveStepName wc ''fetch_user'') (seenSteps e)"
    "engineNow e1 = engineNow e" "engineNows e1 = Suc (engineNows e)"
    using world_step_new [where f = "fetch_user d req" and name = "''fetch_user''", OF assms(1,2) un assms(7,4)] by blast
  have un1: "untouched wc n e1" if "n \<noteq> resolveStepName wc ''fetch_user''" for n
    using that un [of n] 1(6,7) by (simp add: untouched_def)
  have w1: "reserve_inventory d (Some user) (world e1) = (Returned (Inr (Some reservation)), w2)"
    using assms(8) 1(2) by simp
  have "untouched wc (resolveStepName wc ''reserve_inventory'') e1" by (rule un1) simp
  from world_step_new [where f = "reserve_inventory d (Some user)", OF 1(3,4) this w1 assms(5)]
  obtain e2 where 2: "Run (json_reservation js) wc ''reserve_inventory'' (on_world (reserve_inventory d (Some user))) e1 =
      (Inr (Some reservation), e2)"
    "world e2 = w2" "quiet wc e2" "good_clock e2"
    "settled (json_reservation js) wc (resolveStepName wc ''reserve_inventory'') e2 (Inr (Some reservation))"
    "\<forall>m. m \<noteq> resolveStepName wc ''reserve_inventory'' \<longrightarrow> stored wc m e2 = stored wc m e1"
    "seenSteps e2 = insert (resolveStepName wc ''reserve_inventory'') (seenSteps e1)"
    "engineNow e2 = engineNow e1" "engineNows e2 = Suc (engineNows e1)"
    by blast
  have name: "sleep_name wc = order_sleep wc"
    using assms(3) by (simp add: sleep_name_def order_sleep_def fresh_context_def)
  have un2: "untouched wc (sleep_name wc) e2"
    using un1 [of "order_sleep wc"] 2(6,7) by (simp add: untouched_def name)
  have t: "engineNow e2 (Suc (engineNows e2)) < rs_ExpiresAt reservation"
    using assms(9) 1(8,9) 2(8,9) by (simp add: numeral_3_eq_3)
  obtain wc' e3 where 3: "SleepUntil (json_sleep js) wc (rs_ExpiresAt reservation) e2 =
      (Returned (Inl (SuspendError (rs_ExpiresAt reservation))), wc', e3)" "world e3 = world e2"
    "settled (json_sleep js) wc (sleep_name wc) e3 (Inr (Some (rs_ExpiresAt reservation)))"
    "\<forall>m. m \<noteq> sleep_name wc \<longrightarrow> stored wc m e3 = stored wc m e2"
    using SleepUntil_new [OF 2(3,4) un2 assms(6) t] by blast
  have "order_Execute js d req wc e = (Returned (Inl (SuspendError (rs_ExpiresAt reservation))), e3)"
    by (simp add: order_Execute_def as_call_def 1(1) 2(1) 3(1) and_then_def continue_def)
  moreover have "world e3 = w2" using 3(2) 2(2) by simp
  moreover have "order_waiting js wc user reservation e3"
    unfolding order_waiting_def
  proof (intro conjI)
    show "settled (json_customer js) wc (resolveStepName wc ''fetch_user'') e3 (Inr (Some user))"
      by (rule settled_row [OF 1(5)]) (simp add: 2(6) 3(4) name)
    show "settled (json_reservation js) wc (resolveStepName wc ''reserve_inventory'') e3 (Inr (Some reservation))"
      by (rule settled_row [OF 2(5)]) (simp add: 3(4) name)
    show "settled (json_sleep js) wc (order_sleep wc) e3 (Inr (Some (rs_ExpiresAt reservation)))"
      using 3(3) by (simp add: name)
    show "stored wc (resolveStepName wc ''check_payment'') e3 = None" "stored wc (resolveStepName wc ''save_result'') e3 = None"
      using un by (simp_all add: 1(6) 2(6) 3(4) name untouched_def)
  qed
  ultimately show thesis by (rule that)
qed

lemma unrecorded_untouched:
  "cache_consistent wc e \<Longrightarrow> stored wc n e = None \<Longrightarrow> n \<notin> seenSteps e \<Longrightarrow> untouched wc n e"
  by (cases "stepCache wc n") (fastforce simp: untouched_def cache_consistent_def)+

lemma order_settle_new:
  fixes e :: "'w env"
  assumes "quiet wc e" and "good_clock e" and "untouched wc (resolveStepName wc ''check_payment'') e"
    and "untouched wc (resolveStepName wc ''save_result'') e"
    and "carries (json_payment js) payment" and "carries (json_order js) (order_result req reservation payment)"
    and "check_payment d req (world e) = (Returned (Inr (Some payment)), w3)"
    and "SaveOrder d (order_result req reservation payment) w3 = (Returned (Inr u), w4)"
  shows "\<exists>e'. order_settle js d req reservation wc e = (Returned (Inr (order_result req reservation payment)), e') \<and>
    world e' = w4"
proof -
  obtain e1 where 1: "Run (json_payment js) wc ''check_payment'' (on_world (check_payment d req)) e = (Inr (Some payment), e1)"
    "world e1 = w3" "quiet wc e1" "good_clock e1"
    "\<forall>m. m \<noteq> resolveStepName wc ''check_payment'' \<longrightarrow> stored wc m e1 = stored wc m e"
    "seenSteps e1 = insert (resolveStepName wc ''check_payment'') (seenSteps e)"
    using world_step_new [where f = "check_payment d req", OF assms(1-3,7,5)] by blast
  have un: "untouched wc (resolveStepName wc ''save_result'') e1"
    using assms(4) 1(5,6) by (simp add: untouched_def)
  have save: "save_order d (order_result req reservation payment) (world e1) =
      (Returned (Inr (Some (order_result req reservation payment))), w4)"
    using assms(8) 1(2) by (simp add: save_order_def)
  obtain e2 where "Run (json_order js) wc ''save_result'' (on_world (save_order d (order_result req reservation payment))) e1 =
      (Inr (Some (order_result req reservation payment)), e2)" "world e2 = w4"
    using world_step_new [where f = "save_order d (order_result req reservation payment)", OF 1(3,4) un save assms(6)] by blast
  then show ?thesis by (simp add: order_settle_def as_call_def 1(1) and_then_def continue_def)
qed

lemma order_second_execution:
  fixes e :: "'w env"
  assumes "quiet wc e" and "good_clock e" and "cache_consistent wc e" and "seenSteps e = {}" and "sleepCounter wc = 0"
    and "order_waiting js wc user reservation e" and "clock_past (rs_ExpiresAt reservation) e"
    and "carries (json_payment js) payment" and "carries (json_order js) (order_result req reservation payment)"
    and "check_payment d req (world e) = (Returned (Inr (Some payment)), w3)"
    and "SaveOrder d (order_result req reservation payment) w3 = (Returned (Inr u), w4)"
  shows "\<exists>e'. order_Execute js d req wc e = (Returned (Inr (order_result req reservation payment)), e') \<and> world e' = w4"
proof -
  have name: "sleep_name wc = order_sleep wc"
    using assms(5) by (simp add: sleep_name_def order_sleep_def)
  have waiting: "settled (json_customer js) wc (resolveStepName wc ''fetch_user'') e (Inr (Some user))"
    "settled (json_reservation js) wc (resolveStepName wc ''reserve_inventory'') e (Inr (Some reservation))"
    "settled (json_sleep js) wc (sleep_name wc) e (Inr (Some (rs_ExpiresAt reservation)))"
    "stored wc (resolveStepName wc ''check_payment'') e = None" "stored wc (resolveStepName wc ''save_result'') e = None"
    using assms(6) by (simp_all add: order_waiting_def name)
  obtain e1 where 1: "Run (json_customer js) wc ''fetch_user'' (on_world (fetch_user d req)) e = (Inr (Some user), e1)"
    "replayed e e1" "seenSteps e1 = {resolveStepName wc ''fetch_user''}"
    by (rule Run_again [where fn = "on_world (fetch_user d req)", OF assms(1) _ assms(3) waiting(1) refl])
      (simp_all add: assms(4))
  have k1: "quiet wc e1" "cache_consistent wc e1" "settled (json_reservation js) wc (resolveStepName wc ''reserve_inventory'') e1 (Inr (Some reservation))"
    using assms(1,3) waiting(2) by (simp_all add: replayed_keeps [OF 1(2)])
  obtain e2 where 2: "Run (json_reservation js) wc ''reserve_inventory'' (on_world (reserve_inventory d (Some user))) e1 =
      (Inr (Some reservation), e2)" "replayed e1 e2"
    "seenSteps e2 = insert (resolveStepName wc ''reserve_inventory'') {resolveStepName wc ''fetch_user''}"
    by (rule Run_again [where fn = "on_world (reserve_inventory d (Some user))", OF k1(1) _ k1(2,3) refl])
      (simp_all add: 1(3))
  have r2: "replayed e e2" by (rule replayed_trans [OF 1(2) 2(2)])
  have k2: "quiet wc e2" "cache_consistent wc e2" "settled (json_sleep js) wc (sleep_name wc) e2 (Inr (Some (rs_ExpiresAt reservation)))"
    using assms(1,3) waiting(3) by (simp_all add: replayed_keeps [OF r2])
  have new: "sleep_name wc \<notin> seenSteps e2" by (simp add: 2(3) name)
  obtain e3 where 3: "SleepUntil (json_sleep js) wc (rs_ExpiresAt reservation) e2 = (Returned (Inr ()), wc\<lparr>sleepCounter := Suc (sleepCounter wc)\<rparr>, e3)"
    "replayed e2 e3" "seenSteps e3 = insert (sleep_name wc) (seenSteps e2)"
    using SleepUntil_wakes [OF k2(1,2) new k2(3) clock_past_replayed [OF assms(7) r2]] by metis
  have r3: "replayed e e3" by (rule replayed_trans [OF r2 3(2)])
  let ?wc = "wc\<lparr>sleepCounter := Suc (sleepCounter wc)\<rparr>"
  have un: "untouched ?wc (resolveStepName ?wc m) e3"
    if "m = ''check_payment'' \<or> m = ''save_result''" for m
  proof (rule unrecorded_untouched)
    show "cache_consistent ?wc e3" "stored ?wc (resolveStepName ?wc m) e3 = None"
      using that assms(3) waiting(4,5) by (auto simp: replayed_keeps [OF r3])
    show "resolveStepName ?wc m \<notin> seenSteps e3" using that by (auto simp: 3(3) 2(3) name)
  qed
  have k3: "quiet ?wc e3" "good_clock e3" "check_payment d req (world e3) = (Returned (Inr (Some payment)), w3)"
    using assms(1,2,10) r3 by (simp_all add: replayed_keeps [OF r3] good_clock_def replayed_def)
  obtain e' where "order_settle js d req reservation ?wc e3 = (Returned (Inr (order_result req reservation payment)), e')"
    "world e' = w4"
    using order_settle_new [OF k3(1,2) un un assms(8,9) k3(3) assms(11)] by auto
  then show ?thesis by (simp add: order_Execute_def as_call_def 1(1) 2(1) 3(1) and_then_def continue_def)
qed

text \<open>C18: an order runs in two executions: the first one fetches the user, reserves and suspends until the reservation
  ends; the second one, after that time, with the rows of the first and whatever of them is prefetched, checks the
  payment, saves the order and returns it: confirmed if the payment is approved, cancelled otherwise, with the
  reference of the payment and the reservation of the first execution.\<close>

theorem order_in_two_executions:
  fixes e :: "'w env"
  assumes "quiet wc e" and "good_clock e" and "fresh_context wc e"
    and "carries (json_customer js) user" and "carries (json_reservation js) reservation"
    and "carries (json_sleep js) (rs_ExpiresAt reservation)"
    and "carries (json_payment js) payment" and "carries (json_order js) result"
    and "fetch_user d req (world e) = (Returned (Inr (Some user)), w1)"
    and "reserve_inventory d (Some user) w1 = (Returned (Inr (Some reservation)), w2)"
    and "engineNow e (engineNows e + 3) < rs_ExpiresAt reservation"
    and "quiet wc e2" and "good_clock e2" and "cache_consistent (wc\<lparr>stepCache := c\<rparr>) e2" and "seenSteps e2 = {}"
    and "clock_past (rs_ExpiresAt reservation) e2"
    and "check_payment d req (world e2) = (Returned (Inr (Some payment)), w3)"
    and "SaveOrder d result w3 = (Returned (Inr u), w4)"
    and "result = \<lparr>res_OrderID = or_OrderID req,
      res_Status = (if pr_Status payment = ''approved'' then ''confirmed'' else ''cancelled''),
      res_PaymentRef = pr_Reference payment, res_ReservationID = rs_ID reservation\<rparr>"
  shows "\<exists>e'. order_Execute js d req wc e = (Returned (Inl (SuspendError (rs_ExpiresAt reservation))), e') \<and> world e' = w2 \<and>
    (step_results (the_store e2) = step_results (the_store e') \<longrightarrow>
      (\<exists>e3. order_Execute js d req (wc\<lparr>stepCache := c\<rparr>) e2 = (Returned (Inr result), e3) \<and> world e3 = w4))"
proof -
  have result: "order_result req reservation payment = result"
    by (simp add: order_result_def order_status_def assms(19))
  obtain e' where first: "order_Execute js d req wc e = (Returned (Inl (SuspendError (rs_ExpiresAt reservation))), e')"
    "world e' = w2" "order_waiting js wc user reservation e'"
    using order_first_execution [OF assms(1-6,9-11)] by blast
  let ?wc = "wc\<lparr>stepCache := c\<rparr>"
  have second: "\<exists>e3. order_Execute js d req ?wc e2 = (Returned (Inr result), e3) \<and> world e3 = w4"
    if "step_results (the_store e2) = step_results (the_store e')"
  proof (rule order_second_execution [where user = user and reservation = reservation and payment = payment and req = req,
      unfolded result])
    show "order_waiting js ?wc user reservation e2"
      using first(3) that by (simp add: order_waiting_def settled_def stored_def order_sleep_def)
    show "quiet ?wc e2" "sleepCounter ?wc = 0" using assms(3,12) by (simp_all add: fresh_context_def)
  qed (rule assms)+
  from first(1,2) second show ?thesis by blast
qed

subsection \<open>What an order does not look at\<close>

lemma and_then_suspended:
  assumes "and_then x k = (Returned (Inl (SuspendError c)), e')"
    and "\<And>v wc e. k v wc e = (Returned (Inl (SuspendError c)), e') \<Longrightarrow> k' v wc e = (Returned (Inl (SuspendError c)), e')"
  shows "and_then x k' = (Returned (Inl (SuspendError c)), e')"
  using assms(1)
proof (cases rule: and_then_cases)
  case (answer v wc' e1)
  with assms(2) [OF answer(2)] show ?thesis by (simp add: and_then_def continue_def)
qed (simp_all add: and_then_def continue_def)

text \<open>No payment is looked at and nothing is saved before the reservation has ended: whatever the payment service
  answers and the repository does, an execution that suspends is the same.\<close>

theorem order_waits_for_reservation:
  assumes "order_Execute js d req wc e = (Returned (Inl (SuspendError c)), e')"
    and "d' = d\<lparr>client_Get := (\<lambda>u w. if u = baseURL d @ ''/payments/'' @ or_OrderID req then g w else client_Get d u w),
      SaveOrder := s, decode_payment := p\<rparr>"
  shows "order_Execute js d' req wc e = (Returned (Inl (SuspendError c)), e')"
proof -
  have same: "fetch_user d' req = fetch_user d req" "reserve_inventory d' = reserve_inventory d"
    by (simp_all add: fun_eq_iff assms(2) fetch_user_def reserve_inventory_def)
  show ?thesis
    unfolding order_Execute_def same
  proof (rule and_then_suspended [OF assms(1) [unfolded order_Execute_def]], goal_cases)
    case (1 user wc e)
    then show ?case
    proof (rule and_then_suspended, goal_cases)
      case (1 reservation wc e)
      show ?case
      proof (cases reservation)
        case None
        with 1 show ?thesis by (simp add: nil_dereference_def)
      next
        case (Some r)
        from 1 [unfolded Some option.case] show ?thesis
          unfolding Some option.case
        proof (rule and_then_suspended, goal_cases)
          case (1 u wc e)
          with order_settle_not_suspended [of js d req r wc e c] show ?case by simp
        qed
      qed
    qed
  qed
qed

definition with_status :: "(int \<Rightarrow> int) \<Rightarrow> response go_outcome \<times> 'w \<Rightarrow> response go_outcome \<times> 'w" where
  "with_status f x =
     (case x of (Returned (Inr resp), w) \<Rightarrow> (Returned (Inr (resp\<lparr>StatusCode := f (StatusCode resp)\<rparr>)), w) | _ \<Rightarrow> x)"

lemma decoded_with_status [simp]: "decoded a b dec (with_status f x) = decoded a b dec x"
  by (auto simp: decoded_def with_status_def split: prod.splits go_outcome.splits sum.splits)

text \<open>The status code of a response is not looked at: an order is the same whatever codes its services answer with,
  so that an error response whose body is a JSON object counts as an answer (for a payment: as one that is
  not approved, which cancels the order).\<close>

theorem order_ignores_status_codes:
  "order_Execute js (d\<lparr>client_Get := \<lambda>u w. with_status f (client_Get d u w),
      client_Post := \<lambda>u t w. with_status f (client_Post d u t w)\<rparr>) req wc e = order_Execute js d req wc e"
  (is "order_Execute js ?d req wc e = _")
proof -
  have same: "fetch_user ?d r = fetch_user d r" "reserve_inventory ?d = reserve_inventory d"
    "check_payment ?d r = check_payment d r" "save_order ?d = save_order d" for r
    by (simp_all add: fun_eq_iff fetch_user_def reserve_inventory_def check_payment_def save_order_def)
  have "order_settle js ?d r v wc e = order_settle js d r v wc e" for r v wc e
    by (simp only: order_settle_def same)
  then have "order_settle js ?d = order_settle js d" by (simp add: fun_eq_iff)
  with same show ?thesis by (simp only: order_Execute_def)
qed

subsection \<open>A greeting\<close>

definition now_name :: "wctx \<Rightarrow> string" where
  "now_name wc = resolveStepName wc (step_number ''_time.now'' 1)"

text \<open>The first reading of the durable clock is the engine's clock at that moment.\<close>

lemma TimeNow_new:
  fixes e :: "'w env"
  assumes "quiet wc e" and "good_clock e" and "TimeProvider wc = NewTimeProvider" and "untouched wc (now_name wc) e"
    and "carries cd (engineNow e (engineNows e))"
  obtains wc' e' where "TimeNow cd wc e = (Returned (Inr (engineNow e (engineNows e))), wc', e')"
    "wc' = wc\<lparr>TimeProvider := \<lparr>p_prefix = ''_time.now'', p_counter = 1\<rparr>\<rparr>"
    "world e' = world e" "quiet wc e'" "good_clock e'" "\<forall>m. m \<noteq> now_name wc \<longrightarrow> stored wc m e' = stored wc m e"
    "seenSteps e' = insert (now_name wc) (seenSteps e)"
proof -
  let ?t = "engineNow e (engineNows e)"
  define fn :: "(time option go_outcome, 'w) act" where
    "fn = (\<lambda>e. case (let (t, e) = nowFunc e in (Returned (Inr t), e)) of
      (Returned (Inr v), e) \<Rightarrow> (Returned (Inr (Some v)), e)
    | (Returned (Inl err), e) \<Rightarrow> (Returned (Inl err), e)
    | (Panicked v stack, e) \<Rightarrow> (Panicked v stack, e))"
  obtain data where d: "marshal cd (Some ?t) = Inr data" "unmarshal cd (Some data) = Inr ?t"
    using assms(5) by (auto simp: carries_def)
  have fn: "fn e0 = (Returned (Inr (Some ?t)), e0\<lparr>world := world e, engineNows := Suc (engineNows e)\<rparr>)"
    if "world e0 = world e" "engineNow e0 = engineNow e" "engineNows e0 = engineNows e" for e0
    using that by (simp add: fn_def nowFunc_def)
  obtain e' where run: "Run cd wc (step_number ''_time.now'' 1) fn e = (Inr (Some ?t), e')" "world e' = world e" "quiet wc e'"
    "\<forall>m. m \<noteq> now_name wc \<longrightarrow> stored wc m e' = stored wc m e" "seenSteps e' = insert (now_name wc) (seenSteps e)"
    "engineNow e' = engineNow e"
    by (rule Run_new [where fn = fn, OF assms(1,2) now_name_def assms(4) fn d])
  have "TimeNow cd wc e = (Returned (Inr ?t), wc\<lparr>TimeProvider := \<lparr>p_prefix = ''_time.now'', p_counter = 1\<rparr>\<rparr>, e')"
    using run(1) by (simp add: TimeNow_def ProviderGet_def assms(3) NewTimeProvider_def NewProvider_def fn_def deref_def)
  moreover have "good_clock e'" using run(6) assms(2) by (simp add: good_clock_def)
  ultimately show thesis using run(2-5) that by blast
qed

text \<open>A greeting completes in one execution: the message names the user and the instant the durable clock read between
  the two steps, and the greeting carries the id of the request.\<close>

theorem greeting_says_hello:
  fixes e :: "'w env"
  assumes "quiet wc e" and "good_clock e" and "fresh_context wc e" and "TimeProvider wc = NewTimeProvider"
    and "t = engineNow e (engineNows e + 1)"
    and "carries (json_user js) \<lparr>gu_ID = gr_UserID req, gu_Name = ''Alice''\<rparr>" and "carries (json_time js) t"
    and "g = \<lparr>g_Message = ''Hello, Alice! ('' @ stamp t @ ''Z)'', g_UserID = gr_UserID req\<rparr>"
    and "carries (json_greeting js) g"
  shows "\<exists>e'. greeting_Execute js req wc e = (Returned (Inr g), e') \<and> world e' = world e"
proof -
  let ?user = "\<lparr>gu_ID = gr_UserID req, gu_Name = ''Alice''\<rparr>"
  have un: "untouched wc n e" for n using assms(3) by (simp add: fresh_context_def untouched_def)
  have f: "fetch_greeted req (world e) = (Returned (Inr (Some ?user)), world e)" by (simp add: fetch_greeted_def)
  obtain e1 where 1: "Run (json_user js) wc ''fetch_user'' (on_world (fetch_greeted req)) e = (Inr (Some ?user), e1)"
    "world e1 = world e" "quiet wc e1" "good_clock e1"
    "\<forall>m. m \<noteq> resolveStepName wc ''fetch_user'' \<longrightarrow> stored wc m e1 = stored wc m e"
    "seenSteps e1 = insert (resolveStepName wc ''fetch_user'') (seenSteps e)"
    "engineNow e1 = engineNow e" "engineNows e1 = Suc (engineNows e)"
    by (rule world_step_new [where f = "fetch_greeted req" and name = "''fetch_user''", OF assms(1,2) un f assms(6)])
  have now: "engineNow e1 (engineNows e1) = t" by (simp add: 1(7,8) assms(5))
  have names: "now_name wc \<noteq> resolveStepName wc ''fetch_user''" "now_name wc \<noteq> resolveStepName wc ''send_greeting''"
    by (simp_all add: now_name_def step_number_def)
  have "untouched wc (now_name wc) e1"
    using un [of "now_name wc"] names by (simp add: untouched_def 1(5,6))
  from TimeNow_new [OF 1(3,4) assms(4) this, of "json_time js", unfolded now, OF assms(7)] obtain wc' e2 where 2:
    "TimeNow (json_time js) wc e1 = (Returned (Inr t), wc', e2)"
    "wc' = wc\<lparr>TimeProvider := \<lparr>p_prefix = ''_time.now'', p_counter = 1\<rparr>\<rparr>"
    "world e2 = world e1" "quiet wc e2" "good_clock e2" "\<forall>m. m \<noteq> now_name wc \<longrightarrow> stored wc m e2 = stored wc m e1"
    "seenSteps e2 = insert (now_name wc) (seenSteps e1)" by blast
  have name: "resolveStepName wc' = resolveStepName wc" by (simp add: 2(2) resolveStepName_def fun_eq_iff)
  have un2: "untouched wc' (resolveStepName wc' ''send_greeting'') e2"
    unfolding name using un [of "resolveStepName wc ''send_greeting''"] names [symmetric]
    by (simp add: untouched_def 2(2,6,7) 1(5,6))
  have q2: "quiet wc' e2" using 2(2,4) by (simp add: quiet_def)
  have s: "send_greeting (greeting_message ?user t) ?user (world e2) = (Returned (Inr (Some g)), world e)"
    by (simp add: send_greeting_def greeting_message_def format_now_def assms(8) 2(3) 1(2))
  obtain e3 where 3: "Run (json_greeting js) wc' ''send_greeting'' (on_world (send_greeting (greeting_message ?user t) ?user)) e2 =
      (Inr (Some g), e3)" "world e3 = world e"
    by (rule world_step_new [where f = "send_greeting (greeting_message ?user t) ?user", OF q2 2(5) un2 s assms(9)]) (rule that)
  then show ?thesis
    by (simp add: greeting_Execute_def as_call_def 1(1) 2(1) and_then_def continue_def Let_def)
qed

subsection \<open>Witnesses\<close>

text \<open>Services that answer every request, a world that counts the calls, and codecs for the values that occur.\<close>

definition only_codec :: "'v \<Rightarrow> 'v codec" where
  "only_codec v0 = \<lparr>marshal = (\<lambda>v. if v = Some v0 then Inr ''v'' else Inl (ErrorString ''json'')),
     unmarshal = (\<lambda>_. Inr v0)\<rparr>"

lemma only_codec [simp]: "round_trip (only_codec v)" "carries (only_codec v) v"
  by (simp_all add: round_trip_def carries_def only_codec_def)

definition expiry :: time where
  "expiry = noon + 1"

definition order_req1 :: OrderRequest where
  "order_req1 = \<lparr>or_OrderID = ''o1'', or_CustomerID = ''c1'', or_Amount = 0\<rparr>"

definition user1 :: OrderUser where
  "user1 = \<lparr>ou_ID = ''c1'', ou_Name = ''Ann'', ou_Email = ''''\<rparr>"

definition reservation1 :: Reservation where
  "reservation1 = \<lparr>rs_ID = ''r1'', rs_ExpiresAt = expiry\<rparr>"

definition payment1 :: PaymentResult where
  "payment1 = \<lparr>pr_Status = ''approved'', pr_Reference = ''p1''\<rparr>"

definition deps1 :: "nat order_deps" where
  "deps1 = \<lparr>client_Get = (\<lambda>u w. (Returned (Inr \<lparr>StatusCode = 200, Body = u\<rparr>), Suc w)),
     client_Post = (\<lambda>u t w. (Returned (Inr \<lparr>StatusCode = 200, Body = u\<rparr>), Suc w)), baseURL = '''',
     SaveOrder = (\<lambda>r w. (Returned (Inr ()), Suc w)), decode_user = (\<lambda>_. Inr user1),
     decode_reservation = (\<lambda>_. Inr reservation1), decode_payment = (\<lambda>_. Inr payment1)\<rparr>"

definition json_order1 :: order_json where
  "json_order1 = \<lparr>json_customer = only_codec user1, json_reservation = only_codec reservation1,
     json_sleep = only_codec expiry, json_payment = only_codec payment1,
     json_order = only_codec (order_result order_req1 reservation1 payment1)\<rparr>"

lemma order_codecs1 [simp]: "order_codecs json_order1"
  by (simp add: order_codecs_def json_order1_def)

lemma services1 [simp]:
  "fetch_user deps1 req w = (Returned (Inr (Some user1)), Suc w)"
  "reserve_inventory deps1 (Some u) w = (Returned (Inr (Some reservation1)), Suc w)"
  "check_payment deps1 req w = (Returned (Inr (Some payment1)), Suc w)"
  "save_order deps1 r w = (Returned (Inr (Some r)), Suc w)"
  by (simp_all add: fetch_user_def reserve_inventory_def check_payment_def save_order_def decoded_def deps1_def)

definition step1 :: "string \<Rightarrow> step_row" where
  "step1 n = \<lparr>s_type = ''count:v1'', s_version = ''v1'', s_workflow_id = ''w1'', s_step_name = n, s_result = Some ''v'',
     s_error = '''', s_created_at = formatTime noon\<rparr>"

definition waiting1 :: "nat env" where
  "waiting1 = env1\<lparr>seenSteps := {''_sleep.until:1'', ''reserve_inventory'', ''fetch_user''}, engineNows := 4, world := 2,
     the_store := store1\<lparr>dbCalls := 9, step_results := [step1 ''fetch_user'', step1 ''reserve_inventory'', step1 ''_sleep.until:1'']\<rparr>\<rparr>"

lemma order_waits1:
  "order_Execute json_order1 deps1 order_req1 wctx1 env1 = (Returned (Inl (SuspendError expiry)), waiting1)"
  by (simp add: order_Execute_def and_then_def continue_def as_call_def Run_def trackStep_def on_store_def GetSignal_def
      db_call_def store1_def lookup_step_def GetStepResult_def cache_miss_def on_world_def json_order1_def only_codec_def
      save_result_def nowFunc_def SaveStepResult_def replace_step_def step_row_of_def SignalCancelRequested_def env1_def Let_def
      SleepUntil_def reservation1_def expiry_def deref_def step_number_def dec_nat_small waiting1_def step1_def row_at_def
      step_key_def wctx1_def resolveStepName_def)

definition later1 :: "nat env" where
  "later1 = waiting1\<lparr>seenSteps := {}, engineNow := \<lambda>_. noon + 2\<rparr>"

lemma later1_good [simp]:
  "quiet wctx1 later1" "good_clock later1" "clock_past expiry later1" "later waiting1 later1" "seenSteps later1 = {}"
  by (simp_all add: later1_def waiting1_def quiet_def no_fault_def store1_def SignalCancelRequested_def good_clock_def
      clock_past_def later_def env1_def good_time_def valid_time_def noon_def zeroTime_def ns_per_sec_def expiry_def)

lemma later1_fields [simp]:
  "world later1 = 2" "stored wctx1 n later1 = stored wctx1 n waiting1"
  "step_results (the_store later1) = step_results (the_store waiting1)"
  by (simp_all add: later1_def waiting1_def stored_def)

lemma no_cache1: "wctx1\<lparr>stepCache := Map.empty\<rparr> = wctx1"
  by (simp add: wctx1_def)

theorem order_resumes_at_payment_witness:
  "\<exists>reservation wc3 e3. order_Execute json_order1 deps1 order_req1 wctx1 later1 =
     order_settle json_order1 deps1 order_req1 reservation wc3 e3 \<and> world e3 = 2"
  using order_resumes_at_payment [OF order_codecs1 cache1 clock1 order_waits1 later1_good(1), of Map.empty]
  by (simp only: no_cache1) auto

theorem order_waits_for_reservation_witness:
  "order_Execute json_order1 (deps1\<lparr>client_Get := \<lambda>u w. if u = ''/payments/o1'' then (Panicked ''boom'' '''', w) else client_Get deps1 u w,
     SaveOrder := \<lambda>r w. (Panicked ''boom'' '''', w), decode_payment := \<lambda>_. Inl (ErrorString ''EOF'')\<rparr>) order_req1 wctx1 env1 =
   (Returned (Inl (SuspendError expiry)), waiting1)"
  by (rule order_waits_for_reservation [OF order_waits1]) (simp add: deps1_def order_req1_def)

theorem order_in_two_executions_witness:
  "\<exists>e3. order_Execute json_order1 deps1 order_req1 wctx1 later1 = (Returned (Inr \<lparr>res_OrderID = ''o1'',
     res_Status = ''confirmed'', res_PaymentRef = ''p1'', res_ReservationID = ''r1''\<rparr>), e3) \<and> world e3 = 4"
proof -
  have fresh: "fresh_context wctx1 env1" by (auto simp: fresh_context_def wctx1_def stored_def)
  have early: "engineNow env1 (engineNows env1 + 3) < rs_ExpiresAt reservation1" by (simp add: reservation1_def expiry_def)
  have carried: "carries (json_customer json_order1) user1" "carries (json_reservation json_order1) reservation1"
    "carries (json_sleep json_order1) (rs_ExpiresAt reservation1)" "carries (json_payment json_order1) payment1"
    "carries (json_order json_order1) \<lparr>res_OrderID = ''o1'', res_Status = ''confirmed'', res_PaymentRef = ''p1'', res_ReservationID = ''r1''\<rparr>"
    by (simp_all add: json_order1_def reservation1_def order_result_def order_status_def order_req1_def payment1_def)
  have save: "SaveOrder deps1 r n = (Returned (Inr ()), Suc n)" for r n by (simp add: deps1_def)
  have past: "clock_past (rs_ExpiresAt reservation1) later1" by (simp add: reservation1_def)
  have result: "\<lparr>res_OrderID = ''o1'', res_Status = ''confirmed'', res_PaymentRef = ''p1'', res_ReservationID = ''r1''\<rparr> =
      \<lparr>res_OrderID = or_OrderID order_req1,
       res_Status = (if pr_Status payment1 = ''approved'' then ''confirmed'' else ''cancelled''),
       res_PaymentRef = pr_Reference payment1, res_ReservationID = rs_ID reservation1\<rparr>"
    by (simp add: order_req1_def reservation1_def payment1_def)
  show ?thesis
    using order_in_two_executions [where js = json_order1 and d = deps1 and req = order_req1 and wc = wctx1 and e = env1
        and ?e2.0 = later1 and c = Map.empty and user = user1 and reservation = reservation1 and payment = payment1,
        unfolded no_cache1, OF quiet1 clock1 fresh carried services1(1,2) early later1_good(1,2) cache1 later1_good(5) past
        services1(3) save result]
    unfolding order_waits1 by auto
qed

definition greeting1 :: Greeting where
  "greeting1 = \<lparr>g_Message = ''Hello, Alice! ('' @ stamp noon @ ''Z)'', g_UserID = ''u1''\<rparr>"

theorem greeting_says_hello_witness:
  "\<exists>e'. greeting_Execute \<lparr>json_user = only_codec \<lparr>gu_ID = ''u1'', gu_Name = ''Alice''\<rparr>, json_time = only_codec noon,
     json_greeting = only_codec greeting1\<rparr> \<lparr>gr_UserID = ''u1''\<rparr> wctx1 env1 = (Returned (Inr greeting1), e') \<and> world e' = 0"
proof -
  have "fresh_context wctx1 env1" by (auto simp: fresh_context_def wctx1_def stored_def)
  from greeting_says_hello [OF quiet1 clock1 this, of noon "\<lparr>json_user = only_codec \<lparr>gu_ID = ''u1'', gu_Name = ''Alice''\<rparr>,
      json_time = only_codec noon, json_greeting = only_codec greeting1\<rparr>" "\<lparr>gr_UserID = ''u1''\<rparr>" greeting1]
  show ?thesis by (simp add: wctx1_def greeting1_def)
qed

end
