(* ===== verification/Telemetry.thy ===== *)
theory Telemetry
  imports Engine ParallelBranches
begin

section \<open>Telemetry\<close>

text \<open>
  \<^verbatim>\<open>otel.go\<close>, \<^verbatim>\<open>semconv/semconv.go\<close> and the calls on the telemetry in \<^verbatim>\<open>run.go\<close>, \<^verbatim>\<open>runner.go\<close>, \<^verbatim>\<open>registry.go\<close>,
  \<^verbatim>\<open>engine.go\<close> and \<^verbatim>\<open>promoter.go\<close>. What the OpenTelemetry instruments and tracers receive is a list of
  events that the traced environment carries beside the world; spans are numbered in the order in
  which they are started. A measured duration is an arbitrary number, given by how many events were reported
  before it. The functions named as the untraced ones with \<open>_tel\<close> are the same code with the calls
  the others leave out; the contexts of the engine always have a telemetry. Creating an instrument
  cannot fail here (the code ignores the error), and the tracer and meter of a nil provider are those
  of the global one, which is not modelled.
\<close>

subsection \<open>Conventions\<close>

record Conventions =
  WorkflowID :: string
  WorkflowType :: string
  WorkflowVersion :: string
  WorkflowStatus :: string
  WorkflowAttempt :: string
  StepName :: string
  StepCacheHit :: string
  SpanWorkflowExecute :: string
  SpanStep :: string
  SpanParallelBranch :: string
  MetricWorkflowSubmitted :: string
  MetricWorkflowCompleted :: string
  MetricWorkflowDuration :: string
  MetricWorkflowActive :: string
  MetricWorkflowSuspended :: string
  MetricStepExecuted :: string
  MetricStepDuration :: string

type_synonym conv_option = "string \<Rightarrow> string"

text \<open>The configuration has one field, the prefix.\<close>

definition WithPrefix :: "string \<Rightarrow> conv_option" where
  "WithPrefix p = (\<lambda>_. p)"

definition NewConventions :: "conv_option list \<Rightarrow> Conventions" where
  "NewConventions opts =
     (let p = fold (\<lambda>opt cfg. opt cfg) opts ''flicker'' in
      \<lparr>WorkflowID = p @ ''.workflow.id'', WorkflowType = p @ ''.workflow.type'',
       WorkflowVersion = p @ ''.workflow.version'', WorkflowStatus = p @ ''.workflow.status'',
       WorkflowAttempt = p @ ''.workflow.attempt'', StepName = p @ ''.step.name'',
       StepCacheHit = p @ ''.step.cache_hit'', SpanWorkflowExecute = p @ ''.workflow.execute'',
       SpanStep = p @ ''.workflow.step'', SpanParallelBranch = p @ ''.workflow.branch'',
       MetricWorkflowSubmitted = p @ ''.workflow.submitted'',
       MetricWorkflowCompleted = p @ ''.workflow.completed'',
       MetricWorkflowDuration = p @ ''.workflow.duration'', MetricWorkflowActive = p @ ''.workflow.active'',
       MetricWorkflowSuspended = p @ ''.workflow.suspended'', MetricStepExecuted = p @ ''.step.executed'',
       MetricStepDuration = p @ ''.step.duration''\<rparr>)"

definition DefaultConventions :: Conventions where
  "DefaultConventions = NewConventions []"

subsection \<open>Instruments and events\<close>

datatype attr_value = StringValue string | IntValue int | BoolValue bool

type_synonym attributes = "(string \<times> attr_value) list"

datatype tel_event =
    SpanStarted nat string attributes
  | SpanFailed nat string
  | SpanEnded nat
  | Added string int attributes
  | Recorded string duration attributes

record telemetry =
  conv :: Conventions
  cacheHitSpans :: bool
  workflowSubmitted :: string
  workflowCompleted :: string
  workflowDuration :: string
  workflowActive :: string
  workflowSuspended :: string
  stepExecuted :: string
  stepDuration :: string
  elapsed :: "nat \<Rightarrow> duration"

text \<open>An instrument is known by its name; the measured durations come with the telemetry.\<close>

definition newTelemetry :: "Conventions option \<Rightarrow> bool \<Rightarrow> (nat \<Rightarrow> duration) \<Rightarrow> telemetry" where
  "newTelemetry convOpt hits durations =
     (let c = (case convOpt of None \<Rightarrow> DefaultConventions | Some c \<Rightarrow> c) in
      \<lparr>conv = c, cacheHitSpans = hits, workflowSubmitted = MetricWorkflowSubmitted c,
       workflowCompleted = MetricWorkflowCompleted c, workflowDuration = MetricWorkflowDuration c,
       workflowActive = MetricWorkflowActive c, workflowSuspended = MetricWorkflowSuspended c,
       stepExecuted = MetricStepExecuted c, stepDuration = MetricStepDuration c, elapsed = durations\<rparr>)"

type_synonym 'w traced = "'w \<times> tel_event list"

definition emit :: "tel_event \<Rightarrow> 'w traced env \<Rightarrow> 'w traced env" where
  "emit ev e = e\<lparr>world := (fst (world e), snd (world e) @ [ev])\<rparr>"

fun is_start :: "tel_event \<Rightarrow> bool" where
  "is_start (SpanStarted i n as) = True"
| "is_start _ = False"

definition Start :: "string \<Rightarrow> attributes \<Rightarrow> 'w traced env \<Rightarrow> nat \<times> 'w traced env" where
  "Start name as e = (let i = length (filter is_start (snd (world e))) in (i, emit (SpanStarted i name as) e))"

definition span_End :: "nat \<Rightarrow> 'w traced env \<Rightarrow> 'w traced env" where
  "span_End i = emit (SpanEnded i)"

subsection \<open>Spans\<close>

definition startWorkflowSpan :: "telemetry \<Rightarrow> WorkflowRecord \<Rightarrow> 'w traced env \<Rightarrow> nat \<times> 'w traced env" where
  "startWorkflowSpan t record =
     Start (SpanWorkflowExecute (conv t))
       [(WorkflowID (conv t), StringValue (wr_ID record)), (WorkflowType (conv t), StringValue (wr_Type record)),
        (WorkflowVersion (conv t), StringValue (wr_Version record)),
        (WorkflowAttempt (conv t), IntValue (wr_Attempts record))]"

definition startStepSpan :: "telemetry \<Rightarrow> string \<Rightarrow> bool \<Rightarrow> 'w traced env \<Rightarrow> nat \<times> 'w traced env" where
  "startStepSpan t stepName hit =
     Start (SpanStep (conv t)) [(StepName (conv t), StringValue stepName), (StepCacheHit (conv t), BoolValue hit)]"

definition startBranchSpan :: "telemetry \<Rightarrow> string \<Rightarrow> 'w traced env \<Rightarrow> nat \<times> 'w traced env" where
  "startBranchSpan t branchName = Start (SpanParallelBranch (conv t)) [(StepName (conv t), StringValue branchName)]"

definition endSpanWithError :: "nat \<Rightarrow> gerror option \<Rightarrow> 'w traced env \<Rightarrow> 'w traced env" where
  "endSpanWithError i err e =
     (let e = (case err of None \<Rightarrow> e | Some x \<Rightarrow> emit (SpanFailed i (error_text x)) e) in span_End i e)"

subsection \<open>Metrics\<close>

definition wfTypeAttrs :: "telemetry \<Rightarrow> string \<Rightarrow> string \<Rightarrow> attributes" where
  "wfTypeAttrs t wfType version = [(WorkflowType (conv t), StringValue wfType), (WorkflowVersion (conv t), StringValue version)]"

definition recordSubmitted :: "telemetry \<Rightarrow> string \<Rightarrow> string \<Rightarrow> 'w traced env \<Rightarrow> 'w traced env" where
  "recordSubmitted t wfType version = emit (Added (workflowSubmitted t) 1 (wfTypeAttrs t wfType version))"

definition recordCompleted :: "telemetry \<Rightarrow> string \<Rightarrow> string \<Rightarrow> status \<Rightarrow> 'w traced env \<Rightarrow> 'w traced env" where
  "recordCompleted t wfType version st =
     emit (Added (workflowCompleted t) 1 (wfTypeAttrs t wfType version @ [(WorkflowStatus (conv t), StringValue st)]))"

definition recordDuration :: "telemetry \<Rightarrow> string \<Rightarrow> string \<Rightarrow> 'w traced env \<Rightarrow> 'w traced env" where
  "recordDuration t wfType version e =
     emit (Recorded (workflowDuration t) (elapsed t (length (snd (world e)))) (wfTypeAttrs t wfType version)) e"

definition adjustActive :: "telemetry \<Rightarrow> int \<Rightarrow> string \<Rightarrow> string \<Rightarrow> 'w traced env \<Rightarrow> 'w traced env" where
  "adjustActive t delta wfType version = emit (Added (workflowActive t) delta (wfTypeAttrs t wfType version))"

definition adjustSuspended :: "telemetry \<Rightarrow> int \<Rightarrow> 'w traced env \<Rightarrow> 'w traced env" where
  "adjustSuspended t delta = emit (Added (workflowSuspended t) delta [])"

definition recordStepExecuted :: "telemetry \<Rightarrow> string \<Rightarrow> bool \<Rightarrow> 'w traced env \<Rightarrow> 'w traced env" where
  "recordStepExecuted t stepName hit =
     emit (Added (stepExecuted t) 1 [(StepName (conv t), StringValue stepName), (StepCacheHit (conv t), BoolValue hit)])"

definition recordStepDuration :: "telemetry \<Rightarrow> string \<Rightarrow> 'w traced env \<Rightarrow> 'w traced env" where
  "recordStepDuration t stepName e =
     emit (Recorded (stepDuration t) (elapsed t (length (snd (world e)))) [(StepName (conv t), StringValue stepName)]) e"

subsection \<open>Steps\<close>

text \<open>A suspension is not an error of the span.\<close>

definition end_span :: "nat \<Rightarrow> 'a res \<Rightarrow> 'w traced env \<Rightarrow> 'w traced env" where
  "end_span span r e =
     (case r of
        Inl err \<Rightarrow> if IsSuspend err \<noteq> None then span_End span e else endSpanWithError span (Some err) e
      | Inr _ \<Rightarrow> span_End span e)"

definition cache_miss_tel :: "telemetry \<Rightarrow> 'v codec \<Rightarrow> wctx \<Rightarrow> string \<Rightarrow> ('v option go_outcome, 'w traced) act \<Rightarrow>
    ('v option res, 'w traced) act" where
  "cache_miss_tel tel cd wc stepName fn e =
     (let (span, e) = startStepSpan tel stepName False e;
          (out, e) = fn e;
          e = recordStepExecuted tel stepName False e;
          e = recordStepDuration tel stepName e;
          e = end_span span (panicToError out) e in
      case panicToError out of
        Inl err \<Rightarrow> (Inl err, e)
      | Inr result \<Rightarrow>
          (case marshal cd result of
             Inl err \<Rightarrow> (Inl (WrapError (''marshal step '' @ go_quote stepName @ '' result'') err), e)
           | Inr data \<Rightarrow>
               (case save_result wc stepName data e of
                  (Inl err, e) \<Rightarrow>
                    (Inl (WrapError (''save step '' @ go_quote stepName @ '' result'') err), e)
                | (Inr _, e) \<Rightarrow> (Inr result, e))))"

definition Run_tel :: "telemetry \<Rightarrow> 'v codec \<Rightarrow> wctx \<Rightarrow> string \<Rightarrow> ('v option go_outcome, 'w traced) act \<Rightarrow>
    ('v option res, 'w traced) act" where
  "Run_tel tel cd wc name fn e =
     (let stepName = resolveStepName wc name in
      case trackStep stepName e of (Inl err, e) \<Rightarrow> (Inl err, e) | (Inr _, e) \<Rightarrow>
      case on_store (GetSignal (wc_id wc)) e of
        (Inl err, e) \<Rightarrow> (Inl (WrapError (''check signal for step '' @ go_quote stepName) err), e)
      | (Inr signal, e) \<Rightarrow>
          if signal = SignalCancelRequested then (Inl ErrCancelled, e)
          else case lookup_step wc stepName e of
                 (Inl err, e) \<Rightarrow> (Inl err, e)
               | (Inr (Some c), e) \<Rightarrow>
                   let e = recordStepExecuted tel stepName True e;
                       e = (if cacheHitSpans tel
                            then let (span, e) = startStepSpan tel stepName True e in span_End span e else e)
                   in (cache_hit cd stepName c, e)
               | (Inr None, e) \<Rightarrow> cache_miss_tel tel cd wc stepName fn e)"

subsection \<open>Branches\<close>

definition branch_proc_tel :: "telemetry \<Rightarrow> wctx \<Rightarrow> 'w traced branch \<Rightarrow> (unit res, 'w traced) proc" where
  "branch_proc_tel tel wc b =
     bind (act (startBranchSpan tel (b_name b))) (\<lambda>span.
     bind (b_run b (Scope wc (b_name b))) (\<lambda>out.
     let r = panicToError out in
     bind (act (\<lambda>e. ((), end_span span r e))) (\<lambda>_. Ret r)))"

definition Parallel_tel :: "telemetry \<Rightarrow> wctx \<Rightarrow> 'w traced branch list \<Rightarrow> nat list \<Rightarrow> 'w traced env \<Rightarrow>
    (unit res \<times> 'w traced env) option" where
  "Parallel_tel tel wc branches sched e =
     (case fold sched_step sched (map (branch_proc_tel tel wc) branches, e) of (ps, e') \<Rightarrow>
        (case those (map proc_result ps) of
           None \<Rightarrow> None
         | Some rs \<Rightarrow> Some (join_errors (map err_of rs), e')))"

subsection \<open>Executions\<close>

definition resolveOutcome_tel :: "telemetry \<Rightarrow> WorkflowRecord \<Rightarrow> RetryPolicy \<Rightarrow> int \<Rightarrow> bytes res \<Rightarrow>
    (unit res, 'w traced) act" where
  "resolveOutcome_tel tel record p occVersion r e =
     (let completed = recordCompleted tel (wr_Type record) (wr_Version record) in
      case r of
        Inl execErr \<Rightarrow>
          if as_cancelled execErr
          then on_store (UpdateStatus (wr_ID record) StatusCancelled None occVersion) (completed StatusCancelled e)
          else (case as_permanent execErr of
            Some err \<Rightarrow>
              on_store (SetError (wr_ID record) StatusFailed (error_text err) occVersion) (completed StatusFailed e)
          | None \<Rightarrow> (case IsSuspend execErr of
              Some resumeAt \<Rightarrow> on_store (Suspend (wr_ID record) resumeAt occVersion) (adjustSuspended tel 1 e)
            | None \<Rightarrow>
                if wr_Attempts record + 1 \<ge> MaxAttempts p
                then on_store (SetError (wr_ID record) StatusFailed (error_text execErr) occVersion)
                  (completed StatusFailed e)
                else let (t, e) = nowFunc e in
                     on_store (SetRetry (wr_ID record) (add_time t (retry_delay p (wr_Attempts record))) occVersion) e))
      | Inr resultJSON \<Rightarrow>
          on_store (UpdateStatus (wr_ID record) StatusCompleted (Some resultJSON) occVersion) (completed StatusCompleted e))"

definition run_leased_tel :: "telemetry \<Rightarrow> 'w traced registryEntry \<Rightarrow> WorkflowRecord \<Rightarrow> (unit res, 'w traced) act" where
  "run_leased_tel tel entry record e =
     (let (span, e) = startWorkflowSpan tel record e;
          active = (\<lambda>d. adjustActive tel d (wr_Type record) (wr_Version record));
          e = active 1 e in
      case on_store (ListStepResults (wr_Type record) (wr_Version record) (wr_ID record)) e of
        (Inl err, e) \<Rightarrow> (Inl (WrapError ''prefetch step results'' err), endSpanWithError span (Some err) (active (- 1) e))
      | (Inr steps, e) \<Rightarrow>
          let wc = new_context record (step_cache steps); e = e\<lparr>seenSteps := {}\<rparr> in
          (case on_store (GetSignal (wr_ID record)) e of
             (Inl err, e) \<Rightarrow> (Inl (WrapError ''get signal'' err), endSpanWithError span (Some err) (active (- 1) e))
           | (Inr signal, e) \<Rightarrow>
               let (r, e) = (if signal = SignalCancelRequested then (Inl ErrCancelled, e)
                             else let (out, e) = d_execute (re_def entry) wc (wr_Payload record) e
                                  in (panicToError out, e));
                   e = recordDuration tel (wr_Type record) (wr_Version record) (active (- 1) e);
                   e = end_span span r e
               in resolveOutcome_tel tel record (retryPolicy entry) (wr_OCCVersion record) r e))"

definition RunWorkflow_tel :: "telemetry \<Rightarrow> 'w traced registry \<Rightarrow> WorkflowRecord \<Rightarrow>
    memory_leases \<times> 'w traced env \<Rightarrow> unit res \<times> memory_leases \<times> 'w traced env" where
  "RunWorkflow_tel tel reg record x =
     (case x of (ls, e) \<Rightarrow>
        case reg (wr_Type record) of
          None \<Rightarrow> (Inl (DefinitionNotFoundError (wr_Type record)), ls, e)
        | Some entry \<Rightarrow>
            (case Acquire (wr_ID record) ls of
               (Inl err, ls) \<Rightarrow> (Inl (WrapError ''acquire lease'' err), ls, e)
             | (Inr acquired, ls) \<Rightarrow>
                 if \<not> acquired then (Inr (), ls, e)
                 else let (r, e) = run_leased_tel tel entry record e;
                          (_, ls) = Release (wr_ID record) ls
                      in (r, ls, e)))"

subsection \<open>Submission and cycles\<close>

definition Submit_tel :: "telemetry \<Rightarrow> ('r, 'resp, 'w traced) WorkflowDef \<Rightarrow> ('r \<Rightarrow> bytes res) \<Rightarrow> 'r \<Rightarrow> SubmitOption list \<Rightarrow>
    'w traced engine \<Rightarrow> string res \<times> 'w traced engine" where
  "Submit_tel tel d marshalReq request opts g =
     (case Submit d marshalReq request opts g of
        (Inl err, g) \<Rightarrow> (Inl err, g)
      | (Inr wid, g) \<Rightarrow> (Inr wid, g\<lparr>the_env := recordSubmitted tel (defName d) (wd_version d) (the_env g)\<rparr>))"

text \<open>\<open>Promote\<close> and \<open>TimeOutSubscriptions\<close> of the engine take what a cycle reports off the gauge.\<close>

definition count_back :: "telemetry \<Rightarrow> int res \<Rightarrow> 'w traced env \<Rightarrow> 'w traced env" where
  "count_back tel r e = (case r of Inr n \<Rightarrow> if n > 0 then adjustSuspended tel (- n) e else e | Inl _ \<Rightarrow> e)"

definition Promote_tel :: "telemetry \<Rightarrow> 'w traced engine \<Rightarrow> int res \<times> 'w traced engine" where
  "Promote_tel tel = on_env (\<lambda>e. let (r, e) = promote e in (r, count_back tel r e))"

definition EngineTimeOut_tel :: "telemetry \<Rightarrow> 'w traced engine \<Rightarrow> int res \<times> 'w traced engine" where
  "EngineTimeOut_tel tel = on_env (\<lambda>e. let (r, e) = timeOutSubscriptions e in (r, count_back tel r e))"

text \<open>The tick of the promoter runs both cycles before it adjusts the gauge.\<close>

definition promoter_tick_tel :: "telemetry \<Rightarrow> 'w traced env \<Rightarrow> bool \<times> 'w traced env" where
  "promoter_tick_tel tel e =
     (let (promoted, e) = promote e; (timedOut, e) = timeOutSubscriptions e;
          e = count_back tel promoted e; e = count_back tel timedOut e;
          count = (\<lambda>r. case r of Inl _ \<Rightarrow> 0 | Inr n \<Rightarrow> n)
      in (count promoted > 0 \<or> count timedOut > 0, e))"

text \<open>\<open>SendEvent\<close> does not touch the telemetry: with it, it is \<open>SendEvent\<close> on the traced engine.\<close>

end
