(* ===== verification/TelemetryTheorems.thy ===== *)
theory TelemetryTheorems
  imports Telemetry Examples "HOL-Library.Multiset"
begin

section \<open>Properties of the telemetry\<close>

text \<open>
  The instrumented code does what the code does (every answer and every table), an execution starts
  and ends each of its spans and leaves the gauge of active workflows as it was on every path, and
  where the numbers that are reported differ from what happened.
\<close>

subsection \<open>Telemetry only observes\<close>

definition untraced :: "'w traced env \<Rightarrow> 'w env" where
  "untraced e = \<lparr>the_store = the_store e, seenSteps = seenSteps e, engineNow = engineNow e, engineNows = engineNows e,
     engineID = engineID e, engineIDs = engineIDs e, world = fst (world e)\<rparr>"

definition observes :: "('a, 'w traced) act \<Rightarrow> ('a, 'w) act \<Rightarrow> bool" where
  "observes A B \<longleftrightarrow> (\<forall>e. B (untraced e) = (fst (A e), untraced (snd (A e))))"

lemma untraced_fields [simp]:
  "the_store (untraced e) = the_store e" "seenSteps (untraced e) = seenSteps e"
  "engineNow (untraced e) = engineNow e" "engineNows (untraced e) = engineNows e"
  "engineID (untraced e) = engineID e" "engineIDs (untraced e) = engineIDs e" "world (untraced e) = fst (world e)"
  by (simp_all add: untraced_def)

lemma untraced_update [simp]:
  "untraced (e\<lparr>the_store := s\<rparr>) = (untraced e)\<lparr>the_store := s\<rparr>"
  "untraced (e\<lparr>seenSteps := ns\<rparr>) = (untraced e)\<lparr>seenSteps := ns\<rparr>"
  "untraced (e\<lparr>engineNows := k\<rparr>) = (untraced e)\<lparr>engineNows := k\<rparr>"
  by (simp_all add: untraced_def)

lemma untraced_emit [simp]: "untraced (emit ev e) = untraced e"
  by (simp add: untraced_def emit_def)

lemma untraced_helpers [simp]:
  "untraced (snd (Start name as e)) = untraced e" "untraced (span_End i e) = untraced e"
  "untraced (snd (startStepSpan t n hit e)) = untraced e" "untraced (snd (startWorkflowSpan t record e)) = untraced e"
  "untraced (endSpanWithError i x e) = untraced e" "untraced (recordSubmitted t a b e) = untraced e"
  "untraced (recordCompleted t a b st e) = untraced e" "untraced (recordDuration t a b e) = untraced e"
  "untraced (adjustActive t d a b e) = untraced e" "untraced (adjustSuspended t d e) = untraced e"
  "untraced (recordStepExecuted t n hit e) = untraced e" "untraced (recordStepDuration t n e) = untraced e"
  "untraced (end_span i r e) = untraced e" "untraced (count_back t c e) = untraced e"
  by (simp_all add: Start_def span_End_def startStepSpan_def startWorkflowSpan_def endSpanWithError_def recordSubmitted_def
      recordCompleted_def recordDuration_def adjustActive_def adjustSuspended_def recordStepExecuted_def
      recordStepDuration_def end_span_def count_back_def Let_def split: option.split sum.split)

lemma helper_store [simp]:
  "the_store (emit ev e) = the_store e" "the_store (recordCompleted t a b st e) = the_store e"
  "the_store (adjustSuspended t d e) = the_store e"
  by (simp_all add: emit_def recordCompleted_def adjustSuspended_def)

lemma on_store_untraced: "on_store f (untraced e) = (fst (on_store f e), untraced (snd (on_store f e)))"
  by (simp add: on_store_def case_prod_unfold Let_def)

lemma nowFunc_untraced: "nowFunc (untraced e) = (fst (nowFunc e), untraced (snd (nowFunc e)))"
  by (simp add: nowFunc_def)

lemma trackStep_untraced: "trackStep n (untraced e) = (fst (trackStep n e), untraced (snd (trackStep n e)))"
  by (simp add: trackStep_def)

lemma lookup_step_untraced: "lookup_step wc n (untraced e) = (fst (lookup_step wc n e), untraced (snd (lookup_step wc n e)))"
  by (simp add: lookup_step_def on_store_untraced case_prod_unfold split: option.split sum.split)

lemma save_result_untraced: "save_result wc n d (untraced e) = (fst (save_result wc n d e), untraced (snd (save_result wc n d e)))"
  by (simp add: save_result_def nowFunc_untraced on_store_untraced case_prod_unfold Let_def)

lemmas untraced_calls = on_store_untraced nowFunc_untraced trackStep_untraced lookup_step_untraced save_result_untraced

lemma observes_cache_miss:
  fixes fn0 :: "('v option go_outcome, 'w) act"
  assumes "observes fn fn0"
  shows "observes (cache_miss_tel tel cd wc n fn) (cache_miss cd wc n fn0)"
  unfolding observes_def
proof
  fix e :: "'w traced env"
  let ?e1 = "snd (startStepSpan tel n False e)"
  have "fn0 (untraced e) = (fst (fn ?e1), untraced (snd (fn ?e1)))"
    using assms [unfolded observes_def, rule_format, of ?e1] by simp
  moreover have "untraced (recordStepDuration tel n (recordStepExecuted tel n False (snd (fn ?e1)))) = untraced (snd (fn ?e1))"
    by simp
  ultimately show "cache_miss cd wc n fn0 (untraced e) =
      (fst (cache_miss_tel tel cd wc n fn e), untraced (snd (cache_miss_tel tel cd wc n fn e)))"
    using save_result_untraced [where e = "end_span (fst (startStepSpan tel n False e)) (panicToError (fst (fn ?e1)))
      (recordStepDuration tel n (recordStepExecuted tel n False (snd (fn ?e1))))"]
    by (auto simp: cache_miss_def cache_miss_tel_def case_prod_unfold Let_def split: sum.split)
qed

lemma observes_Run:
  assumes "observes fn fn0"
  shows "observes (Run_tel tel cd wc name fn) (Run cd wc name fn0)"
  using observes_cache_miss [OF assms, of tel cd wc "resolveStepName wc name", unfolded observes_def]
  unfolding observes_def
  by (simp add: Run_def Run_tel_def untraced_calls case_prod_unfold Let_def split: sum.split option.split)

lemma on_store_same:
  assumes "untraced x = untraced e"
  shows "fst (on_store f x) = fst (on_store f (untraced e))" and "untraced (snd (on_store f x)) = snd (on_store f (untraced e))"
  using on_store_untraced [of f x] assms by simp_all

lemma observes_resolveOutcome: "observes (resolveOutcome_tel tel record p occ r) (resolveOutcome record p occ r)"
  unfolding observes_def resolveOutcome_def resolveOutcome_tel_def Let_def
  by (auto simp: prod_eq_iff nowFunc_untraced on_store_same case_prod_unfold split: sum.split option.split)

text \<open>The entry of an untraced registry whose code the traced one observes.\<close>

definition entry_observes :: "'w traced registryEntry \<Rightarrow> 'w registryEntry \<Rightarrow> bool" where
  "entry_observes entry entry0 \<longleftrightarrow> retryPolicy entry = retryPolicy entry0 \<and>
     (\<forall>wc payload. observes (d_execute (re_def entry) wc payload) (d_execute (re_def entry0) wc payload))"

lemma observesD: "observes A B \<Longrightarrow> B (untraced e) = (fst (A e), untraced (snd (A e)))"
  by (simp add: observes_def)

lemma observes_run_leased:
  fixes entry0 :: "'w registryEntry"
  assumes "entry_observes entry entry0"
  shows "observes (run_leased_tel tel entry record) (run_leased entry0 record)"
  unfolding observes_def
proof
  fix e :: "'w traced env"
  let ?e1 = "adjustActive tel 1 (wr_Type record) (wr_Version record) (snd (startWorkflowSpan tel record e))"
  let ?l = "on_store (ListStepResults (wr_Type record) (wr_Version record) (wr_ID record))"
  let ?e2 = "(snd (?l ?e1))\<lparr>seenSteps := {}\<rparr>"
  let ?e3 = "snd (on_store (GetSignal (wr_ID record)) ?e2)"
  have 1: "?l (untraced e) = (fst (?l ?e1), untraced (snd (?l ?e1)))" using on_store_untraced [of _ ?e1] by simp
  have 2: "on_store (GetSignal (wr_ID record)) ((untraced (snd (?l ?e1)))\<lparr>seenSteps := {}\<rparr>) =
      (fst (on_store (GetSignal (wr_ID record)) ?e2), untraced ?e3)"
    using on_store_untraced [of _ ?e2] by simp
  have run: "d_execute (re_def entry0) wc pl (untraced ?e3) =
      (fst (d_execute (re_def entry) wc pl ?e3), untraced (snd (d_execute (re_def entry) wc pl ?e3)))" for wc pl
    using assms by (simp add: entry_observes_def observes_def)
  have out: "resolveOutcome record (retryPolicy entry0) occ r (untraced e4) =
      (fst (resolveOutcome_tel tel record (retryPolicy entry) occ r
          (end_span i r' (recordDuration tel a b (adjustActive tel d a b e4)))),
       untraced (snd (resolveOutcome_tel tel record (retryPolicy entry) occ r
          (end_span i r' (recordDuration tel a b (adjustActive tel d a b e4))))))"
    for occ r i a b d and r' :: "bytes res" and e4 :: "'w traced env"
    using observesD [OF observes_resolveOutcome, of "record" "retryPolicy entry0" occ r
        "end_span i r' (recordDuration tel a b (adjustActive tel d a b e4))" tel] assms
    by (simp add: entry_observes_def)
  show "run_leased entry0 record (untraced e) = (fst (run_leased_tel tel entry record e), untraced (snd (run_leased_tel tel entry record e)))"
    by (auto simp: run_leased_def run_leased_tel_def case_prod_unfold Let_def 1 2 run out split: sum.split)
qed

text \<open>C19: telemetry does not influence what the engine does: an instrumented execution returns the same error, leaves the
  same leases and the same tables, clock and world as the execution without telemetry, for any registry whose
  code the instrumented registry observes.\<close>

theorem telemetry_only_observes:
  assumes "rel_option entry_observes (reg (wr_Type record)) (reg0 (wr_Type record))"
    and "RunWorkflow_tel tel reg record (ls, e) = (r, ls', e')"
  shows "RunWorkflow reg0 record (ls, untraced e) = (r, ls', untraced e')"
proof (cases "reg (wr_Type record)")
  case None
  with assms show ?thesis by (auto simp: RunWorkflow_def RunWorkflow_tel_def)
next
  case (Some entry)
  with assms(1) obtain entry0 where entry: "reg0 (wr_Type record) = Some entry0" "entry_observes entry entry0"
    by (cases "reg0 (wr_Type record)") auto
  with assms(2) Some observesD [OF observes_run_leased [OF entry(2)], of "record" e tel] show ?thesis
    by (auto simp: RunWorkflow_def RunWorkflow_tel_def Acquire_def Release_def Let_def case_prod_unfold split: if_splits)
qed

subsection \<open>What an execution reports\<close>

abbreviation event_log :: "'w traced env \<Rightarrow> tel_event list" where
  "event_log e \<equiv> snd (world e)"

definition starts :: "tel_event list \<Rightarrow> nat list" where
  "starts evs = List.map_filter (\<lambda>ev. case ev of SpanStarted i n as \<Rightarrow> Some i | _ \<Rightarrow> None) evs"

definition ends :: "tel_event list \<Rightarrow> nat list" where
  "ends evs = List.map_filter (\<lambda>ev. case ev of SpanEnded i \<Rightarrow> Some i | _ \<Rightarrow> None) evs"

definition additions :: "string \<Rightarrow> tel_event list \<Rightarrow> int list" where
  "additions name evs = List.map_filter (\<lambda>ev. case ev of Added n d as \<Rightarrow> if n = name then Some d else None | _ \<Rightarrow> None) evs"

lemma event_lists [simp]:
  "starts [] = []" "ends [] = []" "additions name [] = []"
  "starts (xs @ ys) = starts xs @ starts ys" "ends (xs @ ys) = ends xs @ ends ys"
  "additions name (xs @ ys) = additions name xs @ additions name ys"
  "starts (ev # xs) = (case ev of SpanStarted i n as \<Rightarrow> [i] | _ \<Rightarrow> []) @ starts xs"
  "ends (ev # xs) = (case ev of SpanEnded i \<Rightarrow> [i] | _ \<Rightarrow> []) @ ends xs"
  "additions name (ev # xs) = (case ev of Added n d as \<Rightarrow> if n = name then [d] else [] | _ \<Rightarrow> []) @ additions name xs"
  by (simp_all add: starts_def ends_def additions_def List.map_filter_def split: tel_event.split)

text \<open>What the steps of a workflow report: every span that is started is ended once, and no metric of workflows changes.\<close>

definition step_events :: "telemetry \<Rightarrow> tel_event list \<Rightarrow> bool" where
  "step_events tel evs \<longleftrightarrow> mset (starts evs) = mset (ends evs) \<and> additions (workflowActive tel) evs = [] \<and>
     additions (workflowCompleted tel) evs = [] \<and> additions (workflowSuspended tel) evs = []"

definition reports :: "(tel_event list \<Rightarrow> bool) \<Rightarrow> ('a, 'w traced) act \<Rightarrow> bool" where
  "reports P A \<longleftrightarrow> (\<forall>e. \<exists>evs. event_log (snd (A e)) = event_log e @ evs \<and> P evs)"

definition distinct_instruments :: "telemetry \<Rightarrow> bool" where
  "distinct_instruments tel \<longleftrightarrow> distinct [workflowSubmitted tel, workflowCompleted tel, workflowDuration tel,
     workflowActive tel, workflowSuspended tel, stepExecuted tel, stepDuration tel]"

lemma new_instruments_distinct:
  "distinct_instruments (newTelemetry (Some (NewConventions opts)) hits durations)"
  "distinct_instruments (newTelemetry None hits durations)"
  by (simp_all add: distinct_instruments_def newTelemetry_def NewConventions_def DefaultConventions_def Let_def)

lemma instruments:
  assumes "distinct_instruments tel"
  shows "stepExecuted tel \<noteq> workflowActive tel" "stepExecuted tel \<noteq> workflowCompleted tel"
    "stepExecuted tel \<noteq> workflowSuspended tel" "workflowCompleted tel \<noteq> workflowActive tel"
    "workflowSuspended tel \<noteq> workflowActive tel" "workflowActive tel \<noteq> workflowCompleted tel"
    "workflowActive tel \<noteq> workflowSuspended tel" "workflowSuspended tel \<noteq> workflowCompleted tel"
    "workflowCompleted tel \<noteq> workflowSuspended tel"
  using assms by (auto simp: distinct_instruments_def)

definition end_events :: "nat \<Rightarrow> 'a res \<Rightarrow> tel_event list" where
  "end_events i r =
     (case r of Inl err \<Rightarrow> if IsSuspend err \<noteq> None then [SpanEnded i] else [SpanFailed i (error_text err), SpanEnded i]
      | Inr _ \<Rightarrow> [SpanEnded i])"

lemma end_events_simps [simp]:
  "starts (end_events i r) = []" "ends (end_events i r) = [i]" "additions name (end_events i r) = []"
  by (simp_all add: end_events_def split: sum.split)

lemma log_emit [simp]: "event_log (emit ev e) = event_log e @ [ev]"
  by (simp add: emit_def)

lemma log_spans [simp]:
  "event_log (snd (Start n as e)) = event_log e @ [SpanStarted (fst (Start n as e)) n as]"
  "event_log (span_End i e) = event_log e @ [SpanEnded i]"
  "event_log (endSpanWithError i (Some err) e) = event_log e @ [SpanFailed i (error_text err), SpanEnded i]"
  "event_log (end_span i r e) = event_log e @ end_events i r"
  by (simp_all add: Start_def span_End_def endSpanWithError_def end_span_def end_events_def Let_def split: sum.split)

lemma log_calls [simp]:
  "event_log (snd (on_store f e)) = event_log e" "event_log (snd (nowFunc e)) = event_log e" "event_log (snd (trackStep n e)) = event_log e"
  "event_log (snd (lookup_step wc n e)) = event_log e" "event_log (snd (save_result wc n d e)) = event_log e"
  by (simp_all add: trackStep_def lookup_step_def save_result_def case_prod_unfold Let_def split: option.split sum.split)

lemma step_events_cache_miss:
  fixes fn :: "('v option go_outcome, 'w traced) act"
  assumes "reports (step_events tel) fn" and "distinct_instruments tel"
  shows "reports (step_events tel) (cache_miss_tel tel cd wc n fn)"
  unfolding reports_def
proof
  fix e :: "'w traced env"
  let ?s = "startStepSpan tel n False e"
  obtain evs where evs: "event_log (snd (fn (snd ?s))) = event_log (snd ?s) @ evs" "step_events tel evs"
    using assms(1) [unfolded reports_def, rule_format, of "snd ?s"] by auto
  let ?new = "SpanStarted (fst ?s) (SpanStep (conv tel)) [(StepName (conv tel), StringValue n), (StepCacheHit (conv tel), BoolValue False)] #
    evs @ [Added (stepExecuted tel) 1 [(StepName (conv tel), StringValue n), (StepCacheHit (conv tel), BoolValue False)],
      Recorded (stepDuration tel) (elapsed tel (Suc (length (event_log (snd (fn (snd ?s)))))))
        [(StepName (conv tel), StringValue n)]] @ end_events (fst ?s) (panicToError (fst (fn (snd ?s))))"
  have "event_log (snd (cache_miss_tel tel cd wc n fn e)) = event_log e @ ?new"
    using evs(1)
    by (simp add: cache_miss_tel_def case_prod_unfold Let_def recordStepExecuted_def recordStepDuration_def startStepSpan_def
        split: sum.split)
  moreover have "step_events tel ?new"
    using evs(2) by (simp add: step_events_def instruments [OF assms(2)])
  ultimately show "\<exists>evs. event_log (snd (cache_miss_tel tel cd wc n fn e)) = event_log e @ evs \<and> step_events tel evs" by blast
qed

lemma step_events_Nil [simp]: "step_events tel []"
  by (simp add: step_events_def)

text \<open>A step reports one execution at most, and closes its span whatever its function does.\<close>

lemma step_events_Run:
  fixes fn :: "('v option go_outcome, 'w traced) act"
  assumes "reports (step_events tel) fn" and "distinct_instruments tel"
  shows "reports (step_events tel) (Run_tel tel cd wc name fn)"
  unfolding reports_def
proof
  fix e :: "'w traced env"
  let ?n = "resolveStepName wc name"
  let ?e2 = "snd (on_store (GetSignal (wc_id wc)) (snd (trackStep ?n e)))"
  let ?e3 = "snd (lookup_step wc ?n ?e2)"
  let ?hit = "Added (stepExecuted tel) 1 [(StepName (conv tel), StringValue ?n), (StepCacheHit (conv tel), BoolValue True)]"
  let ?s = "startStepSpan tel ?n True (emit ?hit ?e3)"
  let ?span = "[SpanStarted (fst ?s) (SpanStep (conv tel)) [(StepName (conv tel), StringValue ?n), (StepCacheHit (conv tel), BoolValue True)],
      SpanEnded (fst ?s)]"
  obtain evs where evs: "event_log (snd (cache_miss_tel tel cd wc ?n fn ?e3)) = event_log e @ evs" "step_events tel evs"
    using step_events_cache_miss [OF assms, of cd wc ?n, unfolded reports_def, rule_format, of ?e3] by auto
  have "event_log (snd (Run_tel tel cd wc name fn e)) = event_log e \<or>
      event_log (snd (Run_tel tel cd wc name fn e)) = event_log e @ [?hit] \<or>
      event_log (snd (Run_tel tel cd wc name fn e)) = event_log e @ ?hit # ?span \<or>
      event_log (snd (Run_tel tel cd wc name fn e)) = event_log e @ evs"
    using evs(1)
    by (auto simp: Run_tel_def case_prod_unfold Let_def recordStepExecuted_def startStepSpan_def split: sum.split option.split)
  moreover have "step_events tel [?hit]" "step_events tel (?hit # ?span)"
    by (simp_all add: step_events_def instruments [OF assms(2)])
  ultimately show "\<exists>evs. event_log (snd (Run_tel tel cd wc name fn e)) = event_log e @ evs \<and> step_events tel evs"
    using evs(2) step_events_Nil by (metis append_Nil2)
qed

text \<open>What is reported of an outcome, by the decision it stores.\<close>

fun update_events :: "telemetry \<Rightarrow> WorkflowRecord \<Rightarrow> occ_update \<Rightarrow> tel_event list" where
  "update_events tel record (OccStatus st r) = [Added (workflowCompleted tel) 1
     (wfTypeAttrs tel (wr_Type record) (wr_Version record) @ [(WorkflowStatus (conv tel), StringValue st)])]"
| "update_events tel record (OccError st msg) = [Added (workflowCompleted tel) 1
     (wfTypeAttrs tel (wr_Type record) (wr_Version record) @ [(WorkflowStatus (conv tel), StringValue st)])]"
| "update_events tel record (OccSuspend t) = [Added (workflowSuspended tel) 1 []]"
| "update_events tel record (OccRetry t) = []"

lemma log_resolveOutcome:
  "event_log (snd (resolveOutcome_tel tel record p occ r e)) =
     event_log e @ update_events tel record (decide p (wr_Attempts record) t r)"
  by (auto simp: resolveOutcome_tel_def decide_def recordCompleted_def adjustSuspended_def Let_def case_prod_unfold
      split: sum.split option.split)

lemma update_events_simps [simp]:
  "starts (update_events tel record u) = []" "ends (update_events tel record u) = []"
  by (cases u; simp)+

definition execution_events :: "telemetry \<Rightarrow> tel_event list \<Rightarrow> bool" where
  "execution_events tel evs \<longleftrightarrow> mset (starts evs) = mset (ends evs) \<and> sum_list (additions (workflowActive tel) evs) = 0 \<and>
     additions (workflowCompleted tel) evs \<in> {[], [1]} \<and> additions (workflowSuspended tel) evs \<in> {[], [1]} \<and>
     (additions (workflowCompleted tel) evs = [] \<or> additions (workflowSuspended tel) evs = [])"

lemma update_additions:
  assumes "distinct_instruments tel"
  shows "additions (workflowActive tel) (update_events tel record u) = []"
    and "additions (workflowCompleted tel) (update_events tel record u) =
      (case u of OccStatus st r \<Rightarrow> [1] | OccError st m \<Rightarrow> [1] | _ \<Rightarrow> [])"
    and "additions (workflowSuspended tel) (update_events tel record u) = (case u of OccSuspend t \<Rightarrow> [1] | _ \<Rightarrow> [])"
  using instruments [OF assms] by (cases u; simp)+

text \<open>User code that reports as the steps do.\<close>

definition steps_only :: "telemetry \<Rightarrow> 'w traced registryEntry \<Rightarrow> bool" where
  "steps_only tel entry \<longleftrightarrow> (\<forall>wc payload. reports (step_events tel) (d_execute (re_def entry) wc payload))"

definition on_events :: "telemetry \<Rightarrow> WorkflowRecord \<Rightarrow> 'w traced env \<Rightarrow> tel_event list" where
  "on_events tel record e =
     [SpanStarted (fst (startWorkflowSpan tel record e)) (SpanWorkflowExecute (conv tel))
        [(WorkflowID (conv tel), StringValue (wr_ID record)), (WorkflowType (conv tel), StringValue (wr_Type record)),
         (WorkflowVersion (conv tel), StringValue (wr_Version record)),
         (WorkflowAttempt (conv tel), IntValue (wr_Attempts record))],
      Added (workflowActive tel) 1 (wfTypeAttrs tel (wr_Type record) (wr_Version record))]"

definition off_events :: "telemetry \<Rightarrow> WorkflowRecord \<Rightarrow> nat \<Rightarrow> duration \<Rightarrow> bytes res \<Rightarrow> occ_update \<Rightarrow> tel_event list" where
  "off_events tel record i d r u =
     [Added (workflowActive tel) (- 1) (wfTypeAttrs tel (wr_Type record) (wr_Version record)),
      Recorded (workflowDuration tel) d (wfTypeAttrs tel (wr_Type record) (wr_Version record))] @
     end_events i r @ update_events tel record u"

definition failed_events :: "telemetry \<Rightarrow> WorkflowRecord \<Rightarrow> nat \<Rightarrow> string \<Rightarrow> tel_event list" where
  "failed_events tel record i msg =
     [Added (workflowActive tel) (- 1) (wfTypeAttrs tel (wr_Type record) (wr_Version record)), SpanFailed i msg, SpanEnded i]"

lemma log_leased [simp]:
  "event_log (snd (startWorkflowSpan tel record e)) =
     event_log e @ [SpanStarted (fst (startWorkflowSpan tel record e)) (SpanWorkflowExecute (conv tel))
        [(WorkflowID (conv tel), StringValue (wr_ID record)), (WorkflowType (conv tel), StringValue (wr_Type record)),
         (WorkflowVersion (conv tel), StringValue (wr_Version record)),
         (WorkflowAttempt (conv tel), IntValue (wr_Attempts record))]]"
  "event_log (adjustActive tel d a b e) = event_log e @ [Added (workflowActive tel) d (wfTypeAttrs tel a b)]"
  "event_log (recordDuration tel a b e) =
     event_log e @ [Recorded (workflowDuration tel) (elapsed tel (length (event_log e))) (wfTypeAttrs tel a b)]"
  by (simp_all add: startWorkflowSpan_def adjustActive_def recordDuration_def)

lemma log_tail:
  "event_log (snd (resolveOutcome_tel tel record p occ r (end_span i r
      (recordDuration tel (wr_Type record) (wr_Version record) (adjustActive tel (- 1) (wr_Type record) (wr_Version record) e))))) =
   event_log e @ off_events tel record i (elapsed tel (Suc (length (event_log e)))) r (decide p (wr_Attempts record) zeroTime r)"
  by (simp add: off_events_def log_resolveOutcome [where t = zeroTime])

text \<open>The three ways through an execution: it fails before the user code, it is cancelled before it, or the code runs.\<close>

lemma log_run_leased:
  fixes entry :: "'w traced registryEntry"
  assumes "steps_only tel entry"
  shows "(\<exists>msg. event_log (snd (run_leased_tel tel entry record e)) =
      event_log e @ on_events tel record e @ failed_events tel record (fst (startWorkflowSpan tel record e)) msg) \<or>
    (\<exists>evs d r u. step_events tel evs \<and> event_log (snd (run_leased_tel tel entry record e)) =
      event_log e @ on_events tel record e @ evs @ off_events tel record (fst (startWorkflowSpan tel record e)) d r u)"
proof -
  let ?i = "fst (startWorkflowSpan tel record e)"
  let ?on = "event_log e @ on_events tel record e"
  let ?log = "event_log (snd (run_leased_tel tel entry record e))"
  define e1 where "e1 = adjustActive tel 1 (wr_Type record) (wr_Version record) (snd (startWorkflowSpan tel record e))"
  obtain ls e2 where L: "on_store (ListStepResults (wr_Type record) (wr_Version record) (wr_ID record)) e1 = (ls, e2)" by fastforce
  define e3 where "e3 = e2\<lparr>seenSteps := {}\<rparr>"
  obtain gs e4 where G: "on_store (GetSignal (wr_ID record)) e3 = (gs, e4)" by fastforce
  have e1: "event_log e1 = ?on" by (simp add: e1_def on_events_def)
  then have e2: "event_log e2 = ?on" using log_calls(1) [of _ e1] L by (metis snd_conv)
  then have "event_log e3 = ?on" by (simp add: e3_def)
  then have e4: "event_log e4 = ?on" using log_calls(1) [of _ e3] G by (metis snd_conv)
  note run = run_leased_tel_def case_prod_unfold Let_def e1_def [symmetric] L e3_def [symmetric] G prod.sel
  show ?thesis
  proof (cases "\<exists>steps signal. ls = Inr steps \<and> gs = Inr signal")
    case False
    then have "\<exists>err. ?log = ?on @ failed_events tel record ?i (error_text err)"
      unfolding run by (cases ls; cases gs) (auto simp: e2 e4 failed_events_def)
    then show ?thesis by auto
  next
    case True
    then obtain steps signal where ok: "ls = Inr steps" "gs = Inr signal" by blast
    let ?wc = "new_context record (step_cache steps)"
    obtain evs where evs: "event_log (snd (d_execute (re_def entry) ?wc (wr_Payload record) e4)) = ?on @ evs" "step_events tel evs"
      using assms [unfolded steps_only_def reports_def, rule_format, of ?wc "wr_Payload record" e4] e4 by auto
    have "\<exists>evs d r u. step_events tel evs \<and> ?log = ?on @ evs @ off_events tel record ?i d r u"
    proof (cases "signal = SignalCancelRequested")
      case True
      with ok have "\<exists>d r u. ?log = ?on @ [] @ off_events tel record ?i d r u"
        unfolding run by (auto simp: e4 log_tail simp del: log_spans log_leased)
      then show ?thesis using step_events_Nil by blast
    next
      case False
      with ok evs(1) have "\<exists>d r u. ?log = ?on @ evs @ off_events tel record ?i d r u"
        unfolding run by (auto simp: log_tail simp del: log_spans log_leased)
      with evs(2) show ?thesis by blast
    qed
    then show ?thesis by auto
  qed
qed

lemma execution_events_run_leased:
  fixes entry :: "'w traced registryEntry"
  assumes "steps_only tel entry" and "distinct_instruments tel"
  shows "reports (execution_events tel) (run_leased_tel tel entry record)"
  unfolding reports_def
proof
  fix e :: "'w traced env"
  note names = instruments [OF assms(2)] update_additions [OF assms(2)]
  let ?evs = "\<lambda>rest. on_events tel record e @ rest"
  have "\<exists>rest. event_log (snd (run_leased_tel tel entry record e)) = event_log e @ ?evs rest \<and> execution_events tel (?evs rest)"
    using log_run_leased [OF assms(1), of "record" e]
  proof (elim disjE exE conjE)
    fix msg
    assume log: "event_log (snd (run_leased_tel tel entry record e)) =
      event_log e @ on_events tel record e @ failed_events tel record (fst (startWorkflowSpan tel record e)) msg"
    show ?thesis by (rule exI, rule conjI, rule log) (simp add: execution_events_def on_events_def failed_events_def names)
  next
    fix evs d r u
    assume log: "event_log (snd (run_leased_tel tel entry record e)) =
      event_log e @ on_events tel record e @ evs @ off_events tel record (fst (startWorkflowSpan tel record e)) d r u"
      and evs: "step_events tel evs"
    show ?thesis
      by (rule exI, rule conjI, rule log)
        (use evs in \<open>simp add: execution_events_def on_events_def off_events_def step_events_def names split: occ_update.split\<close>)
  qed
  then show "\<exists>evs. event_log (snd (run_leased_tel tel entry record e)) = event_log e @ evs \<and> execution_events tel evs" by blast
qed

text \<open>C20: what an execution reports is balanced on every path, errors before the user code and panics in it included:
  every span that is started is ended once, the gauge of active workflows goes back to where it was,
  and at most one of the counter of completed workflows and the gauge of suspended ones goes up, by one.\<close>

theorem execution_reports_balance:
  fixes e :: "'w traced env"
  assumes "reg (wr_Type record) = Some entry" and "steps_only tel entry" and "distinct_instruments tel"
    and "RunWorkflow_tel tel reg record (ls, e) = (r, ls', e')"
  shows "\<exists>evs. event_log e' = event_log e @ evs \<and> mset (starts evs) = mset (ends evs) \<and>
    sum_list (additions (workflowActive tel) evs) = 0 \<and>
    additions (workflowCompleted tel) evs @ additions (workflowSuspended tel) evs \<in> {[], [1]}"
proof -
  obtain evs where "event_log (snd (run_leased_tel tel entry record e)) = event_log e @ evs" "execution_events tel evs"
    using execution_events_run_leased [OF assms(2,3), of "record"] unfolding reports_def by blast
  moreover have "event_log e' = event_log e \<or> event_log e' = event_log (snd (run_leased_tel tel entry record e))"
    using assms(1,4) by (auto simp: RunWorkflow_tel_def Acquire_def Release_def Let_def case_prod_unfold split: if_splits)
  ultimately show ?thesis
    by (elim disjE) (auto simp: execution_events_def intro: exI [of _ "[]"] exI [of _ evs])
qed

definition tel1 :: telemetry where
  "tel1 = newTelemetry None True (\<lambda>_. 0)"

definition env1_tel :: "nat traced env" where
  "env1_tel = \<lparr>the_store = store1, seenSteps = {}, engineNow = (\<lambda>_. noon), engineNows = 0,
     engineID = (\<lambda>n. dec_nat n), engineIDs = 0, world = (0, [])\<rparr>"

text \<open>One step that runs a silent function.\<close>

definition demo_tel :: "telemetry \<Rightarrow> (unit, nat, nat traced) WorkflowDef" where
  "demo_tel tel = Define ''count'' ''v1'' (\<lambda>_. Inr ()) (\<lambda>n. Inr (dec_nat n))
     (\<lambda>wc _ e. let (r, e) = Run_tel tel num_codec wc ''count'' (on_world (\<lambda>w. (Returned (Inr (Some 7)), (Suc (fst w), snd w)))) e
       in (Returned (case r of Inl err \<Rightarrow> Inl err | Inr v \<Rightarrow> Inr (case v of None \<Rightarrow> 0 | Some n \<Rightarrow> n)), e))"

definition demo_plain :: "(unit, nat, nat) WorkflowDef" where
  "demo_plain = Define ''count'' ''v1'' (\<lambda>_. Inr ()) (\<lambda>n. Inr (dec_nat n))
     (\<lambda>wc _ e. let (r, e) = Run num_codec wc ''count'' (on_world (\<lambda>w. (Returned (Inr (Some 7)), Suc w))) e
       in (Returned (case r of Inl err \<Rightarrow> Inl err | Inr v \<Rightarrow> Inr (case v of None \<Rightarrow> 0 | Some n \<Rightarrow> n)), e))"

definition entry_tel :: "nat traced registryEntry" where
  "entry_tel = \<lparr>re_def = erase (demo_tel tel1), retryPolicy = DefaultRetryPolicy\<rparr>"

definition entry_plain :: "nat registryEntry" where
  "entry_plain = \<lparr>re_def = erase demo_plain, retryPolicy = DefaultRetryPolicy\<rparr>"

lemma silent_function:
  "reports (step_events tel) (on_world (\<lambda>w. (Returned (Inr (Some (7::nat))), (Suc (fst w), snd w))))"
  "observes (on_world (\<lambda>w. (Returned (Inr (Some (7::nat))), (Suc (fst w), snd w)))) (on_world (\<lambda>w. (Returned (Inr (Some 7)), Suc w)))"
  by (simp_all add: reports_def on_world_def observes_def untraced_def)

lemma steps_only_demo: "steps_only tel1 entry_tel"
proof -
  have "distinct_instruments tel1" unfolding tel1_def by (rule new_instruments_distinct)
  from step_events_Run [OF silent_function(1) this, of num_codec _ "''count''", unfolded reports_def, rule_format]
  show ?thesis
    by (simp add: steps_only_def reports_def entry_tel_def erase_def executeWorkflow_def demo_tel_def Define_def
        case_prod_unfold Let_def split: go_outcome.split sum.split)
qed

theorem execution_reports_balance_witness:
  "\<exists>evs. event_log (snd (snd (RunWorkflow_tel tel1 [''count:v1'' \<mapsto> entry_tel] record1 ({}, env1_tel)))) = evs \<and>
     mset (starts evs) = mset (ends evs) \<and> sum_list (additions ''flicker.workflow.active'' evs) = 0"
proof -
  have distinct: "distinct_instruments tel1" unfolding tel1_def by (rule new_instruments_distinct)
  have name: "workflowActive tel1 = ''flicker.workflow.active''"
    by (simp add: tel1_def newTelemetry_def DefaultConventions_def NewConventions_def Let_def)
  have reg: "[''count:v1'' \<mapsto> entry_tel] (wr_Type record1) = Some entry_tel" by (simp add: record1_def)
  obtain r ls' e' where run: "RunWorkflow_tel tel1 [''count:v1'' \<mapsto> entry_tel] record1 ({}, env1_tel) = (r, ls', e')"
    using prod_cases3 by blast
  show ?thesis
    using execution_reports_balance [OF reg steps_only_demo distinct run] unfolding run name
    by (auto simp: env1_tel_def)
qed

subsection \<open>Where the numbers differ from what happened\<close>

text \<open>The completed counter is raised before the outcome is stored: when the workflow has moved on since the record
  was read, an execution whose user code returned a result is counted as completed although its outcome is
  refused and no table changes.\<close>

theorem refused_outcome_counts_as_completed:
  fixes e :: "'w traced env"
  assumes "no_fault (the_store e)" and "unique_ids (the_store e)"
    and "occ_version (the_store e) (wr_ID record) \<noteq> Some v"
    and "resolveOutcome_tel tel record p v (Inr data) e = (r, e')"
  shows "r = Inl OCCConflictError \<and> tables_of (the_store e') = tables_of (the_store e) \<and>
    event_log e' = event_log e @ [Added (workflowCompleted tel) 1
      (wfTypeAttrs tel (wr_Type record) (wr_Version record) @ [(WorkflowStatus (conv tel), StringValue StatusCompleted)])]"
proof -
  have "resolveOutcome record p v (Inr data) (untraced e) = (r, untraced e')"
    using observesD [OF observes_resolveOutcome, of "record" p v "Inr data" e tel] assms(4) by simp
  then have "on_store (occ_apply (OccStatus StatusCompleted (Some data)) (wr_ID record) v) (untraced e) = (r, untraced e')"
    by (simp add: resolveOutcome_decides decide_def Let_def)
  then have "r = fst (occ_apply (OccStatus StatusCompleted (Some data)) (wr_ID record) v (the_store e))"
    "the_store e' = snd (occ_apply (OccStatus StatusCompleted (Some data)) (wr_ID record) v (the_store e))"
    by (auto simp: on_store_def Let_def case_prod_unfold prod_eq_iff dest: arg_cong [where f = the_store])
  moreover have "event_log e' = event_log e @ update_events tel record (decide p (wr_Attempts record) zeroTime (Inr data))"
    using log_resolveOutcome [of tel "record" p v "Inr data" e zeroTime] assms(4) by simp
  ultimately show ?thesis
    using occ_stale [OF assms(2,1,3), of "OccStatus StatusCompleted (Some data)"] by (simp add: decide_def)
qed

theorem refused_outcome_counts_as_completed_witness:
  "additions ''flicker.workflow.completed''
     (event_log (snd (resolveOutcome_tel tel1 record1 DefaultRetryPolicy 7 (Inr ''1'') env1_tel))) = [1]"
proof -
  obtain r e' where run: "resolveOutcome_tel tel1 record1 DefaultRetryPolicy 7 (Inr ''1'') env1_tel = (r, e')" by fastforce
  have name: "workflowCompleted tel1 = ''flicker.workflow.completed''"
    by (simp add: tel1_def newTelemetry_def DefaultConventions_def NewConventions_def Let_def)
  from refused_outcome_counts_as_completed [OF _ _ _ run] show ?thesis
    unfolding run by (simp add: env1_tel_def unique_ids_def occ_version_def record1_def name)
qed

text \<open>How many workflows the gauge and the table say are suspended.\<close>

definition suspended_gauge :: "telemetry \<Rightarrow> 'w traced env \<Rightarrow> int" where
  "suspended_gauge tel e = sum_list (additions (workflowSuspended tel) (event_log e))"

definition suspended_rows :: "store \<Rightarrow> int" where
  "suspended_rows s = int (length (filter (\<lambda>r. c_status r = StatusSuspended) (workflows s)))"

lemma suspended_wake:
  assumes "distinct (map c_id rows)" and "row_at c_id wid rows = Some r" and "c_status r = StatusSuspended"
  shows "int (length (filter (\<lambda>r. c_status r = StatusSuspended) rows)) =
    int (length (filter (\<lambda>r. c_status r = StatusSuspended) (wake wid t rows))) + 1"
  using assms
proof (induction rows)
  case (Cons x rows)
  show ?case
  proof (cases "c_id x = wid")
    case True
    then have "wake wid t rows = rows"
      using Cons.prems(1) unfolding wake_def sql_update_def snd_conv by (intro map_idI) (force simp: image_iff)
    then have "wake wid t (x # rows) = x\<lparr>c_status := StatusPending, c_retry_after := '''',
        c_occ_version := c_occ_version x + 1, c_updated_at := formatTime t\<rparr> # rows"
      using True Cons.prems by (simp add: wake_def sql_update_def row_at_def)
    with True Cons.prems show ?thesis by (simp add: row_at_def StatusPending_def StatusSuspended_def)
  next
    case False
    then have "wake wid t (x # rows) = x # wake wid t rows" by (simp add: wake_def sql_update_def)
    with Cons False show ?thesis by (simp add: row_at_def)
  qed
qed (simp add: row_at_def)

text \<open>Delivering an event does not take the workflow it wakes off the gauge of suspended workflows, unlike promotion and
  timeouts: after \<open>SendEvent\<close> to a waiting workflow a gauge that was right is one too high.\<close>

theorem send_event_leaves_the_gauge:
  assumes "wf_store (the_store (the_env g))"
    and "row_at k_correlation_key key (subscriptions (the_store (the_env g))) = Some b"
    and "row_at c_id (k_workflow_id b) (workflows (the_store (the_env g))) = Some w" and "c_status w = StatusSuspended"
    and "suspended_gauge tel (the_env g) = suspended_rows (the_store (the_env g))"
    and "SendEvent marshalPayload key payload g = (Inr (), g')"
  shows "suspended_gauge tel (the_env g') = suspended_rows (the_store (the_env g')) + 1"
proof -
  obtain data s' where resumed: "ResumeSubscription key (Some data) (the_store (the_env g)) = (Inr (), s')"
    and g': "the_env g' = (the_env g)\<lparr>the_store := s'\<rparr>"
    using assms(6)
    by (auto simp: SendEvent_def on_env_def on_store_def Let_def case_prod_unfold prod_eq_iff split: sum.splits)
  from ResumeSubscription_ok [OF resumed] assms(2) obtain t'
    where "workflows s' = wake (k_workflow_id b) t' (workflows (the_store (the_env g)))" by auto
  moreover have "distinct (map c_id (workflows (the_store (the_env g))))" using assms(1) by (simp add: wf_store_def)
  ultimately show ?thesis
    using suspended_wake [OF _ assms(3,4)] assms(5) by (simp add: g' suspended_gauge_def suspended_rows_def)
qed

lemma demo_observed: "entry_observes entry_tel entry_plain"
proof -
  note run = observesD [OF observes_Run [OF silent_function(2), of tel1 num_codec _ "''count''"]]
  show ?thesis
    by (simp add: entry_observes_def observes_def entry_tel_def entry_plain_def erase_def executeWorkflow_def demo_tel_def
        demo_plain_def Define_def case_prod_unfold Let_def run split: go_outcome.split sum.split)
qed

theorem telemetry_only_observes_witness:
  "RunWorkflow [''count:v1'' \<mapsto> entry_plain] record1 ({}, env1) =
     (case RunWorkflow_tel tel1 [''count:v1'' \<mapsto> entry_tel] record1 ({}, env1_tel) of (r, ls, e) \<Rightarrow> (r, ls, untraced e))"
proof -
  have env: "untraced env1_tel = env1" by (simp add: untraced_def env1_tel_def env1_def)
  obtain r ls' e' where run: "RunWorkflow_tel tel1 [''count:v1'' \<mapsto> entry_tel] record1 ({}, env1_tel) = (r, ls', e')"
    using prod_cases3 by blast
  show ?thesis
    using telemetry_only_observes [OF _ run, of "[''count:v1'' \<mapsto> entry_plain]"] demo_observed
    unfolding run env by (simp add: record1_def)
qed

definition sub_tel :: sub_row where
  "sub_tel = \<lparr>k_correlation_key = ''k'', k_workflow_id = ''w1'', k_type = ''count:v1'', k_version = ''v1'',
     k_step_name = ''wait'', k_deadline = formatTime noon, k_created_at = formatTime noon\<rparr>"

definition woken_engine :: "nat traced engine" where
  "woken_engine = default_engine 1 (env1_tel\<lparr>the_store := store1\<lparr>workflows := [row1\<lparr>c_status := StatusSuspended\<rparr>],
       subscriptions := [sub_tel]\<rparr>, world := (0, [Added ''flicker.workflow.suspended'' 1 []])\<rparr>)"

lemma sub_tel_fields [simp]: "k_correlation_key sub_tel = ''k''" "k_workflow_id sub_tel = ''w1''"
  by (simp_all add: sub_tel_def)

lemma wf_woken: "wf_store (store1\<lparr>workflows := [row1\<lparr>c_status := StatusSuspended\<rparr>], subscriptions := [sub_tel]\<rparr>)"
  using wf_store1 by (simp add: wf_store_def sub_tel_def wf_workflow_row_def)

lemma woken_delivered: "fst (SendEvent Inr ''k'' ''7'' woken_engine) = Inr ()"
  using ResumeSubscription_known [of "''k''" "store1\<lparr>workflows := [row1\<lparr>c_status := StatusSuspended\<rparr>], subscriptions := [sub_tel]\<rparr>" sub_tel]
  by (simp add: SendEvent_def woken_engine_def default_engine_def on_env_def on_store_def row_at_def no_fault_def Let_def case_prod_unfold split: sum.split)

theorem send_event_leaves_the_gauge_witness:
  "suspended_gauge tel1 (the_env (snd (SendEvent Inr ''k'' ''7'' woken_engine))) =
     suspended_rows (the_store (the_env (snd (SendEvent Inr ''k'' ''7'' woken_engine)))) + 1"
proof -
  have sent: "SendEvent Inr ''k'' ''7'' woken_engine = (Inr (), snd (SendEvent Inr ''k'' ''7'' woken_engine))"
    using woken_delivered by (simp add: prod_eq_iff)
  have name: "workflowSuspended tel1 = ''flicker.workflow.suspended''"
    by (simp add: tel1_def newTelemetry_def DefaultConventions_def NewConventions_def Let_def)
  show ?thesis
    by (rule send_event_leaves_the_gauge [OF _ _ _ _ _ sent, of sub_tel "row1\<lparr>c_status := StatusSuspended\<rparr>"])
      (simp_all add: woken_engine_def default_engine_def wf_woken row_at_def suspended_gauge_def suspended_rows_def name)
qed

subsection \<open>Spans of parallel branches\<close>

text \<open>
  A process that starts with \<open>S\<close> spans to end, and has \<open>Q a\<close> of them left when it returns \<open>a\<close>, whatever
  the other processes do between its actions.
\<close>

inductive owes :: "('a \<Rightarrow> nat multiset) \<Rightarrow> nat multiset \<Rightarrow> ('a, 'w traced) proc \<Rightarrow> bool" for Q where
  returned: "owes Q (Q a) (Ret a)"
| acts: "owes Q S (Act f)" if "\<And>e. \<exists>evs S'. event_log (snd (f e)) = event_log e @ evs \<and>
    S + mset (starts evs) = S' + mset (ends evs) \<and> owes Q S' (fst (f e))"

inductive_simps owes_Ret: "owes Q S (Ret a)"
inductive_cases owes_ActE: "owes Q S (Act f)"

lemma owes_bind:
  assumes "owes R S p" and "\<And>a. owes Q (R a) (k a)"
  shows "owes Q S (bind p k)"
  using assms(1)
proof induction
  case (returned a)
  then show ?case using assms(2) by simp
next
  case (acts f S)
  have "owes Q S (Act (\<lambda>e. map_prod (\<lambda>p. bind p k) id (f e)))"
  proof (rule owes.acts)
    fix e
    from acts obtain evs S' where "event_log (snd (f e)) = event_log e @ evs" "S + mset (starts evs) = S' + mset (ends evs)"
      "owes Q S' (bind (fst (f e)) k)" by blast
    then show "\<exists>evs S'. event_log (snd (map_prod (\<lambda>p. bind p k) id (f e))) = event_log e @ evs \<and>
        S + mset (starts evs) = S' + mset (ends evs) \<and> owes Q S' (fst (map_prod (\<lambda>p. bind p k) id (f e)))"
      by auto
  qed
  then show ?case by simp
qed

text \<open>A process does not end the spans of another one.\<close>

lemma owes_frame:
  assumes "owes Q S p"
  shows "owes (\<lambda>a. Q a + T) (S + T) p"
  using assms
proof induction
  case (returned a)
  show ?case by (rule owes.returned)
next
  case (acts f S)
  show ?case
  proof (rule owes.acts)
    fix e
    from acts obtain evs S' where "event_log (snd (f e)) = event_log e @ evs" "S + mset (starts evs) = S' + mset (ends evs)"
      "owes (\<lambda>a. Q a + T) (S' + T) (fst (f e))" by blast
    then show "\<exists>evs S'. event_log (snd (f e)) = event_log e @ evs \<and>
        S + T + mset (starts evs) = S' + mset (ends evs) \<and> owes (\<lambda>a. Q a + T) S' (fst (f e))"
      by (intro exI [of _ evs] exI [of _ "S' + T"]) (auto simp: ac_simps)
  qed
qed

lemma owes_act:
  assumes "\<And>e. \<exists>evs. event_log (snd (A e)) = event_log e @ evs \<and> S + mset (starts evs) = Q (fst (A e)) + mset (ends evs)"
  shows "owes Q S (act A)"
  unfolding act_def
proof (rule owes.acts)
  fix e
  show "\<exists>evs S'. event_log (snd (let (a, e) = A e in (Ret a, e))) = event_log e @ evs \<and>
      S + mset (starts evs) = S' + mset (ends evs) \<and> owes Q S' (fst (let (a, e) = A e in (Ret a, e)))"
    using assms [of e] owes.returned [of Q "fst (A e)"] by (auto simp: case_prod_unfold Let_def)
qed

definition ends_its_spans :: "'w traced branch \<Rightarrow> bool" where
  "ends_its_spans b \<longleftrightarrow> (\<forall>wc. owes (\<lambda>_. {#}) {#} (b_run b wc))"

lemma owes_branch:
  fixes b :: "'w traced branch"
  assumes "ends_its_spans b"
  shows "owes (\<lambda>_. {#}) {#} (branch_proc_tel tel wc b)"
  unfolding branch_proc_tel_def
proof (rule owes_bind [where R = "\<lambda>span. {#span#}"])
  show "owes (\<lambda>span. {#span#}) {#} (act (startBranchSpan tel (b_name b)) :: (nat, 'w traced) proc)"
    by (rule owes_act) (auto simp: startBranchSpan_def)
  fix span
  show "owes (\<lambda>_. {#}) {#span#} (bind (b_run b (Scope wc (b_name b))) (\<lambda>out. let r = panicToError out in
      bind (act (\<lambda>e. ((), end_span span r e))) (\<lambda>_. Ret r)))"
  proof (rule owes_bind [where R = "\<lambda>_. {#span#}"])
    show "owes (\<lambda>_. {#span#}) {#span#} (b_run b (Scope wc (b_name b)))"
      using owes_frame [of "\<lambda>_. {#}" "{#}" _ "{#span#}"] assms by (auto simp: ends_its_spans_def)
    fix out :: "unit go_outcome"
    show "owes (\<lambda>_. {#}) {#span#} (let r = panicToError out in bind (act (\<lambda>e. ((), end_span span r e))) (\<lambda>_. Ret r))"
      unfolding Let_def
      by (rule owes_bind [where R = "\<lambda>_. {#}"], rule owes_act, auto intro: owes.returned)
  qed
qed

lemma sum_list_replaced:
  fixes xs :: "'a multiset list"
  shows "i < length xs \<Longrightarrow> sum_list (xs[i := x]) + xs ! i = sum_list xs + x"
proof (induction xs arbitrary: i)
  case (Cons y ys)
  then show ?case by (cases i) (auto simp: ac_simps)
qed simp

lemma schedule_owes:
  assumes "fold sched_step sched (ps, e) = (ps', e')" and "list_all2 (owes Q) Ss ps"
  shows "\<exists>evs Ss'. event_log e' = event_log e @ evs \<and> list_all2 (owes Q) Ss' ps' \<and>
    sum_list Ss + mset (starts evs) = sum_list Ss' + mset (ends evs)"
  using assms
proof (induction sched arbitrary: ps e Ss)
  case Nil
  then show ?case by (intro exI [of _ "[]"] exI [of _ Ss]) simp
next
  case (Cons i sched)
  obtain ps1 e1 where step: "sched_step i (ps, e) = (ps1, e1)" by fastforce
  have rest: "fold sched_step sched (ps1, e1) = (ps', e')" using Cons.prems(1) step by simp
  have "\<exists>evs Ss1. event_log e1 = event_log e @ evs \<and> list_all2 (owes Q) Ss1 ps1 \<and>
      sum_list Ss + mset (starts evs) = sum_list Ss1 + mset (ends evs)"
  proof (cases "\<exists>f. i < length ps \<and> ps ! i = Act f")
    case False
    then have "ps1 = ps" "e1 = e" using step by (auto simp: sched_step_def split: proc.splits if_splits)
    then show ?thesis using Cons.prems(2) by (intro exI [of _ "[]"] exI [of _ Ss]) simp
  next
    case True
    then obtain f where f: "i < length ps" "ps ! i = Act f" by blast
    then have eq: "ps1 = ps[i := fst (f e)]" "e1 = snd (f e)" using step by (simp_all add: sched_step_def)
    from f Cons.prems(2) have "owes Q (Ss ! i) (Act f)" and len: "length Ss = length ps"
      by (auto simp: list_all2_conv_all_nth)
    then obtain evs S' where evs: "event_log e1 = event_log e @ evs" "Ss ! i + mset (starts evs) = S' + mset (ends evs)"
      "owes Q S' (fst (f e))" unfolding eq(2) by (blast elim: owes_ActE)
    have sum: "sum_list (Ss[i := S']) + Ss ! i = sum_list Ss + S'" by (rule sum_list_replaced) (use f len in simp)
    have "sum_list Ss + mset (starts evs) + (Ss ! i + S') = sum_list (Ss[i := S']) + mset (ends evs) + (Ss ! i + S')"
    proof -
      have "sum_list Ss + mset (starts evs) + (Ss ! i + S') = sum_list Ss + S' + (Ss ! i + mset (starts evs))" by (simp add: ac_simps)
      also have "\<dots> = sum_list (Ss[i := S']) + Ss ! i + (S' + mset (ends evs))" by (simp only: sum evs(2))
      finally show ?thesis by (simp add: ac_simps)
    qed
    then have "sum_list Ss + mset (starts evs) = sum_list (Ss[i := S']) + mset (ends evs)" by simp
    moreover have "list_all2 (owes Q) (Ss[i := S']) ps1"
      unfolding eq(1) by (rule list_all2_update_cong [OF Cons.prems(2) evs(3)])
    ultimately show ?thesis using evs(1) by blast
  qed
  then obtain evs Ss1 where 1: "event_log e1 = event_log e @ evs" "list_all2 (owes Q) Ss1 ps1"
    "sum_list Ss + mset (starts evs) = sum_list Ss1 + mset (ends evs)" by blast
  from Cons.IH [OF rest 1(2)] obtain evs2 Ss' where 2: "event_log e' = event_log e1 @ evs2" "list_all2 (owes Q) Ss' ps'"
    "sum_list Ss1 + mset (starts evs2) = sum_list Ss' + mset (ends evs2)" by blast
  have "sum_list Ss + mset (starts (evs @ evs2)) = sum_list Ss + mset (starts evs) + mset (starts evs2)" by simp
  also have "\<dots> = sum_list Ss1 + mset (starts evs2) + mset (ends evs)" by (simp only: 1(3)) (simp add: ac_simps)
  also have "\<dots> = sum_list Ss' + mset (ends (evs @ evs2))" by (simp only: 2(3)) (simp add: ac_simps)
  finally show ?case using 1(1) 2(1,2) by (intro exI [of _ "evs @ evs2"] exI [of _ Ss']) simp
qed

text \<open>C21: parallel branches end their spans under every schedule: when all branches have returned, each span that was
  started since, by \<open>Parallel\<close> for a branch or by the steps of a branch, has been ended, whatever the branches
  return and however their actions were interleaved.\<close>

theorem parallel_spans_end:
  fixes e :: "'w traced env"
  assumes "\<And>b. b \<in> set branches \<Longrightarrow> ends_its_spans b" and "Parallel_tel tel wc branches sched e = Some (r, e')"
  shows "\<exists>evs. event_log e' = event_log e @ evs \<and> mset (starts evs) = mset (ends evs)"
proof -
  let ?ps = "map (branch_proc_tel tel wc) branches"
  obtain ps' where run: "fold sched_step sched (?ps, e) = (ps', e')" and "those (map proc_result ps') \<noteq> None"
    using assms(2) by (auto simp: Parallel_tel_def split: prod.splits option.splits)
  then obtain rs where rs: "ps' = map Ret rs" using all_returned by blast
  have "list_all2 (owes (\<lambda>_. {#})) (map (\<lambda>_. {#}) branches) ?ps"
    using assms(1) by (auto simp: list_all2_conv_all_nth intro!: owes_branch)
  from schedule_owes [OF run this] obtain evs Ss where evs: "event_log e' = event_log e @ evs"
    "list_all2 (owes (\<lambda>_. {#})) Ss ps'" "sum_list (map (\<lambda>_. {#}) branches) + mset (starts evs) = sum_list Ss + mset (ends evs)"
    by blast
  have "S = {#}" if "S \<in> set Ss" for S
    using evs(2) that unfolding rs by (auto simp: list_all2_conv_all_nth in_set_conv_nth owes_Ret)
  then have "sum_list Ss = {#}" by (induction Ss) auto
  moreover have "sum_list (map (\<lambda>_. {#}) branches) = ({#} :: nat multiset)" by (induction branches) auto
  ultimately show ?thesis using evs(1,3) by auto
qed

definition branch_tel :: "string \<Rightarrow> nat traced branch" where
  "branch_tel name = \<lparr>b_name = name, b_run = (\<lambda>wc. bind (act (Run_tel tel1 num_codec wc ''count''
     (on_world (\<lambda>w. (Returned (Inr (Some 7)), (Suc (fst w), snd w))))))
     (\<lambda>r. Ret (Returned (map_sum id (\<lambda>_. ()) r))))\<rparr>"

lemma branch_tel_spans: "ends_its_spans (branch_tel name)"
  unfolding ends_its_spans_def
proof
  fix wc
  have distinct: "distinct_instruments tel1" unfolding tel1_def by (rule new_instruments_distinct)
  have "owes (\<lambda>_. {#}) {#} (act (Run_tel tel1 num_codec wc ''count'' (on_world (\<lambda>w. (Returned (Inr (Some 7)), (Suc (fst w), snd w))))))"
    using step_events_Run [OF silent_function(1) distinct, of num_codec wc "''count''"]
    by (intro owes_act) (force simp: reports_def step_events_def)
  then show "owes (\<lambda>_. {#}) {#} (b_run (branch_tel name) wc)"
    unfolding branch_tel_def by (auto intro!: owes_bind [where R = "\<lambda>_. {#}"] owes.returned)
qed

lemma parallel_tel_finishes: "\<exists>sched r e'. Parallel_tel tel wc branches sched e = Some (r, e')"
proof -
  let ?ps = "map (branch_proc_tel tel wc) branches"
  obtain sched where "fold sched_step sched (?ps, e) =
      (map Ret (fst (run_ops (map run_alone ?ps) e)), snd (run_ops (map run_alone ?ps) e))"
    using run_from [of "[]" ?ps e] by auto
  then have "Parallel_tel tel wc branches sched e = Some (join_errors (map err_of (fst (run_ops (map run_alone ?ps) e))),
      snd (run_ops (map run_alone ?ps) e))"
    unfolding Parallel_tel_def by (simp only: those_results prod.case option.case)
  then show ?thesis by blast
qed

theorem parallel_spans_end_witness:
  "\<exists>sched r e'. Parallel_tel tel1 wctx1 [branch_tel ''a'', branch_tel ''b''] sched env1_tel = Some (r, e') \<and>
     mset (starts (event_log e')) = mset (ends (event_log e'))"
proof -
  obtain sched r e' where run: "Parallel_tel tel1 wctx1 [branch_tel ''a'', branch_tel ''b''] sched env1_tel = Some (r, e')"
    using parallel_tel_finishes by blast
  from parallel_spans_end [OF _ run] branch_tel_spans show ?thesis
    using run by (fastforce simp: env1_tel_def)
qed

end
