(* ===== verification/Lifecycle.thy ===== *)
theory Lifecycle
  imports System
begin

section \<open>The life of an engine\<close>

text \<open>
  \<open>Engine.Start\<close> of \<^verbatim>\<open>engine.go\<close> from its call to its return, as a step relation that adds to the
  running system what \<open>Start\<close> keeps: the buffered channel \<open>nudge\<close>, the phase of the scheduler with
  the records it has listed and not handed to the pool yet, the wait group, the drain timer and the
  context of the executions. \<open>asked\<close> is no state of the code: it tells that \<open>ready\<close> was called since
  the last poll began. Go's \<open>select\<close> takes any case that is ready, so a tick may still win after the
  context was cancelled. A record is handed over after \<open>wg.Add\<close>, and \<open>wg.Done\<close> runs when its
  execution has returned, whatever it returned. Two rules allow more than the code does: \<open>unknown\<close> drops any
  queued record, where the runner drops those of a type that is not registered, and \<open>abandon\<close> ends any execution
  without an update, where the code does so on its error paths. What is shown of all states or of all
  runs therefore holds of those of the code.
\<close>

datatype phase = Selecting | Dispatching "WorkflowRecord list" | Returned_nil

datatype timer = Unarmed | Armed | Fired | Stopped

record lifecycle =
  core :: sys
  nudge :: bool
  cancelled :: bool
  scheduler :: phase
  wg :: nat
  drainTimer :: timer
  drainCancelled :: bool
  poolStopped :: bool
  outcome :: "unit res option"
  asked :: bool

definition life_init :: "store \<Rightarrow> lifecycle" where
  "life_init s = \<lparr>core = sys_init s, nudge = False, cancelled = False, scheduler = Selecting, wg = 0,
     drainTimer = Unarmed, drainCancelled = False, poolStopped = False, outcome = None, asked = False\<rparr>"

text \<open>A poll hands what it listed to \<open>dispatch\<close>.\<close>

definition begin_poll :: "int \<Rightarrow> lifecycle \<Rightarrow> lifecycle" where
  "begin_poll limit x =
     (let (records, s) = poll limit (db (core x)) in
      x\<lparr>core := (core x)\<lparr>db := s\<rparr>, scheduler := (if records = [] then Selecting else Dispatching records), asked := False\<rparr>)"

text \<open>The loop of \<open>dispatch\<close> for one record.\<close>

definition dispatch :: "WorkflowRecord \<Rightarrow> WorkflowRecord list \<Rightarrow> lifecycle \<Rightarrow> lifecycle" where
  "dispatch record rest x =
     x\<lparr>wg := wg x + 1, core := (core x)\<lparr>queue := queue (core x) @ [record]\<rparr>,
       scheduler := (if rest = [] then Selecting else Dispatching rest)\<rparr>"

definition done_one :: "lifecycle \<Rightarrow> lifecycle" where
  "done_one x = x\<lparr>wg := wg x - 1\<rparr>"

text \<open>The end of \<open>Start\<close> after \<open>wg.Wait()\<close>, with its deferred \<open>drainCancel\<close>.\<close>

definition finish_start :: "lifecycle \<Rightarrow> lifecycle" where
  "finish_start x = x\<lparr>drainTimer := (if drainTimer x = Armed then Stopped else drainTimer x), poolStopped := True,
     outcome := Some (Inr ()), drainCancelled := True\<rparr>"

inductive life_step :: "lifecycle \<Rightarrow> lifecycle \<Rightarrow> bool" where
  ready: "life_step x (x\<lparr>nudge := True, asked := True\<rparr>)"
| cancel: "life_step x (x\<lparr>cancelled := True\<rparr>)"
| client: "outside_call c \<Longrightarrow> call_ok c \<Longrightarrow> life_step x (x\<lparr>core := (core x)\<lparr>db := exec_call c (db (core x))\<rparr>\<rparr>)"
| tick: "scheduler x = Selecting \<Longrightarrow> outcome x = None \<Longrightarrow> life_step x (begin_poll limit x)"
| nudged: "scheduler x = Selecting \<Longrightarrow> outcome x = None \<Longrightarrow> nudge x \<Longrightarrow>
    life_step x (begin_poll limit (x\<lparr>nudge := False\<rparr>))"
| handed: "scheduler x = Dispatching (record # rest) \<Longrightarrow> life_step x (dispatch record rest x)"
| start: "queue (core x) = q1 @ record # q2 \<Longrightarrow> Acquire (wr_ID record) (held (core x)) = (Inr True, l) \<Longrightarrow>
    life_step x (x\<lparr>core := (core x)\<lparr>queue := q1 @ q2, held := l, running := running (core x) @ [record]\<rparr>\<rparr>)"
| skip: "queue (core x) = q1 @ record # q2 \<Longrightarrow> Acquire (wr_ID record) (held (core x)) = (Inr False, l) \<Longrightarrow>
    life_step x (done_one (x\<lparr>core := (core x)\<lparr>queue := q1 @ q2, held := l\<rparr>\<rparr>))"
| unknown: "queue (core x) = q1 @ record # q2 \<Longrightarrow> life_step x (done_one (x\<lparr>core := (core x)\<lparr>queue := q1 @ q2\<rparr>\<rparr>))"
| body: "record \<in> set (running (core x)) \<Longrightarrow> body_call record c \<Longrightarrow> call_ok c \<Longrightarrow>
    life_step x (x\<lparr>core := (core x)\<lparr>db := exec_call c (db (core x))\<rparr>\<rparr>)"
| finish: "running (core x) = r1 @ record # r2 \<Longrightarrow> u = decide p (wr_Attempts record) t answer \<Longrightarrow> occ_time_ok u \<Longrightarrow>
    life_step x (done_one (x\<lparr>core := (core x)\<lparr>db := snd (occ_apply u (wr_ID record) (wr_OCCVersion record) (db (core x))),
      held := snd (Release (wr_ID record) (held (core x))), running := r1 @ r2\<rparr>\<rparr>))"
| abandon: "running (core x) = r1 @ record # r2 \<Longrightarrow>
    life_step x (done_one (x\<lparr>core := (core x)\<lparr>held := snd (Release (wr_ID record) (held (core x))), running := r1 @ r2\<rparr>\<rparr>))"
| scheduler_ends: "scheduler x = Selecting \<Longrightarrow> outcome x = None \<Longrightarrow> cancelled x \<Longrightarrow>
    life_step x (x\<lparr>scheduler := Returned_nil, drainTimer := Armed\<rparr>)"
| scheduler_fails: "scheduler x = Selecting \<Longrightarrow> outcome x = None \<Longrightarrow>
    life_step x (x\<lparr>outcome := Some (Inl (WrapError ''scheduler'' err)), drainCancelled := True\<rparr>)"
| timer_fires: "drainTimer x = Armed \<Longrightarrow> life_step x (x\<lparr>drainTimer := Fired, drainCancelled := True\<rparr>)"
| waited: "scheduler x = Returned_nil \<Longrightarrow> outcome x = None \<Longrightarrow> wg x = 0 \<Longrightarrow> life_step x (finish_start x)"

subsection \<open>What a life refines\<close>

text \<open>The records on their way from the scheduler to the pool count as queued.\<close>

fun handing :: "phase \<Rightarrow> WorkflowRecord list" where
  "handing (Dispatching records) = records"
| "handing _ = []"

definition seen_as :: "lifecycle \<Rightarrow> sys" where
  "seen_as x = (core x)\<lparr>queue := queue (core x) @ handing (scheduler x)\<rparr>"

definition life_inv :: "lifecycle \<Rightarrow> bool" where
  "life_inv x \<longleftrightarrow> wg x = length (queue (core x)) + length (running (core x)) \<and>
     (asked x \<longrightarrow> nudge x) \<and>
     (drainCancelled x \<longrightarrow> drainTimer x = Fired \<or> outcome x \<noteq> None) \<and> scheduler x \<noteq> Dispatching [] \<and>
     (drainTimer x = Unarmed \<longleftrightarrow> scheduler x \<noteq> Returned_nil) \<and>
     (scheduler x = Returned_nil \<longrightarrow> cancelled x) \<and>
     (outcome x = Some (Inr ()) \<longrightarrow> scheduler x = Returned_nil \<and> wg x = 0 \<and> poolStopped x)"

lemma life_inv_init: "life_inv (life_init s)"
  by (simp add: life_inv_def life_init_def sys_init_def)

lemma life_inv_step:
  assumes "life_step x y" and "life_inv x"
  shows "life_inv y"
  using assms
  by cases (auto simp: life_inv_def begin_poll_def dispatch_def done_one_def finish_start_def Let_def case_prod_unfold)

lemma life_steps_inv: "life_step\<^sup>*\<^sup>* (life_init s) x \<Longrightarrow> life_inv x"
  by (induction rule: rtranclp_induct) (auto intro: life_inv_init life_inv_step)

lemma seen_as_simps [simp]:
  "db (seen_as x) = db (core x)" "held (seen_as x) = held (core x)" "running (seen_as x) = running (core x)"
  "queue (seen_as x) = queue (core x) @ handing (scheduler x)"
  by (simp_all add: seen_as_def)

lemma polled_step:
  assumes "scheduler x = Selecting"
  shows "sys_step (seen_as x) (seen_as (begin_poll limit x))"
proof -
  obtain rs s where p: "poll limit (db (seen_as x)) = (rs, s)" by fastforce
  have "seen_as (begin_poll limit x) = (seen_as x)\<lparr>db := s, queue := queue (seen_as x) @ rs\<rparr>"
    using p assms by (auto simp: begin_poll_def seen_as_def Let_def)
  with sys_step.polled [OF p] show ?thesis by simp
qed

text \<open>A record that is taken from the queue and not executed: its lease is held, or nobody sees that it was taken.\<close>

lemma dropped_steps:
  assumes "queue (core x) = q1 @ rc # q2"
  shows "sys_step\<^sup>*\<^sup>* (seen_as x) (seen_as (done_one (x\<lparr>core := (core x)\<lparr>queue := q1 @ q2\<rparr>\<rparr>)))"
proof -
  have q: "queue (seen_as x) = q1 @ rc # (q2 @ handing (scheduler x))" using assms by simp
  let ?y = "(seen_as x)\<lparr>queue := q1 @ q2 @ handing (scheduler x)\<rparr>"
  have y: "seen_as (done_one (x\<lparr>core := (core x)\<lparr>queue := q1 @ q2\<rparr>\<rparr>)) = ?y"
    by (simp add: seen_as_def done_one_def)
  show ?thesis
  proof (cases "wr_ID rc \<in> held (core x)")
    case True
    then have "Acquire (wr_ID rc) (held (seen_as x)) = (Inr False, held (core x))" by (simp add: Acquire_def)
    from sys_step.skip [OF q this] have "sys_step (seen_as x) ?y" by (simp add: seen_as_def)
    with y show ?thesis by simp
  next
    case False
    let ?l = "insert (wr_ID rc) (held (core x))"
    let ?z = "(seen_as x)\<lparr>queue := q1 @ q2 @ handing (scheduler x), held := ?l, running := running (seen_as x) @ [rc]\<rparr>"
    from False have "Acquire (wr_ID rc) (held (seen_as x)) = (Inr True, ?l)" by (simp add: Acquire_def)
    from sys_step.start [OF q this] have 1: "sys_step (seen_as x) ?z" by simp
    have "sys_step ?z (?z\<lparr>held := snd (Release (wr_ID rc) (held ?z)), running := running (seen_as x) @ []\<rparr>)"
      by (rule sys_step.abandon) simp
    also have "?z\<lparr>held := snd (Release (wr_ID rc) (held ?z)), running := running (seen_as x) @ []\<rparr> = ?y"
      using False by (simp add: seen_as_def Release_def)
    finally show ?thesis unfolding y using 1 by (rule converse_rtranclp_into_rtranclp [rotated, OF r_into_rtranclp])
  qed
qed

lemma life_step_refines:
  assumes "life_step x y"
  shows "sys_step\<^sup>*\<^sup>* (seen_as x) (seen_as y)"
  using assms
proof cases
  case (client c)
  then have "seen_as y = (seen_as x)\<lparr>db := exec_call c (db (seen_as x))\<rparr>" by (simp add: seen_as_def)
  with sys_step.client [OF client(2,3), of "seen_as x"] show ?thesis by auto
next
  case (tick limit)
  then show ?thesis using polled_step [of x limit] by auto
next
  case (nudged limit)
  then have "seen_as (x\<lparr>nudge := False\<rparr>) = seen_as x" by (simp add: seen_as_def)
  with nudged polled_step [of "x\<lparr>nudge := False\<rparr>" limit] show ?thesis by auto
next
  case (handed rc rest)
  then have "seen_as y = seen_as x" by (auto simp: seen_as_def dispatch_def)
  then show ?thesis by simp
next
  case (start q1 rc q2 l)
  have "sys_step (seen_as x) ((seen_as x)\<lparr>queue := q1 @ q2 @ handing (scheduler x), held := l, running := running (seen_as x) @ [rc]\<rparr>)"
    by (rule sys_step.start) (use start in simp_all)
  moreover have "seen_as y = (seen_as x)\<lparr>queue := q1 @ q2 @ handing (scheduler x), held := l, running := running (seen_as x) @ [rc]\<rparr>"
    using start by (simp add: seen_as_def)
  ultimately show ?thesis by auto
next
  case (skip q1 rc q2 l)
  have "l = held (core x)" using skip(3) by (simp add: Acquire_def split: if_splits)
  with skip dropped_steps [OF skip(2)] show ?thesis by (simp add: seen_as_def done_one_def)
next
  case (unknown q1 rc q2)
  with dropped_steps [OF unknown(2)] show ?thesis by simp
next
  case (body rc c)
  then have "seen_as y = (seen_as x)\<lparr>db := exec_call c (db (seen_as x))\<rparr>" by (simp add: seen_as_def)
  with sys_step.body [of rc "seen_as x" c] body(2-4) show ?thesis by auto
next
  case (finish r1 rc r2 u p t answer)
  have "sys_step (seen_as x) ((seen_as x)\<lparr>db := snd (occ_apply u (wr_ID rc) (wr_OCCVersion rc) (db (seen_as x))),
      held := snd (Release (wr_ID rc) (held (seen_as x))), running := r1 @ r2\<rparr>)"
    by (rule sys_step.finish [OF _ finish(3,4)]) (use finish in simp)
  moreover have "seen_as y = (seen_as x)\<lparr>db := snd (occ_apply u (wr_ID rc) (wr_OCCVersion rc) (db (seen_as x))),
      held := snd (Release (wr_ID rc) (held (seen_as x))), running := r1 @ r2\<rparr>"
    using finish by (simp add: seen_as_def done_one_def)
  ultimately show ?thesis by auto
next
  case (abandon r1 rc r2)
  have "sys_step (seen_as x) ((seen_as x)\<lparr>held := snd (Release (wr_ID rc) (held (seen_as x))), running := r1 @ r2\<rparr>)"
    by (rule sys_step.abandon) (use abandon in simp)
  moreover have "seen_as y = (seen_as x)\<lparr>held := snd (Release (wr_ID rc) (held (seen_as x))), running := r1 @ r2\<rparr>"
    using abandon by (simp add: seen_as_def done_one_def)
  ultimately show ?thesis by auto
qed (auto simp: seen_as_def finish_start_def)

lemma life_steps_refine: "life_step\<^sup>*\<^sup>* x y \<Longrightarrow> sys_step\<^sup>*\<^sup>* (seen_as x) (seen_as y)"
  by (induction rule: rtranclp_induct) (auto intro: rtranclp_trans life_step_refines)

lemma seen_as_init: "seen_as (life_init s) = sys_init s"
  by (simp add: seen_as_def life_init_def sys_init_def)

text \<open>So every life keeps what the running system keeps.\<close>

lemma life_steps_sys:
  assumes "wf_store s" and "life_step\<^sup>*\<^sup>* (life_init s) x"
  shows "sys_inv (seen_as x)"
  using sys_steps [OF life_steps_refine [OF assms(2), unfolded seen_as_init] sys_init_inv [OF assms(1)]] by simp

subsection \<open>Shutting down\<close>

text \<open>
  A whole life is the endless sequence of its states, each made from the one before by a step or equal
  to it. That \<open>Start\<close> returns depends on what Go and the workflows do, which these predicates name. Goroutines are not
  left waiting for ever: the loop over the listed records goes on; a \<open>select\<close> that finds the context
  cancelled again and again takes that case some time; the drain timeout passes; and \<open>wg.Wait()\<close>
  returns once the count is zero. The workers of the pool take every queued record some time. An
  execution returns some time after its context was cancelled; before that, it may run for ever.
\<close>

definition life_run :: "store \<Rightarrow> (nat \<Rightarrow> lifecycle) \<Rightarrow> bool" where
  "life_run s \<sigma> \<longleftrightarrow> \<sigma> 0 = life_init s \<and> (\<forall>i. life_step (\<sigma> i) (\<sigma> (Suc i)) \<or> \<sigma> (Suc i) = \<sigma> i)"

definition goroutines_move :: "(nat \<Rightarrow> lifecycle) \<Rightarrow> bool" where
  "goroutines_move \<sigma> \<longleftrightarrow>
     (\<forall>i. handing (scheduler (\<sigma> i)) \<noteq> [] \<longrightarrow> (\<exists>j\<ge>i. scheduler (\<sigma> j) \<noteq> scheduler (\<sigma> i))) \<and>
     ((\<forall>i. \<exists>j\<ge>i. scheduler (\<sigma> j) = Selecting \<and> cancelled (\<sigma> j)) \<longrightarrow> (\<exists>j. scheduler (\<sigma> j) = Returned_nil)) \<and>
     (\<forall>i. drainTimer (\<sigma> i) = Armed \<longrightarrow> (\<exists>j\<ge>i. drainTimer (\<sigma> j) \<noteq> Armed)) \<and>
     (\<forall>i. scheduler (\<sigma> i) = Returned_nil \<and> wg (\<sigma> i) = 0 \<longrightarrow> (\<exists>j\<ge>i. outcome (\<sigma> j) \<noteq> None))"

definition workers_take :: "(nat \<Rightarrow> lifecycle) \<Rightarrow> bool" where
  "workers_take \<sigma> \<longleftrightarrow> (\<forall>i. scheduler (\<sigma> i) = Returned_nil \<longrightarrow>
     (\<forall>record \<in> set (queue (core (\<sigma> i))). \<exists>j\<ge>i. record \<notin> set (queue (core (\<sigma> j)))))"

definition executions_heed_cancellation :: "(nat \<Rightarrow> lifecycle) \<Rightarrow> bool" where
  "executions_heed_cancellation \<sigma> \<longleftrightarrow> (\<forall>i. drainCancelled (\<sigma> i) \<longrightarrow>
     (\<forall>record \<in> set (running (core (\<sigma> i))). \<exists>j\<ge>i. record \<notin> set (running (core (\<sigma> j)))))"

lemma run_keeps:
  assumes "life_run s \<sigma>" and "i \<le> j" and "P (\<sigma> i)" and "\<And>x y. life_step x y \<Longrightarrow> P x \<Longrightarrow> P y"
  shows "P (\<sigma> j)"
  using assms(2)
proof (induction rule: dec_induct)
  case (step k)
  then show ?case using assms(1,4) by (metis life_run_def)
qed (use assms(3) in simp)

text \<open>The drain timer cancels the executions, and nothing stops it before \<open>Start\<close> returns.\<close>

definition timer_inv :: "lifecycle \<Rightarrow> bool" where
  "timer_inv x \<longleftrightarrow> (drainTimer x = Fired \<longrightarrow> drainCancelled x) \<and> (drainTimer x = Stopped \<longrightarrow> outcome x \<noteq> None)"

lemma run_inv:
  assumes "life_run s \<sigma>"
  shows "life_inv (\<sigma> i)" and "timer_inv (\<sigma> i)"
proof -
  have "\<sigma> 0 = life_init s" using assms by (simp add: life_run_def)
  then have 0: "life_inv (\<sigma> 0)" "timer_inv (\<sigma> 0)" by (simp_all add: life_inv_init) (simp add: timer_inv_def life_init_def)
  from assms le0 0(1) show "life_inv (\<sigma> i)" by (rule run_keeps) (rule life_inv_step)
  have "timer_inv y" if "life_step x y" "timer_inv x" for x y
    using that by cases (auto simp: timer_inv_def begin_poll_def dispatch_def done_one_def finish_start_def Let_def case_prod_unfold)
  with assms le0 0(2) show "timer_inv (\<sigma> i)" by (rule run_keeps)
qed

lemma cancelled_stays:
  assumes "life_run s \<sigma>" and "i \<le> j"
  shows "cancelled (\<sigma> i) \<Longrightarrow> cancelled (\<sigma> j)" and "drainCancelled (\<sigma> i) \<Longrightarrow> drainCancelled (\<sigma> j)"
  by (erule run_keeps [OF assms, of cancelled] run_keeps [OF assms, of drainCancelled], erule life_step.cases,
    auto simp: begin_poll_def dispatch_def done_one_def finish_start_def Let_def case_prod_unfold)+

text \<open>The scheduler gets through what it has listed.\<close>

lemma handing_shrinks:
  assumes "life_step x y" and "scheduler x = Dispatching (rc # rest)" and "scheduler y \<noteq> scheduler x"
  shows "scheduler y = (if rest = [] then Selecting else Dispatching rest)"
  using assms by cases (auto simp: begin_poll_def dispatch_def done_one_def finish_start_def Let_def case_prod_unfold)

lemma gets_through:
  assumes "life_run s \<sigma>" and "goroutines_move \<sigma>"
  shows "\<exists>j\<ge>i. handing (scheduler (\<sigma> j)) = []"
proof (induction "length (handing (scheduler (\<sigma> i)))" arbitrary: i rule: less_induct)
  case less
  show ?case
  proof (cases "handing (scheduler (\<sigma> i))")
    case (Cons rc rest)
    then have here: "scheduler (\<sigma> i) = Dispatching (rc # rest)" by (cases "scheduler (\<sigma> i)") simp_all
    define k where "k = (LEAST k. scheduler (\<sigma> (i + k)) \<noteq> scheduler (\<sigma> i))"
    have "\<exists>k. scheduler (\<sigma> (i + k)) \<noteq> scheduler (\<sigma> i)"
      using assms(2) Cons unfolding goroutines_move_def by (metis le_add_diff_inverse list.distinct(1))
    then have k: "scheduler (\<sigma> (i + k)) \<noteq> scheduler (\<sigma> i)" and least: "\<And>m. m < k \<Longrightarrow> scheduler (\<sigma> (i + m)) = scheduler (\<sigma> i)"
      unfolding k_def by (rule LeastI_ex) (use not_less_Least in blast)
    from k obtain m where m: "k = Suc m" by (cases k) simp_all
    have "life_step (\<sigma> (i + m)) (\<sigma> (i + k))"
      using assms(1) k least [of m] unfolding m life_run_def by (metis add_Suc_right lessI)
    from handing_shrinks [OF this, of rc rest] here k least [of m] m
    have "length (handing (scheduler (\<sigma> (i + k)))) < length (handing (scheduler (\<sigma> i)))" by (simp add: Cons)
    from less.hyps [OF this] show ?thesis by (meson le_add1 le_trans)
  qed auto
qed

text \<open>After the scheduler has returned nothing is added to the queue, and every step that touches the work reduces it.\<close>

definition left :: "lifecycle \<Rightarrow> nat" where
  "left x = 2 * length (queue (core x)) + length (running (core x))"

definition same_work :: "lifecycle \<Rightarrow> lifecycle \<Rightarrow> bool" where
  "same_work x y \<longleftrightarrow> queue (core y) = queue (core x) \<and> running (core y) = running (core x)"

lemma ended_step:
  assumes "life_step x y" and "scheduler x = Returned_nil"
  shows "scheduler y = Returned_nil \<and> (left y < left x \<or> same_work x y)"
  using assms
  by cases (auto simp: left_def same_work_def begin_poll_def dispatch_def done_one_def finish_start_def Let_def case_prod_unfold)

lemma ended_run:
  assumes "life_run s \<sigma>" and "i \<le> j" and "scheduler (\<sigma> i) = Returned_nil"
  shows "scheduler (\<sigma> j) = Returned_nil \<and> (left (\<sigma> j) < left (\<sigma> i) \<or> same_work (\<sigma> i) (\<sigma> j))"
  using assms(1,2)
proof (rule run_keeps)
  show "scheduler y = Returned_nil \<and> (left y < left (\<sigma> i) \<or> same_work (\<sigma> i) y)"
    if "life_step x y" "scheduler x = Returned_nil \<and> (left x < left (\<sigma> i) \<or> same_work (\<sigma> i) x)" for x y
    using ended_step [OF that(1)] that(2) by (auto simp: left_def same_work_def)
qed (use assms(3) in \<open>simp add: same_work_def\<close>)

lemma work_ends:
  assumes "life_run s \<sigma>" and "workers_take \<sigma>" and "executions_heed_cancellation \<sigma>"
    and "scheduler (\<sigma> i) = Returned_nil" and "drainCancelled (\<sigma> i)"
  shows "\<exists>j\<ge>i. wg (\<sigma> j) = 0"
  using assms(4,5)
proof (induction "left (\<sigma> i)" arbitrary: i rule: less_induct)
  case less
  show ?case
  proof (cases "left (\<sigma> i) = 0")
    case True
    with run_inv(1) [OF assms(1), of i] show ?thesis by (auto simp: life_inv_def left_def)
  next
    case False
    then consider rc where "rc \<in> set (queue (core (\<sigma> i)))" | rc where "rc \<in> set (running (core (\<sigma> i)))"
      by (auto simp: left_def) (metis length_0_conv list.set_intros(1) neq_Nil_conv zero_less_iff_neq_zero)+
    then obtain j where j: "j \<ge> i" "\<not> same_work (\<sigma> i) (\<sigma> j)"
      using assms(2,3) less.prems unfolding workers_take_def executions_heed_cancellation_def same_work_def by cases metis+
    with ended_run [OF assms(1) j(1) less.prems(1)] have "left (\<sigma> j) < left (\<sigma> i)" "scheduler (\<sigma> j) = Returned_nil" by auto
    moreover have "drainCancelled (\<sigma> j)" using assms(1) j(1) less.prems(2) by (rule cancelled_stays(2))
    ultimately show ?thesis using less.hyps j(1) by (meson le_trans)
  qed
qed

lemma scheduler_returns:
  assumes "life_run s \<sigma>" and "goroutines_move \<sigma>" and "cancelled (\<sigma> i)"
  shows "\<exists>j. scheduler (\<sigma> j) = Returned_nil"
proof (rule ccontr)
  assume never: "\<nexists>j. scheduler (\<sigma> j) = Returned_nil"
  have "\<exists>j\<ge>k. scheduler (\<sigma> j) = Selecting \<and> cancelled (\<sigma> j)" for k
  proof -
    obtain j where j: "j \<ge> max i k" "handing (scheduler (\<sigma> j)) = []" using gets_through [OF assms(1,2)] by blast
    have "cancelled (\<sigma> j)" by (rule cancelled_stays(1) [OF assms(1) _ assms(3)]) (use j(1) in simp)
    moreover have "scheduler (\<sigma> j) = Selecting"
      using j(2) never run_inv(1) [OF assms(1), of j] by (cases "scheduler (\<sigma> j)") (auto simp: life_inv_def)
    ultimately show ?thesis using j(1) by auto
  qed
  with assms(2) never show False unfolding goroutines_move_def by blast
qed

lemma outcome_set:
  assumes "life_run s \<sigma>" and "goroutines_move \<sigma>" and "workers_take \<sigma>" and "executions_heed_cancellation \<sigma>"
    and "cancelled (\<sigma> i)"
  shows "\<exists>j. outcome (\<sigma> j) \<noteq> None"
proof (rule ccontr)
  assume none: "\<nexists>j. outcome (\<sigma> j) \<noteq> None"
  obtain k where k: "scheduler (\<sigma> k) = Returned_nil" using scheduler_returns [OF assms(1,2,5)] by blast
  obtain m where m: "m \<ge> k" "drainTimer (\<sigma> m) \<noteq> Armed" using assms(2) unfolding goroutines_move_def by blast
  have ended: "scheduler (\<sigma> j) = Returned_nil" if "j \<ge> k" for j using ended_run [OF assms(1) that k] by simp
  have "drainTimer (\<sigma> m) = Fired"
    using m(2) ended [OF m(1)] none run_inv [OF assms(1), of m] by (cases "drainTimer (\<sigma> m)") (auto simp: life_inv_def timer_inv_def)
  then have "drainCancelled (\<sigma> m)" using run_inv(2) [OF assms(1), of m] by (simp add: timer_inv_def)
  from work_ends [OF assms(1,3,4) ended [OF m(1)] this] obtain j where j: "j \<ge> m" "wg (\<sigma> j) = 0" by blast
  with ended [of j] m(1) have "scheduler (\<sigma> j) = Returned_nil" by simp
  with j assms(2) none show False unfolding goroutines_move_def by blast
qed

end
