(* ===== verification/Construction.thy ===== *)
theory Construction
  imports Telemetry
begin

section \<open>The construction of an engine\<close>

text \<open>
  The options and \<open>NewEngine\<close> of \<^verbatim>\<open>engine.go\<close>, the pool of \<^verbatim>\<open>pool.go\<close>, and the loops of
  \<^verbatim>\<open>scheduler.go\<close> and \<^verbatim>\<open>promoter.go\<close>. An option is a function on the fields it may set. What a caller
  hands in (a lease store, a runner, a scheduler, a promoter, a pool, a logger, a provider) is a value
  of the type \<open>'x\<close>, about which nothing is known; a component of the engine is such a value or the
  built-in one. Clocks and identifier functions are streams, as in the environment. A loop is driven
  by the list of cases its \<open>select\<close> takes.
\<close>

subsection \<open>Options\<close>

record 'x fields =
  f_workers :: int
  f_drainTimeout :: duration
  f_logger :: "'x option"
  f_idFunc :: "(nat \<Rightarrow> string) option"
  f_nowFunc :: "(nat \<Rightarrow> time) option"
  f_leases :: "'x option"
  f_runner :: "'x option"
  f_scheduler :: "'x option"
  f_pool :: "'x option"
  f_timePromoter :: "'x option"
  f_promoters :: "'x list"
  f_tracerProvider :: "'x option"
  f_meterProvider :: "'x option"
  f_conventions :: "Conventions option"
  f_cacheHitSpans :: bool

type_synonym 'x EngineOption = "'x fields \<Rightarrow> 'x fields"

definition WithWorkers :: "int \<Rightarrow> 'x EngineOption" where
  "WithWorkers n = (\<lambda>e. e\<lparr>f_workers := n\<rparr>)"

definition WithTimePromoter :: "'x option \<Rightarrow> 'x EngineOption" where
  "WithTimePromoter p = (\<lambda>e. e\<lparr>f_timePromoter := p\<rparr>)"

definition WithPromoter :: "'x \<Rightarrow> 'x EngineOption" where
  "WithPromoter p = (\<lambda>e. e\<lparr>f_promoters := f_promoters e @ [p]\<rparr>)"

definition WithLogger :: "'x \<Rightarrow> 'x EngineOption" where
  "WithLogger l = (\<lambda>e. e\<lparr>f_logger := Some l\<rparr>)"

definition WithIDFunc :: "(nat \<Rightarrow> string) \<Rightarrow> 'x EngineOption" where
  "WithIDFunc fn = (\<lambda>e. e\<lparr>f_idFunc := Some fn\<rparr>)"

definition WithNowFunc :: "(nat \<Rightarrow> time) \<Rightarrow> 'x EngineOption" where
  "WithNowFunc fn = (\<lambda>e. e\<lparr>f_nowFunc := Some fn\<rparr>)"

definition WithRunner :: "'x option \<Rightarrow> 'x EngineOption" where
  "WithRunner r = (\<lambda>e. e\<lparr>f_runner := r\<rparr>)"

definition WithScheduler :: "'x option \<Rightarrow> 'x EngineOption" where
  "WithScheduler s = (\<lambda>e. e\<lparr>f_scheduler := s\<rparr>)"

definition WithDrainTimeout :: "duration \<Rightarrow> 'x EngineOption" where
  "WithDrainTimeout d = (\<lambda>e. e\<lparr>f_drainTimeout := d\<rparr>)"

definition WithPool :: "'x option \<Rightarrow> 'x EngineOption" where
  "WithPool p = (\<lambda>e. e\<lparr>f_pool := p\<rparr>)"

definition WithTracerProvider :: "'x option \<Rightarrow> 'x EngineOption" where
  "WithTracerProvider tp = (\<lambda>e. e\<lparr>f_tracerProvider := tp\<rparr>)"

definition WithMeterProvider :: "'x option \<Rightarrow> 'x EngineOption" where
  "WithMeterProvider mp = (\<lambda>e. e\<lparr>f_meterProvider := mp\<rparr>)"

definition WithConventions :: "Conventions option \<Rightarrow> 'x EngineOption" where
  "WithConventions c = (\<lambda>e. e\<lparr>f_conventions := c\<rparr>)"

definition WithLeaseStore :: "'x option \<Rightarrow> 'x EngineOption" where
  "WithLeaseStore ls = (\<lambda>e. e\<lparr>f_leases := ls\<rparr>)"

definition WithCacheHitSpans :: "bool \<Rightarrow> 'x EngineOption" where
  "WithCacheHitSpans enabled = (\<lambda>e. e\<lparr>f_cacheHitSpans := enabled\<rparr>)"

subsection \<open>Components\<close>

text \<open>A component that was handed in, or the built-in one.\<close>

datatype ('x, 'c) component = Given 'x | Default 'c

record PollingTimePromoter =
  ptp_Interval :: duration
  ptp_NowFunc :: "(nat \<Rightarrow> time) option"
  ptp_tel :: "telemetry option"

record PollingScheduler =
  ps_Limit :: int
  ps_Interval :: duration
  ps_Nudge :: bool

record 'x LocalRunner =
  lr_leases :: "('x, memory_leases) component"
  lr_nowFunc :: "nat \<Rightarrow> time"
  lr_idFunc :: "nat \<Rightarrow> string"
  lr_tel :: telemetry

text \<open>The pool of the third-party library, of the given size.\<close>

datatype PondPool = NewPondPool int

record 'x Engine =
  e_fields :: "'x fields"
  e_leases :: "('x, memory_leases) component"
  e_tel :: telemetry
  e_timePromoter :: "('x, PollingTimePromoter) component"
  e_scheduler :: "('x, PollingScheduler) component"
  e_runner :: "('x, 'x LocalRunner) component"
  e_pool :: "('x, PondPool) component"

definition chosen :: "'x option \<Rightarrow> 'c \<Rightarrow> ('x, 'c) component" where
  "chosen given c = (case given of None \<Rightarrow> Default c | Some x \<Rightarrow> Given x)"

definition default_fields :: "'x fields" where
  "default_fields = \<lparr>f_workers = 1, f_drainTimeout = 30 * second, f_logger = None, f_idFunc = None, f_nowFunc = None,
     f_leases = None, f_runner = None, f_scheduler = None, f_pool = None, f_timePromoter = None, f_promoters = [],
     f_tracerProvider = None, f_meterProvider = None, f_conventions = None, f_cacheHitSpans = False\<rparr>"

text \<open>\<open>uuids\<close> and \<open>clock\<close> are what \<open>uuid.New\<close> and \<open>time.Now\<close> deliver.\<close>

definition NewEngine :: "(nat \<Rightarrow> duration) \<Rightarrow> (nat \<Rightarrow> string) \<Rightarrow> (nat \<Rightarrow> time) \<Rightarrow> 'x EngineOption list \<Rightarrow> 'x Engine" where
  "NewEngine durations uuids clock opts =
     (let e = fold (\<lambda>opt e. opt e) opts default_fields;
          now = (case f_nowFunc e of None \<Rightarrow> clock | Some fn \<Rightarrow> fn);
          ids = (case f_idFunc e of None \<Rightarrow> uuids | Some fn \<Rightarrow> fn);
          leases = chosen (f_leases e) NewMemoryLeaseStore;
          tel = newTelemetry (f_conventions e) (f_cacheHitSpans e) durations in
      \<lparr>e_fields = e, e_leases = leases, e_tel = tel,
       e_timePromoter = chosen (f_timePromoter e)
         \<lparr>ptp_Interval = second, ptp_NowFunc = Some now, ptp_tel = Some tel\<rparr>,
       e_scheduler = chosen (f_scheduler e) \<lparr>ps_Limit = f_workers e, ps_Interval = 0, ps_Nudge = True\<rparr>,
       e_runner = chosen (f_runner e) \<lparr>lr_leases = leases, lr_nowFunc = now, lr_idFunc = ids, lr_tel = tel\<rparr>,
       e_pool = chosen (f_pool e) (NewPondPool (f_workers e))\<rparr>)"

subsection \<open>The loops\<close>

text \<open>\<open>time.NewTicker\<close> panics unless the interval is positive.\<close>

definition NewTicker :: "duration \<Rightarrow> duration go_outcome" where
  "NewTicker d = (if sint d \<le> 0 then Panicked ''non-positive interval for NewTicker'' '''' else Returned (Inr d))"

definition scheduler_ticker :: "PollingScheduler \<Rightarrow> duration go_outcome" where
  "scheduler_ticker s = NewTicker (if ps_Interval s = 0 then second else ps_Interval s)"

definition promoter_ticker :: "PollingTimePromoter \<Rightarrow> duration go_outcome" where
  "promoter_ticker p = NewTicker (ptp_Interval p)"

datatype select_case = CtxDone | Ticked | Nudged

text \<open>The scheduler, by the cases of its \<open>select\<close>: what it dispatches, and whether it has returned.\<close>

fun scheduler_loop :: "PollingScheduler \<Rightarrow> select_case list \<Rightarrow> store \<Rightarrow> WorkflowRecord list list \<times> bool \<times> store" where
  "scheduler_loop p [] s = ([], False, s)"
| "scheduler_loop p (CtxDone # cs) s = ([], True, s)"
| "scheduler_loop p (c # cs) s =
     (let (records, s) = poll (ps_Limit p) s; (rest, returned, s) = scheduler_loop p cs s
      in (if records = [] then rest else records # rest, returned, s))"

text \<open>
  The promoter: how often it calls \<open>ready\<close>. It reads its own clock, the system's when it was given
  none, and without telemetry it adjusts no gauge.
\<close>

definition promoter_cycle :: "(nat \<Rightarrow> time) \<Rightarrow> PollingTimePromoter \<Rightarrow> 'w traced env \<Rightarrow> bool \<times> 'w traced env" where
  "promoter_cycle clock p e =
     (let own = e\<lparr>engineNow := (case ptp_NowFunc p of None \<Rightarrow> clock | Some fn \<Rightarrow> fn)\<rparr>;
          (ready, own) = (case ptp_tel p of None \<Rightarrow> promoter_tick own | Some tel \<Rightarrow> promoter_tick_tel tel own)
      in (ready, own\<lparr>engineNow := engineNow e\<rparr>))"

datatype promoter_case = PromoterDone | PromoterTicked

fun promoter_loop :: "(nat \<Rightarrow> time) \<Rightarrow> PollingTimePromoter \<Rightarrow> promoter_case list \<Rightarrow> 'w traced env \<Rightarrow> nat \<times> bool \<times> 'w traced env" where
  "promoter_loop clock p [] e = (0, False, e)"
| "promoter_loop clock p (PromoterDone # cs) e = (0, True, e)"
| "promoter_loop clock p (PromoterTicked # cs) e =
     (let (ready, e) = promoter_cycle clock p e; (n, returned, e) = promoter_loop clock p cs e
      in ((if ready then Suc n else n), returned, e))"

end
