(* ===== verification/LifecycleTheorems.thy ===== *)
theory LifecycleTheorems
  imports Lifecycle Construction Examples
begin

section \<open>Properties of an engine's life\<close>

text \<open>
  What \<open>Engine.Start\<close> guarantees from its call to its return, and what an engine is made of whatever
  options it was given.
\<close>

subsection \<open>Start\<close>

text \<open>C6: the engine does nothing that the running system does not do: from its start to its return, with the records on
  their way from the scheduler to the pool counted as queued, every state of an engine is one the system
  reaches, so what holds of all states of the system holds of the engine.\<close>

theorem engine_refines_system:
  assumes "life_step\<^sup>*\<^sup>* (life_init s) x"
  shows "sys_step\<^sup>*\<^sup>* (sys_init s) (seen_as x)"
  using life_steps_refine [OF assms] by (simp add: seen_as_init)

text \<open>C7: when \<open>Start\<close> returns nil it has finished what it took on: nothing is left between the scheduler and
  the pool, in the pool's queue or in execution, no lease is held, the pool is stopped and the drain
  timer does not run any more.\<close>

theorem start_leaves_nothing_behind:
  assumes "wf_store s" and "life_step\<^sup>*\<^sup>* (life_init s) x" and "outcome x = Some (Inr ())"
  shows "handing (scheduler x) = [] \<and> queue (core x) = [] \<and> running (core x) = [] \<and> held (core x) = {} \<and>
    poolStopped x \<and> wg x = 0"
proof -
  have inv: "life_inv x" using assms(2) by (rule life_steps_inv)
  moreover have "sys_inv (seen_as x)" using assms(1,2) by (rule life_steps_sys)
  ultimately show ?thesis using assms(3) by (auto simp: life_inv_def sys_inv_def)
qed

text \<open>C22: a call of \<open>ready\<close> is never lost: as long as no poll has begun since, the nudge is in the channel, so that the
  scheduler, when it next selects, polls without waiting for its tick; this holds however many
  promoters call \<open>ready\<close> while the channel is full.\<close>

theorem nudge_is_kept:
  assumes "life_step\<^sup>*\<^sup>* (life_init s) x" and "asked x"
  shows "nudge x \<and> (scheduler x = Selecting \<and> outcome x = None \<longrightarrow>
    life_step x (begin_poll limit (x\<lparr>nudge := False\<rparr>)))"
  using life_steps_inv [OF assms(1)] assms(2) by (auto simp: life_inv_def intro: life_step.nudged)

text \<open>While \<open>Start\<close> has not returned, the context of the executions in flight is cancelled only after the engine's
  own was, the scheduler has ended and the drain timer has fired.\<close>

theorem executions_may_drain:
  assumes "life_step\<^sup>*\<^sup>* (life_init s) x" and "drainCancelled x" and "outcome x = None"
  shows "cancelled x \<and> scheduler x = Returned_nil \<and> drainTimer x = Fired"
  using life_steps_inv [OF assms(1)] assms(2,3) by (auto simp: life_inv_def)

text \<open>C8: a cancelled engine stops: in every run in which the context of the engine is cancelled, no goroutine is left
  waiting for ever, the workers take what is queued, executions return after their own context was cancelled,
  and the scheduler does not fail (the built-in one never does), \<open>Start\<close> returns nil, whatever was
  listed, queued or in execution; at that moment nothing is queued or in execution any more. Executions that would never return by themselves
  are covered: the drain timer cancels them.\<close>

theorem cancelled_engine_stops:
  assumes "life_run s \<sigma>" and "goroutines_move \<sigma>" and "workers_take \<sigma>" and "executions_heed_cancellation \<sigma>"
    and "\<And>k err. outcome (\<sigma> k) \<noteq> Some (Inl err)" and "cancelled (\<sigma> i)"
  shows "\<exists>j. outcome (\<sigma> j) = Some (Inr ()) \<and> queue (core (\<sigma> j)) = [] \<and> running (core (\<sigma> j)) = []"
proof -
  obtain j r where "outcome (\<sigma> j) = Some r" using outcome_set [OF assms(1-4,6)] by blast
  with assms(5) [of j] have "outcome (\<sigma> j) = Some (Inr ())" by (cases r) auto
  with run_inv(1) [OF assms(1), of j] show ?thesis by (auto simp: life_inv_def)
qed

subsection \<open>One life\<close>

text \<open>An engine that lists one record, starts it and is cancelled; the drain timer fires, the execution returns and is
  stored, and the engine stops.\<close>

definition life1 :: lifecycle where
  "life1 = dispatch record1 [] (begin_poll 1 (life_init store1))"

definition life2 :: lifecycle where
  "life2 = life1\<lparr>nudge := True, asked := True\<rparr>"

definition life3 :: lifecycle where
  "life3 = life2\<lparr>core := (core life2)\<lparr>queue := [] @ [], held := {''w1''}, running := running (core life2) @ [record1]\<rparr>\<rparr>"

definition life4 :: lifecycle where
  "life4 = life3\<lparr>cancelled := True\<rparr>"

definition life5 :: lifecycle where
  "life5 = life4\<lparr>scheduler := Returned_nil, drainTimer := Armed\<rparr>"

definition life6 :: lifecycle where
  "life6 = life5\<lparr>drainTimer := Fired, drainCancelled := True\<rparr>"

definition life7 :: lifecycle where
  "life7 = done_one (life6\<lparr>core := (core life6)\<lparr>
     db := snd (occ_apply (decide DefaultRetryPolicy (wr_Attempts record1) noon (Inr ''7'')) (wr_ID record1) (wr_OCCVersion record1)
       (db (core life6))),
     held := snd (Release (wr_ID record1) (held (core life6))), running := [] @ []\<rparr>\<rparr>)"

lemma life1_eq:
  "life1 = (life_init store1)\<lparr>core := (sys_init store1)\<lparr>db := store1\<lparr>nowCalls := 1, dbCalls := 2\<rparr>, queue := [record1]\<rparr>, wg := 1\<rparr>"
  by (simp add: life1_def begin_poll_def dispatch_def life_init_def sys_init_def poll1)

lemmas life_states = life7_def life6_def life5_def life4_def life3_def life2_def life1_eq life_init_def sys_init_def

lemma life_moves:
  "life_step (life_init store1) (begin_poll 1 (life_init store1))" "life_step (begin_poll 1 (life_init store1)) life1"
  "life_step life1 life2" "life_step life2 life3" "life_step life3 life4" "life_step life4 life5" "life_step life5 life6"
  "life_step life6 life7" "life_step life7 (finish_start life7)"
proof -
  show "life_step (life_init store1) (begin_poll 1 (life_init store1))" by (rule life_step.tick) (simp_all add: life_init_def)
  show "life_step (begin_poll 1 (life_init store1)) life1"
    unfolding life1_def by (rule life_step.handed) (simp add: begin_poll_def life_init_def sys_init_def poll1)
  show "life_step life1 life2" unfolding life2_def by (rule life_step.ready)
  show "life_step life2 life3"
    unfolding life3_def by (rule life_step.start) (simp_all add: life_states Acquire_def NewMemoryLeaseStore_def record1_def)
  show "life_step life3 life4" unfolding life4_def by (rule life_step.cancel)
  show "life_step life4 life5" unfolding life5_def by (rule life_step.scheduler_ends) (simp_all add: life_states)
  show "life_step life5 life6" unfolding life6_def by (rule life_step.timer_fires) (simp add: life5_def)
  show "life_step life6 life7" unfolding life7_def by (rule life_step.finish [where p = DefaultRetryPolicy and t = noon and answer = "Inr ''7''"])
      (simp_all add: life_states decide_def occ_time_ok_def)
  show "life_step life7 (finish_start life7)" by (rule life_step.waited) (simp_all add: life_states done_one_def)
qed

lemma finished_life:
  "outcome (finish_start life7) = Some (Inr ())" "scheduler (finish_start life7) = Returned_nil"
  "drainTimer (finish_start life7) = Fired" "queue (core (finish_start life7)) = []" "running (core (finish_start life7)) = []"
  by (simp_all add: life_states finish_start_def done_one_def)

lemma life_path:
  "life_step\<^sup>*\<^sup>* (life_init store1) life2" "life_step\<^sup>*\<^sup>* (life_init store1) life3"
  "life_step\<^sup>*\<^sup>* (life_init store1) life6" "life_step\<^sup>*\<^sup>* (life_init store1) (finish_start life7)"
proof -
  show 2: "life_step\<^sup>*\<^sup>* (life_init store1) life2" using life_moves(1-3) by (meson converse_rtranclp_into_rtranclp rtranclp.rtrancl_refl)
  then show 3: "life_step\<^sup>*\<^sup>* (life_init store1) life3" using life_moves(4) by (rule rtranclp.rtrancl_into_rtrancl)
  then show 6: "life_step\<^sup>*\<^sup>* (life_init store1) life6" using life_moves(5-7) by (meson rtranclp.rtrancl_into_rtrancl)
  then show "life_step\<^sup>*\<^sup>* (life_init store1) (finish_start life7)" using life_moves(8,9) by (meson rtranclp.rtrancl_into_rtrancl)
qed

theorem engine_refines_system_witness:
  "\<exists>y. sys_step\<^sup>*\<^sup>* (sys_init store1) y \<and> running y = [record1]"
  using engine_refines_system [OF life_path(2)] by (intro exI [of _ "seen_as life3"]) (simp add: life_states)

theorem start_leaves_nothing_behind_witness:
  "outcome (finish_start life7) = Some (Inr ()) \<and> queue (core (finish_start life7)) = [] \<and> held (core (finish_start life7)) = {}"
  using start_leaves_nothing_behind [OF wf_store1 life_path(4)] by (simp add: finish_start_def)

theorem nudge_is_kept_witness:
  "life_step life2 (begin_poll 1 (life2\<lparr>nudge := False\<rparr>))"
  using nudge_is_kept [OF life_path(1), of 1] by (simp add: life_states)

theorem executions_may_drain_witness:
  "drainCancelled life6 \<and> running (core life6) = [record1] \<and> drainTimer life6 = Fired"
  using executions_may_drain [OF life_path(3)] by (simp add: life_states)

text \<open>The same life as an endless run, which stays where it has stopped.\<close>

definition one_life :: "nat \<Rightarrow> lifecycle" where
  "one_life k = [life_init store1, begin_poll 1 (life_init store1), life1, life2, life3, life4, life5, life6, life7,
     finish_start life7] ! min k 9"

lemma one_life_run: "life_run store1 one_life"
  unfolding life_run_def
proof (intro conjI allI)
  fix i :: nat
  consider "i = 0" | "i = 1" | "i = 2" | "i = 3" | "i = 4" | "i = 5" | "i = 6" | "i = 7" | "i = 8" | "9 \<le> i" by linarith
  then show "life_step (one_life i) (one_life (Suc i)) \<or> one_life (Suc i) = one_life i"
    by cases (simp_all add: one_life_def life_moves)
qed (simp add: one_life_def)

lemma one_life_ends: "\<exists>j\<ge>i. one_life j = finish_start life7"
  by (intro exI [of _ "max i 9"]) (simp add: one_life_def)

lemma in_the_end: "P (finish_start life7) \<Longrightarrow> \<exists>j\<ge>i. P (one_life j)"
  using one_life_ends by metis

theorem cancelled_engine_stops_witness:
  "\<exists>j. outcome (one_life j) = Some (Inr ()) \<and> queue (core (one_life j)) = [] \<and> running (core (one_life j)) = []"
proof (rule cancelled_engine_stops [OF one_life_run, where i = 5])
  have "outcome (one_life k) = None \<or> one_life k = finish_start life7" for k
  proof -
    consider "k = 0" | "k = 1" | "k = 2" | "k = 3" | "k = 4" | "k = 5" | "k = 6" | "k = 7" | "k = 8" | "9 \<le> k" by linarith
    then show ?thesis by cases (simp_all add: one_life_def life_states begin_poll_def poll1 done_one_def)
  qed
  then show "outcome (one_life k) \<noteq> Some (Inl err)" for k err by (metis option.distinct(1) finished_life(1) option.inject sum.distinct(1))
  show "goroutines_move one_life"
    unfolding goroutines_move_def
  proof (intro conjI allI impI)
    fix i
    show "\<exists>j\<ge>i. scheduler (one_life j) \<noteq> scheduler (one_life i)" if "handing (scheduler (one_life i)) \<noteq> []"
      by (rule in_the_end) (use that finished_life(2) in \<open>metis handing.simps(3)\<close>)
    show "\<exists>j\<ge>i. drainTimer (one_life j) \<noteq> Armed" "\<exists>j\<ge>i. outcome (one_life j) \<noteq> None"
      by (rule in_the_end, simp add: finished_life)+
    show "\<exists>j. scheduler (one_life j) = Returned_nil" using one_life_ends finished_life(2) by metis
  qed
  show "workers_take one_life" "executions_heed_cancellation one_life"
    unfolding workers_take_def executions_heed_cancellation_def
    by (intro allI impI ballI in_the_end; simp add: finished_life)+
qed (simp add: one_life_def life4_def)

lemma listed_length:
  assumes "ListSchedulable limit s = (Inr rcs, s')" and "0 \<le> limit"
  shows "int (length rcs) \<le> limit"
proof -
  have "scan_all scanWorkflow (sql_limit limit (sort_key c_created_at
      (filter (schedulable (fst (now s))) (workflows s)))) = Inr rcs"
    using assms(1)
    by (auto simp: ListSchedulable_def case_prod_unfold Let_def dest!: db_call_okD split: sum.splits)
  from scan_all_map [OF this] assms(2) show ?thesis by (simp add: sql_limit_def)
qed

lemma polled_length: "0 \<le> limit \<Longrightarrow> int (length (fst (poll limit s))) \<le> limit"
  using listed_length [of limit s] by (cases "ListSchedulable limit s") (auto simp: poll_def split: sum.split)

lemma scheduler_loop_poll:
  "c \<noteq> CtxDone \<Longrightarrow> fst (scheduler_loop p (c # cs) s) =
     (let rcs = fst (poll (ps_Limit p) s); rest = fst (scheduler_loop p cs (snd (poll (ps_Limit p) s)))
      in if rcs = [] then rest else rcs # rest)"
  by (cases c) (simp_all add: Let_def case_prod_unfold)

lemma scheduler_batches:
  assumes "0 \<le> ps_Limit p" and "batch \<in> set (fst (scheduler_loop p cs s))"
  shows "batch \<noteq> [] \<and> int (length batch) \<le> ps_Limit p"
  using assms(2)
proof (induction cs arbitrary: s)
  case (Cons c cs)
  show ?case
  proof (cases "c = CtxDone")
    case False
    then show ?thesis
      using Cons.IH Cons.prems polled_length [OF assms(1), of s]
      by (auto simp: scheduler_loop_poll Let_def split: if_splits)
  qed (use Cons.prems in simp)
qed simp

text \<open>C24: what the scheduler dispatches is never empty and, with a limit that is not negative, never more than the limit; so
  an engine with no workers never executes anything.\<close>

theorem dispatch_is_bounded:
  assumes "0 \<le> ps_Limit p" and "batch \<in> set (fst (scheduler_loop p cs s))"
  shows "batch \<noteq> [] \<and> int (length batch) \<le> ps_Limit p"
  by (rule scheduler_batches [OF assms])

theorem dispatch_is_bounded_witness:
  "\<exists>batch \<in> set (fst (scheduler_loop \<lparr>ps_Limit = 1, ps_Interval = 0, ps_Nudge = True\<rparr> [Nudged, CtxDone] store1)).
     batch \<noteq> [] \<and> int (length batch) \<le> 1"
  using dispatch_is_bounded [of "\<lparr>ps_Limit = 1, ps_Interval = 0, ps_Nudge = True\<rparr>" "[record1]" "[Nudged, CtxDone]" store1]
  by (simp add: poll1)

subsection \<open>The parts of an engine\<close>

text \<open>A call of one of the functions that make an option, as data: which function, and with what.\<close>

datatype 'x engine_option =
    Workers int | Time_Promoter "'x option" | Promoter 'x | Logger 'x | ID_Func "nat \<Rightarrow> string" | Now_Func "nat \<Rightarrow> time"
  | Use_Runner "'x option" | Use_Scheduler "'x option" | Drain_Timeout duration | Use_Pool "'x option"
  | Tracer_Provider "'x option" | Meter_Provider "'x option" | Use_Conventions "Conventions option"
  | Lease_Store "'x option" | Cache_Hit_Spans bool

fun made :: "'x engine_option \<Rightarrow> 'x EngineOption" where
  "made (Workers n) = WithWorkers n"
| "made (Time_Promoter p) = WithTimePromoter p"
| "made (Promoter p) = WithPromoter p"
| "made (Logger l) = WithLogger l"
| "made (ID_Func fn) = WithIDFunc fn"
| "made (Now_Func fn) = WithNowFunc fn"
| "made (Use_Runner r) = WithRunner r"
| "made (Use_Scheduler s) = WithScheduler s"
| "made (Drain_Timeout d) = WithDrainTimeout d"
| "made (Use_Pool p) = WithPool p"
| "made (Tracer_Provider tp) = WithTracerProvider tp"
| "made (Meter_Provider mp) = WithMeterProvider mp"
| "made (Use_Conventions c) = WithConventions c"
| "made (Lease_Store ls) = WithLeaseStore ls"
| "made (Cache_Hit_Spans b) = WithCacheHitSpans b"

text \<open>What the last option of a kind sets, or the default.\<close>

definition last_set :: "'v \<Rightarrow> ('x engine_option \<Rightarrow> 'v option) \<Rightarrow> 'x engine_option list \<Rightarrow> 'v" where
  "last_set d kind os = last (d # List.map_filter kind os)"

fun workers_of :: "'x engine_option \<Rightarrow> int option" where
  "workers_of (Workers n) = Some n" | "workers_of _ = None"

fun now_of :: "'x engine_option \<Rightarrow> (nat \<Rightarrow> time) option" where
  "now_of (Now_Func fn) = Some fn" | "now_of _ = None"

fun ids_of :: "'x engine_option \<Rightarrow> (nat \<Rightarrow> string) option" where
  "ids_of (ID_Func fn) = Some fn" | "ids_of _ = None"

fun drain_of :: "'x engine_option \<Rightarrow> duration option" where
  "drain_of (Drain_Timeout d) = Some d" | "drain_of _ = None"

fun leases_of :: "'x engine_option \<Rightarrow> 'x option option" where
  "leases_of (Lease_Store ls) = Some ls" | "leases_of _ = None"

fun runner_of :: "'x engine_option \<Rightarrow> 'x option option" where
  "runner_of (Use_Runner r) = Some r" | "runner_of _ = None"

fun scheduler_of :: "'x engine_option \<Rightarrow> 'x option option" where
  "scheduler_of (Use_Scheduler s) = Some s" | "scheduler_of _ = None"

fun pool_of :: "'x engine_option \<Rightarrow> 'x option option" where
  "pool_of (Use_Pool p) = Some p" | "pool_of _ = None"

fun time_promoter_of :: "'x engine_option \<Rightarrow> 'x option option" where
  "time_promoter_of (Time_Promoter p) = Some p" | "time_promoter_of _ = None"

fun promoter_of :: "'x engine_option \<Rightarrow> 'x option" where
  "promoter_of (Promoter p) = Some p" | "promoter_of _ = None"

fun conventions_of :: "'x engine_option \<Rightarrow> Conventions option option" where
  "conventions_of (Use_Conventions c) = Some c" | "conventions_of _ = None"

fun cache_hit_spans_of :: "'x engine_option \<Rightarrow> bool option" where
  "cache_hit_spans_of (Cache_Hit_Spans b) = Some b" | "cache_hit_spans_of _ = None"

lemma last_set_snoc: "last_set d kind (os @ [opt]) = (case kind opt of Some v \<Rightarrow> v | None \<Rightarrow> last_set d kind os)"
  by (simp add: last_set_def List.map_filter_def split: option.split)

lemmas option_defs = WithWorkers_def WithTimePromoter_def WithPromoter_def WithLogger_def WithIDFunc_def WithNowFunc_def
  WithRunner_def WithScheduler_def WithDrainTimeout_def WithPool_def WithTracerProvider_def WithMeterProvider_def
  WithConventions_def WithLeaseStore_def WithCacheHitSpans_def

text \<open>The fields after all options were applied, in their order.\<close>

lemma fields_set:
  fixes os :: "'x engine_option list"
  defines "e \<equiv> fold (\<lambda>opt e. opt e) (map made os) default_fields"
  shows "f_workers e = last_set 1 workers_of os" and "f_drainTimeout e = last_set (30 * second) drain_of os"
    and "(case f_nowFunc e of None \<Rightarrow> clock | Some fn \<Rightarrow> fn) = last_set clock now_of os"
    and "(case f_idFunc e of None \<Rightarrow> uuids | Some fn \<Rightarrow> fn) = last_set uuids ids_of os"
    and "f_leases e = last_set None leases_of os" and "f_runner e = last_set None runner_of os"
    and "f_scheduler e = last_set None scheduler_of os" and "f_pool e = last_set None pool_of os"
    and "f_timePromoter e = last_set None time_promoter_of os" and "f_promoters e = List.map_filter promoter_of os"
    and "f_conventions e = last_set None conventions_of os" and "f_cacheHitSpans e = last_set False cache_hit_spans_of os"
  unfolding e_def
  by (induction os rule: rev_induct; (simp add: default_fields_def last_set_def List.map_filter_def; fail)?;
    rename_tac opt os; case_tac opt; simp add: last_set_snoc option_defs List.map_filter_def)+

text \<open>C23: the parts \<open>NewEngine\<close> builds fit together whatever the options are, in whatever order and however often they are
  given: the last option of a kind counts, and a nil or missing component is the built-in one. The built-in
  promoter ticks every second, its cycles read the clock of the engine, whatever the system's says, and
  report to the engine's telemetry; the built-in scheduler ticks too, is nudged, and dispatches batches of
  at most as many records as there are workers, which is the size of the built-in pool; the built-in runner
  shares leases, clock, identifiers and telemetry with the engine; all further promoters are kept, in order.\<close>

theorem engine_parts_fit:
  assumes "g = NewEngine durations uuids clock (map made os)"
    and "n = last_set 1 workers_of os" and "clk = last_set clock now_of os"
  shows "e_leases g = (case last_set None leases_of os of Some l \<Rightarrow> Given l | None \<Rightarrow> Default NewMemoryLeaseStore) \<and>
    e_tel g = newTelemetry (last_set None conventions_of os) (last_set False cache_hit_spans_of os) durations \<and>
    f_drainTimeout (e_fields g) = last_set (30 * second) drain_of os \<and>
    f_promoters (e_fields g) = List.map_filter promoter_of os \<and>
    (case last_set None time_promoter_of os of
       Some p \<Rightarrow> e_timePromoter g = Given p
     | None \<Rightarrow> \<exists>p. e_timePromoter g = Default p \<and> promoter_ticker p = Returned (Inr second) \<and>
         (\<forall>system (e :: 'w traced env). promoter_cycle system p e =
            (let (ready, e') = promoter_tick_tel (e_tel g) (e\<lparr>engineNow := clk\<rparr>) in (ready, e'\<lparr>engineNow := engineNow e\<rparr>)))) \<and>
    (case last_set None scheduler_of os of
       Some s \<Rightarrow> e_scheduler g = Given s
     | None \<Rightarrow> \<exists>s. e_scheduler g = Default s \<and> scheduler_ticker s = Returned (Inr second) \<and> ps_Nudge s \<and> ps_Limit s = n \<and>
         (\<forall>cs db. \<forall>batch \<in> set (fst (scheduler_loop s cs db)). 0 \<le> n \<longrightarrow> batch \<noteq> [] \<and> int (length batch) \<le> n)) \<and>
    (case last_set None runner_of os of
       Some r \<Rightarrow> e_runner g = Given r
     | None \<Rightarrow> e_runner g = Default \<lparr>lr_leases = e_leases g, lr_nowFunc = clk, lr_idFunc = last_set uuids ids_of os, lr_tel = e_tel g\<rparr>) \<and>
    e_pool g = (case last_set None pool_of os of Some k \<Rightarrow> Given k | None \<Rightarrow> Default (NewPondPool n))"
proof -
  have tick: "NewTicker second = Returned (Inr second)" by (simp add: NewTicker_def second_def)
  note parts = assms(1) [unfolded NewEngine_def Let_def]
  note batches = scheduler_batches [of "\<lparr>ps_Limit = l, ps_Interval = 0, ps_Nudge = True\<rparr>" for l, simplified]
  show ?thesis
    unfolding parts assms(2,3) Engine.simps fields_set
    by (intro conjI) (simp_all add: chosen_def promoter_ticker_def scheduler_ticker_def promoter_cycle_def tick batches
        split: option.split)
qed

theorem engine_parts_fit_witness:
  "\<exists>r. e_runner (NewEngine (\<lambda>_. 0) (\<lambda>n. dec_nat n) (\<lambda>_. zeroTime)
      [WithNowFunc (\<lambda>_. zeroTime), WithWorkers 4, WithNowFunc (\<lambda>_. noon)] :: unit Engine) = Default r \<and> lr_nowFunc r = (\<lambda>_. noon)"
proof -
  let ?os = "[Now_Func (\<lambda>_. zeroTime), Workers 4, Now_Func (\<lambda>_. noon)] :: unit engine_option list"
  let ?g = "NewEngine (\<lambda>_. 0) (\<lambda>n. dec_nat n) (\<lambda>_. zeroTime) (map made ?os)"
  note fit = engine_parts_fit [OF refl refl refl, of "\<lambda>_. 0" "\<lambda>n. dec_nat n" "\<lambda>_. zeroTime" ?os]
  have "case last_set None runner_of ?os of Some r \<Rightarrow> e_runner ?g = Given r
     | None \<Rightarrow> e_runner ?g = Default \<lparr>lr_leases = e_leases ?g, lr_nowFunc = last_set (\<lambda>_. zeroTime) now_of ?os,
         lr_idFunc = last_set (\<lambda>n. dec_nat n) ids_of ?os, lr_tel = e_tel ?g\<rparr>"
    by (rule fit [THEN conjunct2, THEN conjunct2, THEN conjunct2, THEN conjunct2, THEN conjunct2, THEN conjunct2, THEN conjunct1])
  then show ?thesis by (simp add: last_set_def List.map_filter_def)
qed

text \<open>A promoter that was built without an interval panics when it starts, where a scheduler without one takes a
  second.\<close>

theorem promoter_needs_interval:
  "promoter_ticker (p\<lparr>ptp_Interval := 0\<rparr>) = Panicked ''non-positive interval for NewTicker'' '''' \<and>
   scheduler_ticker (s\<lparr>ps_Interval := 0\<rparr>) = Returned (Inr second)"
  by (simp add: promoter_ticker_def scheduler_ticker_def NewTicker_def second_def)

lemma count_back_store [simp]: "the_store (count_back tel r e) = the_store e"
  by (simp add: count_back_def adjustSuspended_def emit_def split: sum.split)

lemma tick_tel:
  "fst (promoter_tick_tel tel e) = fst (promoter_tick e)"
  "the_store (snd (promoter_tick_tel tel e)) = the_store (snd (promoter_tick e))"
  by (simp_all add: promoter_tick_tel_def promoter_tick_def Let_def case_prod_unfold)

lemma promoted_none:
  assumes "no_fault s" and "\<not> (case fst (PromoteSuspended t s) of Inl _ \<Rightarrow> 0 | Inr n \<Rightarrow> n) > 0"
  shows "tables_of (snd (PromoteSuspended t s)) = tables_of s" and "no_fault (snd (PromoteSuspended t s))"
proof -
  let ?f = "\<lambda>r. r\<lparr>c_status := StatusPending, c_retry_after := '''', c_occ_version := c_occ_version r + 1, c_updated_at := formatTime t\<rparr>"
  let ?rows = "sql_update (promotable t) ?f (workflows s)"
  have eq: "PromoteSuspended t s =
      (Inr (int (fst ?rows)), s\<lparr>dbCalls := Suc (Suc (dbCalls s)), workflows := snd ?rows\<rparr>)"
    using assms(1) by (simp add: PromoteSuspended_def db_call_def no_fault_def Let_def case_prod_unfold)
  with assms(2) have "fst ?rows = 0" by simp
  then have "snd ?rows = workflows s" by (rule sql_update_none)
  with eq show "tables_of (snd (PromoteSuspended t s)) = tables_of s" by (simp add: tables_of_eq_iff)
  from eq assms(1) show "no_fault (snd (PromoteSuspended t s))" by (simp add: no_fault_def)
qed

lemma timed_out_none:
  assumes "\<not> (case fst (TimeOutSubscriptions t s) of Inl _ \<Rightarrow> 0 | Inr n \<Rightarrow> n) > 0"
  shows "tables_of (snd (TimeOutSubscriptions t s)) = tables_of s"
proof (cases "TimeOutSubscriptions t s")
  case (Pair r s')
  show ?thesis
  proof (cases r)
    case (Inl err)
    with Pair show ?thesis unfolding TimeOutSubscriptions_def by (auto dest: in_tx_error)
  next
    case (Inr n)
    with Pair assms have "n \<le> 0" by simp
    with TimeOutSubscriptions_ok [OF Pair [unfolded Inr]] have "filter (expired t) (subscriptions s) = []" by simp
    moreover from this have "filter (\<lambda>b. k_correlation_key b \<notin> k_correlation_key ` {b \<in> set (subscriptions s). expired t b})
        (subscriptions s) = subscriptions s" by (auto simp: filter_empty_conv intro!: filter_True)
    ultimately show ?thesis using TimeOutSubscriptions_ok [OF Pair [unfolded Inr]] Pair by (simp add: tables_of_eq_iff)
  qed
qed

text \<open>C25: a promoter nudges the scheduler whenever it has made work: a cycle after which it does not call \<open>ready\<close> has
  changed no table, when the driver does not fail.\<close>

theorem silent_cycle_changes_nothing:
  assumes "no_fault (the_store e)" and "promoter_cycle clock p e = (False, e')"
  shows "tables_of (the_store e') = tables_of (the_store e)"
proof -
  let ?e = "e\<lparr>engineNow := (case ptp_NowFunc p of None \<Rightarrow> clock | Some fn \<Rightarrow> fn)\<rparr>"
  let ?t = "engineNow ?e (engineNows ?e)" and ?t' = "engineNow ?e (Suc (engineNows ?e))"
  let ?P = "PromoteSuspended ?t (the_store e)"
  let ?T = "TimeOutSubscriptions ?t' (snd ?P)"
  have tick: "fst (promoter_tick ?e) = False" "the_store e' = the_store (snd (promoter_tick ?e))"
    using assms(2) tick_tel [of _ ?e]
    by (auto simp: promoter_cycle_def Let_def case_prod_unfold split: option.splits)
  have run: "promoter_tick ?e = ((case fst ?P of Inl _ \<Rightarrow> 0 | Inr n \<Rightarrow> n) > 0 \<or> (case fst ?T of Inl _ \<Rightarrow> 0 | Inr n \<Rightarrow> n) > 0,
      snd (promoter_tick ?e))" "the_store (snd (promoter_tick ?e)) = snd ?T"
    by (simp_all add: promoter_tick_def promote_def timeOutSubscriptions_def nowFunc_def on_store_def Let_def case_prod_unfold)
  have p: "\<not> (case fst ?P of Inl _ \<Rightarrow> 0 | Inr n \<Rightarrow> n) > 0" and t: "\<not> (case fst ?T of Inl _ \<Rightarrow> 0 | Inr n \<Rightarrow> n) > 0"
    using tick(1) run(1) by (metis fst_conv)+
  have "tables_of (snd ?T) = tables_of (snd ?P)" using t by (rule timed_out_none)
  also have "\<dots> = tables_of (the_store e)" using assms(1) p by (rule promoted_none(1))
  finally show ?thesis using tick(2) run(2) by simp
qed

definition traced1 :: "unit traced env" where
  "traced1 = \<lparr>the_store = store1, seenSteps = {}, engineNow = (\<lambda>_. noon), engineNows = 0, engineID = (\<lambda>n. dec_nat n),
     engineIDs = 0, world = ((), [])\<rparr>"

definition promoter1 :: PollingTimePromoter where
  "promoter1 = \<lparr>ptp_Interval = second, ptp_NowFunc = None, ptp_tel = None\<rparr>"

theorem silent_cycle_changes_nothing_witness:
  "tables_of (the_store (snd (promoter_cycle (\<lambda>_. noon) promoter1 traced1))) = tables_of store1"
proof -
  have "fst (promoter_cycle (\<lambda>_. noon) promoter1 traced1) = False"
    by (simp add: promoter_cycle_def promoter1_def traced1_def promoter_tick_def promote_def timeOutSubscriptions_def
        nowFunc_def on_store_def PromoteSuspended_def TimeOutSubscriptions_def in_tx_def db_call_def store1_def promotable_def
        sql_update_def status_defs row1_def Let_def)
  then have "promoter_cycle (\<lambda>_. noon) promoter1 traced1 = (False, snd (promoter_cycle (\<lambda>_. noon) promoter1 traced1))"
    by (simp add: prod_eq_iff)
  from silent_cycle_changes_nothing [OF _ this] show ?thesis by (simp add: traced1_def)
qed

end
