(* ===== verification/FileOps.thy ===== *)
theory FileOps
  imports Workflows ParallelBranches Engine
begin

section \<open>The file operations example\<close>

text \<open>
  \<^verbatim>\<open>examples/fileops\<close>: the workflow \<^verbatim>\<open>workflow.go\<close>, the lines of the event bridge \<^verbatim>\<open>events.go\<close>, the
  poll for a result in \<^verbatim>\<open>main.go\<close>, and the configuration of \<^verbatim>\<open>container.go\<close>. The operating system is a
  parameter: commands, directories and files act on the world. The variables that the branches of
  \<open>Parallel\<close> assign stand beside the world, since the branches share them. \<open>Execute\<close> has the schedule
  of its branches as an argument and no answer for a schedule that does not let all of them end.
  Paths are those of Unix; white space is that of ASCII.
\<close>

subsection \<open>Texts and paths\<close>

definition go_dec :: "int \<Rightarrow> string" where
  "go_dec n = (if n < 0 then ''-'' @ dec_nat (nat (- n)) else dec_nat (nat n))"

definition pad3 :: "nat \<Rightarrow> string" where
  "pad3 n = replicate (3 - length (dec_nat n)) (CHR ''0'') @ dec_nat n"

fun split_at :: "char \<Rightarrow> string \<Rightarrow> string list" where
  "split_at c [] = [[]]"
| "split_at c (x # xs) =
     (if x = c then [] # split_at c xs else (case split_at c xs of p # ps \<Rightarrow> (x # p) # ps | [] \<Rightarrow> [[x]]))"

fun join_with :: "string \<Rightarrow> string list \<Rightarrow> string" where
  "join_with sep [] = []"
| "join_with sep [p] = p"
| "join_with sep (p # q # ps) = p @ sep @ join_with sep (q # ps)"

text \<open>\<open>filepath.Clean\<close>: the elements of the path from left to right, the ones kept so far in reverse.\<close>

fun clean_elements :: "bool \<Rightarrow> string list \<Rightarrow> string list \<Rightarrow> string list" where
  "clean_elements rooted kept [] = rev kept"
| "clean_elements rooted kept (p # ps) =
     (if p = '''' \<or> p = ''.'' then clean_elements rooted kept ps
      else if p \<noteq> ''..'' then clean_elements rooted (p # kept) ps
      else (case kept of
              [] \<Rightarrow> clean_elements rooted (if rooted then [] else [p]) ps
            | k # ks \<Rightarrow> if k = ''..'' then clean_elements rooted (p # kept) ps else clean_elements rooted ks ps))"

definition path_clean :: "string \<Rightarrow> string" where
  "path_clean p =
     (let rooted = (p \<noteq> [] \<and> hd p = CHR ''/'');
          q = (if rooted then ''/'' else []) @ join_with ''/'' (clean_elements rooted [] (split_at (CHR ''/'') p))
      in if q = [] then ''.'' else q)"

definition path_join :: "string list \<Rightarrow> string" where
  "path_join elements =
     (case dropWhile (\<lambda>p. p = []) elements of [] \<Rightarrow> [] | ps \<Rightarrow> path_clean (join_with ''/'' ps))"

definition is_space :: "char \<Rightarrow> bool" where
  "is_space c \<longleftrightarrow> c = CHR '' '' \<or> (9 \<le> (of_char c :: nat) \<and> (of_char c :: nat) \<le> 13)"

definition trim_space :: "string \<Rightarrow> string" where
  "trim_space s = rev (dropWhile is_space (rev (dropWhile is_space s)))"

text \<open>The first of \<open>strings.Fields\<close>, if there is one.\<close>

definition first_field :: "string \<Rightarrow> string option" where
  "first_field s = (case takeWhile (\<lambda>c. \<not> is_space c) (dropWhile is_space s) of [] \<Rightarrow> None | f \<Rightarrow> Some f)"

text \<open>\<open>Sscanf(s, "%d", &sz)\<close> into a variable that is zero: an error leaves it zero.\<close>

definition scan_int64 :: "string \<Rightarrow> int" where
  "scan_int64 s =
     (let negative = (s \<noteq> [] \<and> hd s = CHR ''-'');
          unsigned = (if s \<noteq> [] \<and> (hd s = CHR ''-'' \<or> hd s = CHR ''+'') then tl s else s);
          digits = takeWhile (\<lambda>c. is_digit c) unsigned;
          n = (if negative then - int (dec_val digits) else int (dec_val digits))
      in if digits = [] \<or> n < - (2 ^ 63) \<or> n \<ge> 2 ^ 63 then 0 else n)"

definition hex_digit :: "nat \<Rightarrow> char" where
  "hex_digit n = ''0123456789abcdef'' ! n"

definition hex_encode :: "bytes \<Rightarrow> string" where
  "hex_encode bs = concat (map (\<lambda>b. [hex_digit (of_char b div 16), hex_digit (of_char b mod 16)]) bs)"

subsection \<open>Data\<close>

record CycleRequest =
  WorkDir :: string
  ArchiveDir :: string
  CycleNum :: int

record FileEntry =
  fe_Name :: string
  fe_Size :: int
  fe_Path :: string

record CleanupSignal =
  Reason :: string

type_synonym texts = "string \<rightharpoonup> string"
type_synonym sizes = "string \<rightharpoonup> int"

record CycleReport =
  cr_CycleID :: string
  cr_CycleNum :: int
  cr_StartedAt :: time
  cr_FilesProcessed :: int
  cr_FilesArchived :: int
  cr_Checksums :: texts
  cr_Types :: texts
  cr_Sizes :: sizes
  cr_ManifestPath :: string
  cr_CleanedUp :: bool

record DirEntry =
  de_Name :: string
  de_IsDir :: bool
  de_Info :: "int res"

text \<open>What the branches assign.\<close>

record captured =
  types :: "texts option"
  checksums :: "texts option"
  sizes :: "sizes option"

definition unassigned :: captured where
  "unassigned = \<lparr>types = None, checksums = None, sizes = None\<rparr>"

record manifest =
  m_cycle_id :: string
  m_timestamp :: time
  m_files :: "FileEntry list"
  m_captured :: captured

text \<open>
  \<open>Command\<close> runs a program with its arguments and gives its output or an error; reading a file fails
  when it cannot be opened or read. \<open>Sum256\<close> is the hash, \<open>UnixNano\<close> the clock the archive is named by.
\<close>

record 'w os =
  Command :: "string list \<Rightarrow> 'w \<Rightarrow> bytes res \<times> 'w"
  ReadDir :: "string \<Rightarrow> 'w \<Rightarrow> DirEntry list res \<times> 'w"
  ReadFile :: "string \<Rightarrow> 'w \<Rightarrow> bytes res \<times> 'w"
  WriteFile :: "string \<Rightarrow> bytes \<Rightarrow> 'w \<Rightarrow> unit res \<times> 'w"
  MkdirAll :: "string \<Rightarrow> 'w \<Rightarrow> unit res \<times> 'w"
  RemoveAll :: "string \<Rightarrow> 'w \<Rightarrow> 'w"
  Sum256 :: "bytes \<Rightarrow> bytes"
  UnixNano :: "'w \<Rightarrow> int \<times> 'w"
  MarshalIndent :: "manifest \<Rightarrow> bytes res"

record file_json =
  fj_time :: "time codec"
  fj_id :: "string codec"
  fj_count :: "int codec"
  fj_files :: "FileEntry list codec"
  fj_texts :: "texts codec"
  fj_sizes :: "sizes codec"
  fj_text :: "string codec"
  fj_signal :: "CleanupSignal codec"
  fj_flag :: "bool codec"

subsection \<open>The functions of the steps\<close>

definition seed_name :: "string \<Rightarrow> nat \<Rightarrow> string" where
  "seed_name cycleID i = ''data-'' @ take 8 cycleID @ ''-'' @ pad3 i @ ''.bin''"

text \<open>\<open>cycleID[:8]\<close> panics when the identifier is shorter.\<close>

definition short_id :: "string \<Rightarrow> 'a go_outcome" where
  "short_id cycleID = Panicked (''runtime error: slice bounds out of range [:8] with length '' @ dec_nat (length cycleID)) ''''"

fun seed_loop :: "'w os \<Rightarrow> CycleRequest \<Rightarrow> string \<Rightarrow> nat list \<Rightarrow> int \<Rightarrow> 'w \<Rightarrow> int option go_outcome \<times> 'w" where
  "seed_loop os req cycleID [] count w = (Returned (Inr (Some count)), w)"
| "seed_loop os req cycleID (i # is) count w =
     (if length cycleID < 8 then (short_id cycleID, w)
      else let name = seed_name cycleID i in
        case Command os [''dd'', ''if=/dev/urandom'', ''of='' @ path_join [WorkDir req, name], ''bs=1024'',
            ''count='' @ dec_nat ((i + 1) * 10)] w of
          (Inl err, w) \<Rightarrow> (Returned (Inl (WrapError (''seed file '' @ name) err)), w)
        | (Inr _, w) \<Rightarrow> seed_loop os req cycleID is (count + 1) w)"

definition seed_files :: "'w os \<Rightarrow> CycleRequest \<Rightarrow> string \<Rightarrow> 'w \<Rightarrow> int option go_outcome \<times> 'w" where
  "seed_files os req cycleID = seed_loop os req cycleID [0..<5] 0"

fun scan_entries :: "string \<Rightarrow> DirEntry list \<Rightarrow> FileEntry list" where
  "scan_entries dir [] = []"
| "scan_entries dir (e # es) =
     (if de_IsDir e then scan_entries dir es
      else case de_Info e of
             Inl err \<Rightarrow> scan_entries dir es
           | Inr sz \<Rightarrow> \<lparr>fe_Name = de_Name e, fe_Size = sz, fe_Path = path_join [dir, de_Name e]\<rparr> # scan_entries dir es)"

definition scan_directory :: "'w os \<Rightarrow> CycleRequest \<Rightarrow> 'w \<Rightarrow> FileEntry list option go_outcome \<times> 'w" where
  "scan_directory os req w =
     (case ReadDir os (WorkDir req) w of
        (Inl err, w) \<Rightarrow> (Returned (Inl err), w)
      | (Inr entries, w) \<Rightarrow> (Returned (Inr (Some (scan_entries (WorkDir req) entries))), w))"

fun type_loop :: "'w os \<Rightarrow> FileEntry list \<Rightarrow> texts \<Rightarrow> 'w \<Rightarrow> texts \<times> 'w" where
  "type_loop os [] m w = (m, w)"
| "type_loop os (f # fs) m w =
     (case Command os [''file'', ''-b'', fe_Path f] w of
        (Inl err, w) \<Rightarrow> type_loop os fs (m(fe_Name f \<mapsto> ''unknown'')) w
      | (Inr out, w) \<Rightarrow> type_loop os fs (m(fe_Name f \<mapsto> trim_space out)) w)"

definition detect_types :: "'w os \<Rightarrow> FileEntry list \<Rightarrow> 'w \<Rightarrow> texts option go_outcome \<times> 'w" where
  "detect_types os files w = (let (m, w) = type_loop os files Map.empty w in (Returned (Inr (Some m)), w))"

definition hashFile :: "'w os \<Rightarrow> string \<Rightarrow> 'w \<Rightarrow> string res \<times> 'w" where
  "hashFile os path w =
     (case ReadFile os path w of
        (Inl err, w) \<Rightarrow> (Inl err, w)
      | (Inr data, w) \<Rightarrow> (Inr (hex_encode (Sum256 os data)), w))"

fun checksum_loop :: "'w os \<Rightarrow> FileEntry list \<Rightarrow> texts \<Rightarrow> 'w \<Rightarrow> texts \<times> 'w" where
  "checksum_loop os [] m w = (m, w)"
| "checksum_loop os (f # fs) m w =
     (case hashFile os (fe_Path f) w of
        (Inl err, w) \<Rightarrow> checksum_loop os fs (m(fe_Name f \<mapsto> ''error'')) w
      | (Inr h, w) \<Rightarrow> checksum_loop os fs (m(fe_Name f \<mapsto> h)) w)"

definition compute_checksums :: "'w os \<Rightarrow> FileEntry list \<Rightarrow> 'w \<Rightarrow> texts option go_outcome \<times> 'w" where
  "compute_checksums os files w = (let (m, w) = checksum_loop os files Map.empty w in (Returned (Inr (Some m)), w))"

fun size_loop :: "'w os \<Rightarrow> FileEntry list \<Rightarrow> sizes \<Rightarrow> 'w \<Rightarrow> sizes \<times> 'w" where
  "size_loop os [] m w = (m, w)"
| "size_loop os (f # fs) m w =
     (case Command os [''du'', ''-b'', fe_Path f] w of
        (Inl err, w) \<Rightarrow> size_loop os fs m w
      | (Inr out, w) \<Rightarrow>
          size_loop os fs (case first_field out of None \<Rightarrow> m | Some part \<Rightarrow> m(fe_Name f \<mapsto> scan_int64 part)) w)"

definition measure_sizes :: "'w os \<Rightarrow> FileEntry list \<Rightarrow> 'w \<Rightarrow> sizes option go_outcome \<times> 'w" where
  "measure_sizes os files w = (let (m, w) = size_loop os files Map.empty w in (Returned (Inr (Some m)), w))"

definition write_manifest :: "'w os \<Rightarrow> CycleRequest \<Rightarrow> manifest \<Rightarrow> 'w \<Rightarrow> string option go_outcome \<times> 'w" where
  "write_manifest os req m w =
     (case MarshalIndent os m of
        Inl err \<Rightarrow> (Returned (Inl err), w)
      | Inr data \<Rightarrow>
          let p = path_join [WorkDir req, ''manifest.json''] in
          (case WriteFile os p data w of
             (Inl err, w) \<Rightarrow> (Returned (Inl err), w)
           | (Inr _, w) \<Rightarrow> (Returned (Inr (Some p)), w)))"

fun move_loop :: "'w os \<Rightarrow> string \<Rightarrow> FileEntry list \<Rightarrow> int \<Rightarrow> 'w \<Rightarrow> int \<times> 'w" where
  "move_loop os archDir [] count w = (count, w)"
| "move_loop os archDir (f # fs) count w =
     (case Command os [''mv'', fe_Path f, path_join [archDir, fe_Name f]] w of
        (Inl err, w) \<Rightarrow> move_loop os archDir fs count w
      | (Inr _, w) \<Rightarrow> move_loop os archDir fs (count + 1) w)"

definition archive_files :: "'w os \<Rightarrow> CycleRequest \<Rightarrow> string \<Rightarrow> FileEntry list \<Rightarrow> 'w \<Rightarrow> int option go_outcome \<times> 'w" where
  "archive_files os req archiveName files w =
     (let archDir = path_join [ArchiveDir req, archiveName] in
      case MkdirAll os archDir w of
        (Inl err, w) \<Rightarrow> (Returned (Inl err), w)
      | (Inr _, w) \<Rightarrow>
          let (count, w) = move_loop os archDir files 0 w;
              (_, w) = Command os [''mv'', path_join [WorkDir req, ''manifest.json''], path_join [archDir, ''manifest.json'']] w
          in (Returned (Inr (Some count)), w))"

definition pruned :: "DirEntry list \<Rightarrow> DirEntry list" where
  "pruned entries = (if length entries > 3 then take (length entries - 3) entries else [])"

definition cleanup_archives :: "'w os \<Rightarrow> CycleRequest \<Rightarrow> 'w \<Rightarrow> bool option go_outcome \<times> 'w" where
  "cleanup_archives os req w =
     (case ReadDir os (ArchiveDir req) w of
        (Inl err, w) \<Rightarrow> (Returned (Inr (Some False)), w)
      | (Inr entries, w) \<Rightarrow>
          (Returned (Inr (Some True)), fold (\<lambda>e. RemoveAll os (path_join [ArchiveDir req, de_Name e])) (pruned entries) w))"

definition archive_name :: "'w os \<Rightarrow> 'w \<Rightarrow> string go_outcome \<times> 'w" where
  "archive_name os w = (let (t, w) = UnixNano os w in (Returned (Inr (''batch-'' @ go_dec t)), w))"

subsection \<open>\<open>Execute\<close>\<close>

definition on_os :: "('w \<Rightarrow> 'a \<times> 'w) \<Rightarrow> ('a, 'w \<times> captured) act" where
  "on_os f = on_world (\<lambda>(w, c). case f w of (r, w) \<Rightarrow> (r, (w, c)))"

definition assign :: "(captured \<Rightarrow> captured) \<Rightarrow> (unit, 'w \<times> captured) act" where
  "assign f = on_world (\<lambda>(w, c). ((), (w, f c)))"

text \<open>A branch: one step, whose result is assigned before its error is returned.\<close>

definition step_branch :: "string \<Rightarrow> 'v codec \<Rightarrow> string \<Rightarrow> ('w \<Rightarrow> 'v option go_outcome \<times> 'w) \<Rightarrow>
    ('v option \<Rightarrow> captured \<Rightarrow> captured) \<Rightarrow> ('w \<times> captured) branch" where
  "step_branch name cd step fn store_result =
     \<lparr>b_name = name, b_run = (\<lambda>wc.
        bind (Run_proc cd wc step (on_os fn)) (\<lambda>r.
        bind (act (assign (store_result (case r of Inl _ \<Rightarrow> None | Inr v \<Rightarrow> v)))) (\<lambda>_.
        Ret (Returned (map_sum id (\<lambda>_. ()) r)))))\<rparr>"

definition wrangler_branches :: "file_json \<Rightarrow> 'w os \<Rightarrow> FileEntry list \<Rightarrow> ('w \<times> captured) branch list" where
  "wrangler_branches js os files =
     [step_branch ''classify'' (fj_texts js) ''detect-types'' (detect_types os files) (\<lambda>r c. c\<lparr>types := r\<rparr>),
      step_branch ''checksum'' (fj_texts js) ''compute-checksums'' (compute_checksums os files) (\<lambda>r c. c\<lparr>checksums := r\<rparr>),
      step_branch ''measure'' (fj_sizes js) ''measure-sizes'' (measure_sizes os files) (\<lambda>r c. c\<lparr>sizes := r\<rparr>)]"

definition cleanup_key :: "int \<Rightarrow> string" where
  "cleanup_key cycleNum = ''cleanup:'' @ go_dec cycleNum"

text \<open>The report; it dereferences what the steps and the branches returned.\<close>

definition cycle_report :: "CycleRequest \<Rightarrow> string \<Rightarrow> time \<Rightarrow> FileEntry list \<Rightarrow> int option \<Rightarrow> captured \<Rightarrow> string option \<Rightarrow> bool \<Rightarrow>
    CycleReport go_outcome" where
  "cycle_report req cycleID cycleStart files archived c manifestPath cleanedUp =
     (case (archived, checksums c, types c, sizes c, manifestPath) of
        (Some n, Some sums, Some ts, Some szs, Some p) \<Rightarrow>
          Returned (Inr \<lparr>cr_CycleID = cycleID, cr_CycleNum = CycleNum req, cr_StartedAt = cycleStart,
            cr_FilesProcessed = int (length files), cr_FilesArchived = n, cr_Checksums = sums, cr_Types = ts, cr_Sizes = szs,
            cr_ManifestPath = p, cr_CleanedUp = cleanedUp\<rparr>)
      | _ \<Rightarrow> nil_dereference)"

text \<open>After the wait: an error of the cleanup step is dropped.\<close>

definition wrangle_cleanup :: "file_json \<Rightarrow> 'w os \<Rightarrow> CycleRequest \<Rightarrow> (captured \<Rightarrow> bool \<Rightarrow> CycleReport go_outcome) \<Rightarrow> CleanupSignal option \<Rightarrow>
    wctx \<Rightarrow> ('w \<times> captured) env \<Rightarrow> CycleReport go_outcome \<times> ('w \<times> captured) env" where
  "wrangle_cleanup js os req report signal wc e =
     (let (cleanedUp, e) =
            (case signal of
               None \<Rightarrow> (False, e)
             | Some _ \<Rightarrow>
                 (case Run (fj_flag js) wc ''cleanup-archives'' (on_os (cleanup_archives os req)) e of
                    (Inr (Some b), e) \<Rightarrow> (b, e)
                  | (_, e) \<Rightarrow> (False, e)))
      in (report (snd (world e)) cleanedUp, e))"

text \<open>From the sleep on; a timeout of the wait is no error.\<close>

definition wrangle_archive :: "file_json \<Rightarrow> 'w os \<Rightarrow> CycleRequest \<Rightarrow> string \<Rightarrow> time \<Rightarrow> FileEntry list \<Rightarrow> string \<Rightarrow> string option \<Rightarrow>
    wctx \<Rightarrow> ('w \<times> captured) env \<Rightarrow> CycleReport go_outcome \<times> ('w \<times> captured) env" where
  "wrangle_archive js os req cycleID cycleStart files archiveName manifestPath wc e =
     and_then (SleepUntil (fj_time js) wc (add_time cycleStart (5 * second)) e) (\<lambda>_ wc e.
     and_then (as_call (\<lambda>wc. Run (fj_count js) wc ''archive-files'' (on_os (archive_files os req archiveName files))) wc e)
       (\<lambda>archived wc e.
     and_then (TimeNow (fj_time js) wc e) (\<lambda>_ wc e.
     let report = (\<lambda>c cleanedUp. cycle_report req cycleID cycleStart files archived c manifestPath cleanedUp);
         (r, e) = WaitForEvent (fj_signal js) wc ''await-cleanup'' (cleanup_key (CycleNum req)) (15 * second) e
     in case r of
          Inl err \<Rightarrow> if \<not> is_event_timeout err then (Returned (Inl err), e)
                    else wrangle_cleanup js os req report None wc e
        | Inr signal \<Rightarrow> wrangle_cleanup js os req report signal wc e)))"

text \<open>After the branches: the name of the archive and the manifest.\<close>

definition wrangle_manifest :: "file_json \<Rightarrow> 'w os \<Rightarrow> CycleRequest \<Rightarrow> string \<Rightarrow> time \<Rightarrow> FileEntry list \<Rightarrow>
    wctx \<Rightarrow> ('w \<times> captured) env \<Rightarrow> CycleReport go_outcome \<times> ('w \<times> captured) env" where
  "wrangle_manifest js os req cycleID cycleStart files wc e =
     and_then (let (r, _, e) = ProviderGet (fj_text js) wc (NewProvider ''archive-name'') (on_os (archive_name os)) e in (r, wc, e))
       (\<lambda>archiveName wc e.
     and_then (as_call (\<lambda>wc. Run (fj_text js) wc ''write-manifest'' (on_os (write_manifest os req
         \<lparr>m_cycle_id = cycleID, m_timestamp = cycleStart, m_files = files, m_captured = snd (world e)\<rparr>))) wc e)
       (\<lambda>manifestPath. wrangle_archive js os req cycleID cycleStart files archiveName manifestPath))"

text \<open>As \<open>and_then\<close>, with a continuation that may have no answer.\<close>

definition and_then_may :: "'a go_outcome \<times> wctx \<times> 'w env \<Rightarrow> ('a \<Rightarrow> wctx \<Rightarrow> 'w env \<Rightarrow> ('b go_outcome \<times> 'w env) option) \<Rightarrow>
    ('b go_outcome \<times> 'w env) option" where
  "and_then_may x k =
     (case x of
        (Panicked v stack, wc, e) \<Rightarrow> Some (Panicked v stack, e)
      | (Returned (Inl err), wc, e) \<Rightarrow> Some (Returned (Inl err), e)
      | (Returned (Inr v), wc, e) \<Rightarrow> k v wc e)"

definition wrangle_files :: "file_json \<Rightarrow> 'w os \<Rightarrow> nat list \<Rightarrow> CycleRequest \<Rightarrow> string \<Rightarrow> time \<Rightarrow> FileEntry list \<Rightarrow>
    wctx \<Rightarrow> ('w \<times> captured) env \<Rightarrow> (CycleReport go_outcome \<times> ('w \<times> captured) env) option" where
  "wrangle_files js os sched req cycleID cycleStart files wc e =
     (if files = [] then Some (Returned (Inl (Permanent (ErrorString (''no files found in '' @ WorkDir req)))), e)
      else case Parallel wc (wrangler_branches js os files) sched (snd (assign (\<lambda>_. unassigned) e)) of
             None \<Rightarrow> None
           | Some (Inl err, e) \<Rightarrow> Some (Returned (Inl err), e)
           | Some (Inr _, e) \<Rightarrow> Some (wrangle_manifest js os req cycleID cycleStart files wc e))"

definition wrangler_Execute :: "file_json \<Rightarrow> 'w os \<Rightarrow> nat list \<Rightarrow> CycleRequest \<Rightarrow> wctx \<Rightarrow> ('w \<times> captured) env \<Rightarrow>
    (CycleReport go_outcome \<times> ('w \<times> captured) env) option" where
  "wrangler_Execute js os sched req wc e =
     and_then_may (TimeNow (fj_time js) wc e) (\<lambda>cycleStart wc e.
     and_then_may (IDNew (fj_id js) wc e) (\<lambda>cycleID wc e.
     and_then_may (as_call (\<lambda>wc. Run (fj_count js) wc ''seed-files'' (on_os (seed_files os req cycleID))) wc e) (\<lambda>_ wc e.
     and_then_may (as_call (\<lambda>wc. Run (fj_files js) wc ''scan-directory'' (on_os (scan_directory os req))) wc e) (\<lambda>files wc e.
     case files of
       None \<Rightarrow> Some (nil_dereference, e)
     | Some files \<Rightarrow> wrangle_files js os sched req cycleID cycleStart files wc e))))"

subsection \<open>The event bridge\<close>

definition bridge_payload :: "string \<Rightarrow> CleanupSignal" where
  "bridge_payload line = \<lparr>Reason = ''manual trigger for cycle '' @ line\<rparr>"

text \<open>One line of the pipe; an error of the delivery is only logged.\<close>

definition bridge_line :: "(CleanupSignal \<Rightarrow> bytes res) \<Rightarrow> string \<Rightarrow> 'w engine \<Rightarrow> 'w engine" where
  "bridge_line marshalSignal text g =
     (let line = trim_space text in
      if line = '''' then g
      else snd (SendEvent marshalSignal (''cleanup:'' @ line) (bridge_payload line) g))"

text \<open>The lines a scanner finds in what one writer wrote.\<close>

definition drop_cr :: "string \<Rightarrow> string" where
  "drop_cr line = (if line \<noteq> [] \<and> last line = CHR 0x0D then butlast line else line)"

definition scan_lines :: "string \<Rightarrow> string list" where
  "scan_lines text =
     (let parts = split_at (CHR 0x0A) text in map drop_cr (if last parts = [] then butlast parts else parts))"

definition bridge_writer :: "(CleanupSignal \<Rightarrow> bytes res) \<Rightarrow> string \<Rightarrow> 'w engine \<Rightarrow> 'w engine" where
  "bridge_writer marshalSignal text = fold (bridge_line marshalSignal) (scan_lines text)"

subsection \<open>Watching a cycle\<close>

datatype watch_case = WatchTimeout | WatchTick

datatype verdict = TimedOut | Completed | Failed

text \<open>The goroutine of \<open>submitCycle\<close>, by the cases its \<open>select\<close> takes; \<open>None\<close> while it goes on.\<close>

fun watch_cycle :: "(bytes option \<Rightarrow> CycleReport res) \<Rightarrow> CycleReport \<Rightarrow> string \<Rightarrow> watch_case list \<Rightarrow> 'w engine \<Rightarrow>
    verdict option \<times> 'w engine" where
  "watch_cycle unm zero wid [] g = (None, g)"
| "watch_cycle unm zero wid (WatchTimeout # cs) g = (Some TimedOut, g)"
| "watch_cycle unm zero wid (WatchTick # cs) g =
     (case Result unm zero wid g of
        (Inl err, g) \<Rightarrow> watch_cycle unm zero wid cs g
      | (Inr result, g) \<Rightarrow>
          if res_Status result = ''completed'' then (Some Completed, g)
          else if res_Status result = ''failed'' then (Some Failed, g)
          else watch_cycle unm zero wid cs g)"

subsection \<open>Configuration\<close>

datatype log_level = LevelDebug | LevelInfo | LevelWarn | LevelError

record Config =
  cfg_WorkDir :: string
  cfg_ArchiveDir :: string
  cfg_PipePath :: string
  cfg_CycleInterval :: duration
  cfg_ServerAddr :: string
  cfg_OTLPEndpoint :: string
  cfg_LogLevel :: log_level

text \<open>An environment variable that is not set reads as the empty string.\<close>

definition getEnvOrDefault :: "(string \<Rightarrow> string) \<Rightarrow> string \<Rightarrow> string \<Rightarrow> string" where
  "getEnvOrDefault Getenv key defaultVal = (if Getenv key \<noteq> '''' then Getenv key else defaultVal)"

definition parseDurationOrDefault :: "(string \<Rightarrow> duration res) \<Rightarrow> string \<Rightarrow> duration \<Rightarrow> duration" where
  "parseDurationOrDefault ParseDuration val defaultVal = (case ParseDuration val of Inl err \<Rightarrow> defaultVal | Inr d \<Rightarrow> d)"

definition parseLogLevel :: "string \<Rightarrow> log_level" where
  "parseLogLevel level =
     (if level = ''debug'' then LevelDebug else if level = ''warn'' then LevelWarn
      else if level = ''error'' then LevelError else LevelInfo)"

fun strip_first :: "string list \<Rightarrow> string \<Rightarrow> string" where
  "strip_first [] endpoint = endpoint"
| "strip_first (p # ps) endpoint =
     (if length endpoint > length p \<and> take (length p) endpoint = p then drop (length p) endpoint else strip_first ps endpoint)"

definition trimScheme :: "string \<Rightarrow> string" where
  "trimScheme = strip_first [''http://'', ''https://'']"

definition LoadConfig :: "(string \<Rightarrow> string) \<Rightarrow> (string \<Rightarrow> duration res) \<Rightarrow> Config" where
  "LoadConfig Getenv ParseDuration =
     \<lparr>cfg_WorkDir = getEnvOrDefault Getenv ''WORK_DIR'' ''/data/work'',
      cfg_ArchiveDir = getEnvOrDefault Getenv ''ARCHIVE_DIR'' ''/data/archive'',
      cfg_PipePath = getEnvOrDefault Getenv ''PIPE_PATH'' ''/data/events.pipe'',
      cfg_CycleInterval = parseDurationOrDefault ParseDuration (getEnvOrDefault Getenv ''CYCLE_INTERVAL'' ''30s'') (30 * second),
      cfg_ServerAddr = getEnvOrDefault Getenv ''SERVER_ADDR'' '':9001'',
      cfg_OTLPEndpoint = Getenv ''OTEL_EXPORTER_OTLP_ENDPOINT'',
      cfg_LogLevel = parseLogLevel (getEnvOrDefault Getenv ''LOG_LEVEL'' ''info'')\<rparr>"

text \<open>What the ticker loop of \<open>main\<close> submits in its n-th round, counted from one.\<close>

definition cycle_request :: "Config \<Rightarrow> int \<Rightarrow> CycleRequest" where
  "cycle_request config cycleNum = \<lparr>WorkDir = cfg_WorkDir config, ArchiveDir = cfg_ArchiveDir config, CycleNum = cycleNum\<rparr>"

end
