(* ===== verification/Interference.thy ===== *)
theory Interference
  imports ParallelBranches
begin

section \<open>Branches that interfere\<close>

text \<open>
  Rely and guarantee for the processes of \<open>Parallel\<close>: what a branch does as long as the others change
  the environment only within its rely. A schedule interleaves the branches action by action, so a
  branch that is safe from the environment it starts in meets its guarantee with every action and has
  its result hold when it has ended, provided that the guarantee of each branch is within the rely of
  every other.
\<close>

inductive safe :: "('w env \<Rightarrow> 'w env \<Rightarrow> bool) \<Rightarrow> ('w env \<Rightarrow> 'w env \<Rightarrow> bool) \<Rightarrow> ('a \<Rightarrow> 'w env \<Rightarrow> bool) \<Rightarrow>
    ('a, 'w) proc \<Rightarrow> 'w env \<Rightarrow> bool" for R G Q where
  returned: "(\<And>e'. R e e' \<Longrightarrow> Q a e') \<Longrightarrow> safe R G Q (Ret a) e"
| acts: "(\<And>e'. R e e' \<Longrightarrow> G e' (snd (f e')) \<and> safe R G Q (fst (f e')) (snd (f e'))) \<Longrightarrow> safe R G Q (Act f) e"

inductive_cases safe_RetE: "safe R G Q (Ret a) e"
inductive_cases safe_ActE: "safe R G Q (Act f) e"

lemma safe_Act:
  "safe R G Q (Act f) e \<Longrightarrow> R e e' \<Longrightarrow> G e' (snd (f e')) \<and> safe R G Q (fst (f e')) (snd (f e'))"
  by (blast elim: safe_ActE)

text \<open>What a branch relies on may happen at any time, also before its next action.\<close>

lemma safe_later:
  assumes "safe R G Q p e" and "R e e'" and "transp R"
  shows "safe R G Q p e'"
  using assms(1)
proof cases
  case returned
  then show ?thesis using assms(2,3) by (auto intro: safe.returned elim: transpE)
next
  case (acts f)
  then show ?thesis using assms(2,3) by (auto intro: safe.acts elim: transpE)
qed

lemma safe_bind:
  assumes "safe R G Q p e" and "\<And>a e'. Q a e' \<Longrightarrow> safe R G Q' (k a) e'" and "reflp R"
  shows "safe R G Q' (bind p k) e"
  using assms(1)
proof induction
  case (returned e a)
  then show ?case using assms(2,3) by (auto dest: reflpD)
next
  case (acts e f)
  show ?case
    unfolding bind.simps
    by (rule safe.acts) (use acts in \<open>simp add: map_prod_def case_prod_unfold\<close>)
qed

lemma safe_act:
  assumes "\<And>e'. R e e' \<Longrightarrow> G e' (snd (f e'))" and "\<And>e' e''. R e e' \<Longrightarrow> R (snd (f e')) e'' \<Longrightarrow> Q (fst (f e')) e''"
  shows "safe R G Q (act f) e"
  unfolding act_def by (rule safe.acts) (use assms in \<open>auto simp: case_prod_unfold Let_def intro: safe.returned\<close>)

lemma bind_bind: "bind (bind p k) l = bind p (\<lambda>a. bind (k a) l)"
proof (induction p)
  case (Act f)
  have "bind (bind (fst (f e)) k) l = bind (fst (f e)) (\<lambda>a. bind (k a) l)" for e
    by (rule Act [of "f e"]) (simp_all add: Basic_BNFs.fsts.simps prod_eq_iff)
  then show ?case by (simp add: map_prod_def case_prod_unfold comp_def)
qed simp

lemma join_errors_ok: "join_errors errs = Inr () \<Longrightarrow> set errs \<subseteq> {None}"
proof -
  assume "join_errors errs = Inr ()"
  then have "failures errs = []" "suspensions errs = []" by (auto simp: join_errors_eq split: list.splits)
  then show ?thesis
  proof (induction errs)
    case (Cons x errs)
    then show ?case by (cases x) (auto split: if_splits option.splits)
  qed simp
qed

subsection \<open>The contract of the branches\<close>

text \<open>
  What branches that share an environment promise each other: whatever one of them may do, the others
  allow for.
\<close>

locale sharing =
  fixes n :: nat
    and R :: "nat \<Rightarrow> 'w env \<Rightarrow> 'w env \<Rightarrow> bool"
    and G :: "nat \<Rightarrow> 'w env \<Rightarrow> 'w env \<Rightarrow> bool"
  assumes rely_refl: "i < n \<Longrightarrow> reflp (R i)"
    and rely_trans: "i < n \<Longrightarrow> transp (R i)"
    and allowed: "i < n \<Longrightarrow> j < n \<Longrightarrow> i \<noteq> j \<Longrightarrow> G i e e' \<Longrightarrow> R j e e'"
begin

text \<open>One action of one process.\<close>

lemma safe_sched_step:
  assumes "\<And>i. i < n \<Longrightarrow> safe (R i) (G i) (Q i) (ps ! i) e" and "length ps = n"
    and "sched_step k (ps, e) = (ps', e')"
  shows "length ps' = n \<and> (\<forall>i < n. safe (R i) (G i) (Q i) (ps' ! i) e')"
proof (cases "k < n \<and> (\<exists>f. ps ! k = Act f)")
  case False
  then have "ps' = ps \<and> e' = e" using assms(2,3) by (auto simp: sched_step_def split: proc.splits if_splits)
  then show ?thesis using assms(1,2) by simp
next
  case True
  then obtain f where f: "k < n" "ps ! k = Act f" by blast
  then have eq: "ps' = ps[k := fst (f e)]" "e' = snd (f e)" using assms(2,3) by (simp_all add: sched_step_def)
  from f assms(1) [of k] have "safe (R k) (G k) (Q k) (Act f) e" by simp
  then have own: "G k e e'" "safe (R k) (G k) (Q k) (fst (f e)) e'"
    using safe_Act [of "R k" "G k" "Q k" f e e] rely_refl [OF f(1)] by (auto simp: eq(2) dest: reflpD)
  have "safe (R i) (G i) (Q i) (ps' ! i) e'" if "i < n" for i
  proof (cases "i = k")
    case False
    with allowed [of k i] f(1) that own(1) have "R i e e'" by simp
    then show ?thesis using safe_later [OF assms(1) [OF that]] rely_trans [OF that] False by (simp add: eq(1))
  qed (use own f(1) assms(2) in \<open>simp add: eq(1)\<close>)
  then show ?thesis using assms(2) by (simp add: eq(1))
qed

lemma safe_schedule:
  assumes "fold sched_step sched (ps, e) = (ps', e')" and "length ps = n"
    and "\<And>i. i < n \<Longrightarrow> safe (R i) (G i) (Q i) (ps ! i) e"
  shows "length ps' = n \<and> (\<forall>i < n. safe (R i) (G i) (Q i) (ps' ! i) e')"
  using assms
proof (induction sched arbitrary: ps e)
  case (Cons k sched)
  obtain ps1 e1 where step: "sched_step k (ps, e) = (ps1, e1)" by fastforce
  have "length ps1 = n \<and> (\<forall>i < n. safe (R i) (G i) (Q i) (ps1 ! i) e1)"
    by (rule safe_sched_step [OF Cons.prems(3,2) step])
  moreover have "fold sched_step sched (ps1, e1) = (ps', e')" using Cons.prems(1) step by simp
  ultimately show ?case using Cons.IH [of ps1 e1] by simp
qed simp

text \<open>When \<open>Parallel\<close> succeeds, what every branch promises of a success holds in the end.\<close>

lemma Parallel_success:
  assumes "Parallel wc branches sched e = Some (Inr (), e')" and "length branches = n"
    and "\<And>i. i < n \<Longrightarrow> safe (R i) (G i) (Q i) (branch_proc wc (branches ! i)) e"
    and "i < n"
  shows "Q i (Inr ()) e'"
proof -
  obtain ps rs where run: "fold sched_step sched (map (branch_proc wc) branches, e) = (ps, e')"
    and rs: "those (map proc_result ps) = Some rs" "join_errors (map err_of rs) = Inr ()"
    using assms(1) by (auto simp: Parallel_def split: prod.splits option.splits)
  have safe: "length ps = n \<and> (\<forall>i < n. safe (R i) (G i) (Q i) (ps ! i) e')"
    using safe_schedule [OF run, where Q = Q] assms(2,3) by simp
  have ps: "ps = map Ret rs" using rs(1) by (rule all_returned)
  with safe assms(4) have "i < length rs" by simp
  moreover from this have "err_of (rs ! i) = None" using join_errors_ok [OF rs(2)] by force
  ultimately have "ps ! i = Ret (Inr ())" by (simp add: ps err_of_def split: sum.splits)
  with safe assms(4) rely_refl show ?thesis by (metis safe_RetE reflpD)
qed

end

end
