(* ===== verification/FileOpsTheorems.thy ===== *)
theory FileOpsTheorems
  imports FileOps Interference Examples
begin

section \<open>Properties of the file operations example\<close>

text \<open>
  What the steps of a cycle record of the files, that the variables shared by the branches are set
  when \<open>Parallel\<close> has succeeded, how an event from the pipe finds its cycle, and what becomes of a
  cycle that is cancelled.
\<close>

subsection \<open>The steps\<close>

lemma type_loop_dom: "dom (fst (type_loop os files m w)) = dom m \<union> fe_Name ` set files"
  by (induction files arbitrary: m w) (auto split: prod.split sum.split)

lemma checksum_loop_dom: "dom (fst (checksum_loop os files m w)) = dom m \<union> fe_Name ` set files"
  by (induction files arbitrary: m w) (auto split: prod.split sum.split)

lemma size_loop_dom:
  "dom m \<subseteq> dom (fst (size_loop os files m w)) \<and> dom (fst (size_loop os files m w)) \<subseteq> dom m \<union> fe_Name ` set files"
proof (induction files arbitrary: m w)
  case (Cons f fs)
  obtain r w' where r: "Command os [''du'', ''-b'', fe_Path f] w = (r, w')" by fastforce
  define m1 where "m1 = (case r of Inl err \<Rightarrow> m
    | Inr out \<Rightarrow> (case first_field out of None \<Rightarrow> m | Some part \<Rightarrow> m(fe_Name f \<mapsto> scan_int64 part)))"
  have eq: "size_loop os (f # fs) m w = size_loop os fs m1 w'"
    by (cases r) (simp_all add: r m1_def)
  have "dom m \<subseteq> dom m1" "dom m1 \<subseteq> insert (fe_Name f) (dom m)"
    unfolding m1_def by (auto split: sum.splits option.splits)
  then show ?case using Cons [of m1 w'] unfolding eq list.set image_insert by blast
qed simp

lemma move_loop_bounds:
  "count \<le> fst (move_loop os d files count w) \<and> fst (move_loop os d files count w) \<le> count + int (length files)"
proof (induction files arbitrary: count w)
  case (Cons f fs)
  obtain r w' where r: "Command os [''mv'', fe_Path f, path_join [d, fe_Name f]] w = (r, w')" by fastforce
  show ?case using r Cons [of count w'] Cons [of "count + 1" w'] by (auto split: sum.split)
qed simp

text \<open>C28: what the steps of a cycle record covers the files that were found, whatever commands and reads fail: the types and
  the checksums have an entry for every file and for nothing else, the sizes for files only, and the number
  of archived files is between zero and the number of files.\<close>

theorem every_file_is_recorded:
  "(\<exists>m. fst (detect_types os files w) = Returned (Inr (Some m)) \<and> dom m = fe_Name ` set files) \<and>
   (\<exists>m. fst (compute_checksums os files w) = Returned (Inr (Some m)) \<and> dom m = fe_Name ` set files) \<and>
   (\<exists>m. fst (measure_sizes os files w) = Returned (Inr (Some m)) \<and> dom m \<subseteq> fe_Name ` set files) \<and>
   ((\<exists>err. fst (archive_files os req name files w) = Returned (Inl err)) \<or>
    (\<exists>n. fst (archive_files os req name files w) = Returned (Inr (Some n)) \<and> 0 \<le> n \<and> n \<le> int (length files)))"
proof (intro conjI)
  show "\<exists>m. fst (detect_types os files w) = Returned (Inr (Some m)) \<and> dom m = fe_Name ` set files"
    using type_loop_dom [of os files Map.empty w] by (simp add: detect_types_def case_prod_unfold Let_def)
  show "\<exists>m. fst (compute_checksums os files w) = Returned (Inr (Some m)) \<and> dom m = fe_Name ` set files"
    using checksum_loop_dom [of os files Map.empty w] by (simp add: compute_checksums_def case_prod_unfold Let_def)
  show "\<exists>m. fst (measure_sizes os files w) = Returned (Inr (Some m)) \<and> dom m \<subseteq> fe_Name ` set files"
    using size_loop_dom [of Map.empty os files w] by (simp add: measure_sizes_def case_prod_unfold Let_def)
  show "(\<exists>err. fst (archive_files os req name files w) = Returned (Inl err)) \<or>
    (\<exists>n. fst (archive_files os req name files w) = Returned (Inr (Some n)) \<and> 0 \<le> n \<and> n \<le> int (length files))"
    using move_loop_bounds [of 0 os "path_join [ArchiveDir req, name]" files]
    by (auto simp: archive_files_def case_prod_unfold Let_def split: sum.split)
qed

text \<open>An identifier with fewer than eight characters makes the first step of a cycle panic before any command runs.\<close>

theorem short_id_panics:
  assumes "length cycleID < 8"
  shows "seed_files os req cycleID w = (short_id cycleID, w)"
  using assms by (simp add: seed_files_def upt_rec)

definition os1 :: "nat os" where
  "os1 = \<lparr>Command = (\<lambda>_ w. (Inr ''7'', Suc w)), ReadDir = (\<lambda>_ w. (Inr [], w)), ReadFile = (\<lambda>_ w. (Inr '''', w)),
     WriteFile = (\<lambda>_ _ w. (Inr (), w)), MkdirAll = (\<lambda>_ w. (Inr (), w)), RemoveAll = (\<lambda>_ w. w), Sum256 = (\<lambda>d. d),
     UnixNano = (\<lambda>w. (0, w)), MarshalIndent = (\<lambda>_. Inr '''')\<rparr>"

definition cycle1 :: CycleRequest where
  "cycle1 = \<lparr>WorkDir = ''/data/work'', ArchiveDir = ''/data/archive'', CycleNum = 7\<rparr>"

theorem short_id_panics_witness:
  "fst (seed_files os1 cycle1 ''c1'' 0) = Panicked ''runtime error: slice bounds out of range [:8] with length 2'' ''''"
  by (subst short_id_panics) (simp_all add: short_id_def dec_nat_small, code_simp)

subsection \<open>The shared variables\<close>

text \<open>The variables of the branches are changed by \<open>assign\<close> alone.\<close>

abbreviation vars :: "('w \<times> captured) env \<Rightarrow> captured" where
  "vars e \<equiv> snd (world e)"

lemma vars_on_store [simp]: "world (snd (on_store f e)) = world e"
  by (simp add: on_store_def case_prod_unfold Let_def)

lemma vars_nowFunc [simp]: "world (snd (nowFunc e)) = world e"
  by (simp add: nowFunc_def)

lemma vars_idFunc [simp]: "world (snd (idFunc e)) = world e"
  by (simp add: idFunc_def)

lemma vars_trackStep [simp]: "world (snd (trackStep n e)) = world e"
  by (simp add: trackStep_def)

lemma vars_lookup [simp]: "world (snd (lookup_step wc n e)) = world e"
  unfolding lookup_step_def case_prod_unfold by (simp split: option.split sum.split)

lemma vars_save [simp]: "world (snd (save_result wc n d e)) = world e"
  by (simp add: save_result_def case_prod_unfold Let_def)

lemma vars_on_os [simp]: "vars (snd (on_os f e)) = vars e"
  by (simp add: on_os_def on_world_def case_prod_unfold Let_def)

lemma vars_assign [simp]: "vars (snd (assign f e)) = f (vars e)"
  by (simp add: assign_def on_world_def case_prod_unfold Let_def)

text \<open>\<open>Run\<close> as one expression over the parts of its pairs.\<close>

lemma Run_pairs:
  "Run cd wc name fn e =
     (let n = resolveStepName wc name; x1 = trackStep n e; x2 = on_store (GetSignal (wc_id wc)) (snd x1);
          x3 = lookup_step wc n (snd x2); x4 = fn (snd x3)
      in case fst x1 of Inl err \<Rightarrow> (Inl err, snd x1) | Inr _ \<Rightarrow>
         case fst x2 of Inl err \<Rightarrow> (Inl (WrapError (''check signal for step '' @ go_quote n) err), snd x2) | Inr signal \<Rightarrow>
         if signal = SignalCancelRequested then (Inl ErrCancelled, snd x2) else
         case fst x3 of Inl err \<Rightarrow> (Inl err, snd x3) | Inr (Some c) \<Rightarrow> (cache_hit cd n c, snd x3) | Inr None \<Rightarrow>
         case panicToError (fst x4) of Inl err \<Rightarrow> (Inl err, snd x4) | Inr result \<Rightarrow>
         case marshal cd result of
           Inl err \<Rightarrow> (Inl (WrapError (''marshal step '' @ go_quote n @ '' result'') err), snd x4)
         | Inr data \<Rightarrow>
             (case fst (save_result wc n data (snd x4)) of
                Inl err \<Rightarrow> (Inl (WrapError (''save step '' @ go_quote n @ '' result'') err), snd (save_result wc n data (snd x4)))
              | Inr _ \<Rightarrow> (Inr result, snd (save_result wc n data (snd x4)))))"
  unfolding Run_def cache_miss_def Let_def case_prod_unfold by (rule refl)

lemma vars_Run:
  assumes "\<And>e. vars (snd (fn e)) = vars e"
  shows "vars (snd (Run cd wc name fn e)) = vars e"
  unfolding Run_pairs Let_def
  by (simp add: assms split: sum.split option.split)

lemma Run_gives_value:
  assumes "\<And>e. fst (fn e) \<noteq> Returned (Inr None)"
  shows "fst (Run cd wc name fn e) \<noteq> Inr None"
proof -
  have some: "panicToError (fst (fn e)) = Inr v \<Longrightarrow> v \<noteq> None" for e v using assms [of e] by (cases "fst (fn e)") auto
  show ?thesis
    unfolding Run_pairs Let_def by (auto simp: cache_hit_not_nil dest: some split: sum.split option.split)
qed

lemma on_os_result [simp]: "fst (on_os f e) = fst (f (fst (world e)))"
  by (simp add: on_os_def on_world_def case_prod_unfold Let_def)

text \<open>No step of a cycle returns a nil pointer.\<close>

lemma seed_loop_value: "fst (seed_loop os req i ns c w) \<noteq> Returned (Inr None)"
  by (induction ns arbitrary: c w) (auto simp: short_id_def Let_def split: prod.split sum.split)

lemma steps_give_values:
  "fst (seed_files os req i w) \<noteq> Returned (Inr None)" "fst (scan_directory os req w) \<noteq> Returned (Inr None)"
  "fst (detect_types os files w) \<noteq> Returned (Inr None)" "fst (compute_checksums os files w) \<noteq> Returned (Inr None)"
  "fst (measure_sizes os files w) \<noteq> Returned (Inr None)" "fst (write_manifest os req m w) \<noteq> Returned (Inr None)"
  "fst (archive_files os req name files w) \<noteq> Returned (Inr None)" "fst (cleanup_archives os req w) \<noteq> Returned (Inr None)"
  by (simp_all add: seed_files_def seed_loop_value scan_directory_def detect_types_def compute_checksums_def measure_sizes_def
      write_manifest_def archive_files_def cleanup_archives_def Let_def case_prod_unfold split: sum.split)

text \<open>
  A branch owns one variable: it relies on the others leaving that variable alone and changes no other
  one; when it succeeds, the variable is set.
\<close>

datatype shared_var = Types | Checksums | Sizes

fun var_set :: "shared_var \<Rightarrow> captured \<Rightarrow> bool" where
  "var_set Types c = (types c \<noteq> None)"
| "var_set Checksums c = (checksums c \<noteq> None)"
| "var_set Sizes c = (sizes c \<noteq> None)"

fun same_var :: "shared_var \<Rightarrow> captured \<Rightarrow> captured \<Rightarrow> bool" where
  "same_var Types c c' = (types c = types c')"
| "same_var Checksums c c' = (checksums c = checksums c')"
| "same_var Sizes c c' = (sizes c = sizes c')"

definition keeps_var :: "shared_var \<Rightarrow> ('w \<times> captured) env \<Rightarrow> ('w \<times> captured) env \<Rightarrow> bool" where
  "keeps_var x e e' \<longleftrightarrow> same_var x (vars e) (vars e')"

definition keeps_others :: "shared_var \<Rightarrow> ('w \<times> captured) env \<Rightarrow> ('w \<times> captured) env \<Rightarrow> bool" where
  "keeps_others x e e' \<longleftrightarrow> (\<forall>y. y \<noteq> x \<longrightarrow> keeps_var y e e')"

lemma keeps_var_rely: "reflp (keeps_var x) \<and> transp (keeps_var x)"
  by (cases x) (auto simp: keeps_var_def intro!: reflpI transpI)

lemma same_var_refl [simp]: "same_var x c c"
  by (cases x) simp_all

lemma same_var_set: "same_var x c c' \<Longrightarrow> var_set x c' = var_set x c"
  by (cases x) simp_all

text \<open>An action that leaves the variables alone.\<close>

lemma safe_quiet_act:
  assumes "\<And>e. vars (snd (f e)) = vars e" and "\<And>e. Q (fst (f e))"
  shows "safe (keeps_var x) (keeps_others x) (\<lambda>a _. Q a) (act f) e"
  by (rule safe_act) (simp_all add: assms keeps_others_def keeps_var_def)

lemma safe_Ret: "Q a \<Longrightarrow> safe R G (\<lambda>a _. Q a) (Ret a) e"
  by (rule safe.returned)

lemmas safe_then = safe_bind [OF safe_quiet_act [where Q = "\<lambda>_. True"] _ conjunct1 [OF keeps_var_rely]]

lemma safe_Run_proc:
  assumes "\<And>e. vars (snd (fn e)) = vars e" and "\<And>e. fst (fn e) \<noteq> Returned (Inr None)"
  shows "safe (keeps_var x) (keeps_others x) (\<lambda>r _. r \<noteq> Inr None) (Run_proc cd wc name fn) e"
proof -
  have some: "panicToError (fst (fn e)) \<noteq> Inr None" for e using assms(2) [of e] by (cases "fst (fn e)") auto
  have saved: "safe (keeps_var x) (keeps_others x) (\<lambda>r _. r \<noteq> Inr None)
      (case panicToError out of Inl err \<Rightarrow> Ret (Inl err) | Inr result \<Rightarrow>
         (case marshal cd result of
            Inl err \<Rightarrow> Ret (Inl (WrapError (''marshal step '' @ go_quote n @ '' result'') err))
          | Inr data \<Rightarrow> bind (act (save_result wc n data)) (\<lambda>r. case r of
                Inl err \<Rightarrow> Ret (Inl (WrapError (''save step '' @ go_quote n @ '' result'') err))
              | Inr _ \<Rightarrow> Ret (Inr result)))) e" if "panicToError out \<noteq> Inr None" for out n e
    using that by (auto intro!: safe_Ret safe_then split: sum.split)
  have ran: "safe (keeps_var x) (keeps_others x) (\<lambda>r _. r \<noteq> Inr None)
      (bind (act fn) (\<lambda>out. case panicToError out of Inl err \<Rightarrow> Ret (Inl err) | Inr result \<Rightarrow>
         (case marshal cd result of
            Inl err \<Rightarrow> Ret (Inl (WrapError (''marshal step '' @ go_quote n @ '' result'') err))
          | Inr data \<Rightarrow> bind (act (save_result wc n data)) (\<lambda>r. case r of
                Inl err \<Rightarrow> Ret (Inl (WrapError (''save step '' @ go_quote n @ '' result'') err))
              | Inr _ \<Rightarrow> Ret (Inr result))))) e" for n e
    by (rule safe_bind [OF safe_quiet_act [where Q = "\<lambda>out. panicToError out \<noteq> Inr None"] saved conjunct1 [OF keeps_var_rely]])
      (simp_all add: assms(1) some)
  show ?thesis
    unfolding Run_proc_def Let_def
    by (auto simp: cache_hit_not_nil intro!: safe_Ret safe_then ran split: sum.split option.split)
qed

lemma safe_step_branch:
  assumes "\<And>w. fst (fn w) \<noteq> Returned (Inr None)"
    and "\<And>r c y. y \<noteq> x \<Longrightarrow> same_var y c (store_result r c)" and "\<And>v c. var_set x (store_result (Some v) c)"
  shows "safe (keeps_var x) (keeps_others x) (\<lambda>r e. r = Inr () \<longrightarrow> var_set x (vars e))
    (branch_proc wc (step_branch name cd step fn store_result)) e"
proof -
  let ?safe = "safe (keeps_var x) (keeps_others x) (\<lambda>r e. r = Inr () \<longrightarrow> var_set x (vars e))"
  let ?done = "\<lambda>r e. (\<exists>v. r = Inr (Some v)) \<longrightarrow> var_set x (vars e)"
  have assigned: "safe (keeps_var x) (keeps_others x) (\<lambda>_. ?done r)
      (act (assign (store_result (case r of Inl _ \<Rightarrow> None | Inr v \<Rightarrow> v)))) e" for r e
    by (rule safe_act) (auto simp: keeps_others_def keeps_var_def assms(2,3) dest: same_var_set)
  have last: "?safe (bind (act (assign (store_result (case r of Inl _ \<Rightarrow> None | Inr v \<Rightarrow> v))))
      (\<lambda>_. bind (Ret (Returned (map_sum id (\<lambda>_. ()) r))) (\<lambda>out. Ret (panicToError out)))) e"
    if "r \<noteq> Inr None" for r e
    by (rule safe_bind [OF assigned _ conjunct1 [OF keeps_var_rely]], unfold bind.simps, rule safe.returned)
      (use that in \<open>cases r; auto simp: keeps_var_def dest: same_var_set\<close>)
  show ?thesis
    unfolding branch_proc_def step_branch_def branch.simps bind_bind
    by (rule safe_bind [OF safe_Run_proc last conjunct1 [OF keeps_var_rely]]) (use assms(1) in auto)
qed

abbreviation owned :: "nat \<Rightarrow> shared_var" where
  "owned i \<equiv> [Types, Checksums, Sizes] ! i"

lemma step_branches_safe:
  assumes "i < 3"
  shows "safe (keeps_var (owned i)) (keeps_others (owned i)) (\<lambda>r e. r = Inr () \<longrightarrow> var_set (owned i) (vars e))
     (branch_proc wc (wrangler_branches js os files ! i)) e"
proof -
  have same: "y \<noteq> Types \<Longrightarrow> same_var y c (c\<lparr>types := r\<rparr>)" "y \<noteq> Checksums \<Longrightarrow> same_var y c (c\<lparr>checksums := s\<rparr>)"
    "y \<noteq> Sizes \<Longrightarrow> same_var y c (c\<lparr>sizes := z\<rparr>)" for y r s z c
    by (cases y; simp)+
  from assms consider "i = 0" | "i = 1" | "i = 2" by linarith
  then show ?thesis
    by cases (simp_all only: wrangler_branches_def nth_Cons_0 nth_Cons_numeral One_nat_def nth_Cons_Suc numeral_2_eq_2,
      (rule safe_step_branch; simp add: steps_give_values same)+)
qed

interpretation wrangler: sharing 3 "\<lambda>i. keeps_var (owned i)" "\<lambda>i. keeps_others (owned i)"
  by unfold_locales (auto simp: keeps_var_rely keeps_others_def nth_eq_iff_index_eq)

text \<open>
  When \<open>Parallel\<close> has succeeded, every variable its branches share is set: no branch undid what another
  assigned, and none succeeded without assigning.
\<close>

lemma branches_set:
  assumes "Parallel wc (wrangler_branches js os files) sched e = Some (Inr (), e')"
  shows "types (vars e') \<noteq> None \<and> checksums (vars e') \<noteq> None \<and> sizes (vars e') \<noteq> None"
proof -
  have "length (wrangler_branches js os files) = 3" by (simp add: wrangler_branches_def)
  from wrangler.Parallel_success [OF assms this, where Q = "\<lambda>i r e. r = Inr () \<longrightarrow> var_set (owned i) (vars e)"]
  have "var_set (owned i) (vars e')" if "i < 3" for i using step_branches_safe that by blast
  from this [of 0] this [of 1] this [of 2] show ?thesis by simp
qed

subsection \<open>A cycle does not panic\<close>

definition panics :: "'a go_outcome \<Rightarrow> bool" where
  "panics out \<longleftrightarrow> (\<exists>v stack. out = Panicked v stack)"

lemma panics_simps [simp]: "\<not> panics (Returned r)" "panics (Panicked v stack)"
  by (simp_all add: panics_def)

lemma deref_calm: "r \<noteq> Inr None \<Longrightarrow> \<not> panics (deref r)"
  by (auto simp: deref_def split: sum.split option.split)

lemma and_then_calm:
  assumes "\<not> panics (fst x)" and "\<And>v wc e. x = (Returned (Inr v), wc, e) \<Longrightarrow> \<not> panics (fst (k v wc e))"
  shows "\<not> panics (fst (and_then x k))"
  using assms by (cases x; cases "fst x") (auto simp: and_then_def continue_def split: sum.split)

lemma and_then_may_calm:
  assumes "\<not> panics (fst x)"
    and "\<And>v wc e out e'. x = (Returned (Inr v), wc, e) \<Longrightarrow> k v wc e = Some (out, e') \<Longrightarrow> \<not> panics out"
    and "and_then_may x k = Some (out, e')"
  shows "\<not> panics out"
  using assms by (cases x; cases "fst x") (auto simp: and_then_may_def split: sum.splits)

lemma as_call_calm [simp]: "\<not> panics (fst (as_call f wc e))"
  by (simp add: as_call_def case_prod_unfold Let_def)

lemma as_call_cases:
  "as_call f wc e = (Returned (Inr v), wc', e') \<Longrightarrow> fst (f wc e) = Inr v \<and> e' = snd (f wc e)"
  by (auto simp: as_call_def case_prod_unfold Let_def)

text \<open>The calls of a workflow do not panic, whatever is cached, and leave the variables alone.\<close>

lemma ProviderGet_calm: "\<not> panics (fst (ProviderGet cd wc p gen e))"
  unfolding ProviderGet_def Let_def case_prod_unfold fst_conv
  by (rule deref_calm, rule Run_gives_value) (simp split: go_outcome.split sum.split)

lemma ProviderGet_vars:
  assumes "\<And>e. vars (snd (gen e)) = vars e"
  shows "vars (snd (snd (ProviderGet cd wc p gen e))) = vars e"
  unfolding ProviderGet_def Let_def case_prod_unfold snd_conv
  by (rule vars_Run) (simp add: assms split: go_outcome.split sum.split)

lemma TimeNow_calm: "\<not> panics (fst (TimeNow cd wc e))" and TimeNow_vars: "vars (snd (snd (TimeNow cd wc e))) = vars e"
  unfolding TimeNow_def Let_def case_prod_unfold fst_conv snd_conv
  by (rule ProviderGet_calm, rule ProviderGet_vars) simp

lemma IDNew_calm: "\<not> panics (fst (IDNew cd wc e))"
  unfolding IDNew_def Let_def case_prod_unfold fst_conv by (rule ProviderGet_calm)

lemma SleepUntil_calm: "\<not> panics (fst (SleepUntil cd wc t e))" and SleepUntil_vars: "vars (snd (snd (SleepUntil cd wc t e))) = vars e"
proof -
  let ?wc = "wc\<lparr>sleepCounter := Suc (sleepCounter wc)\<rparr>"
  let ?r = "Run cd ?wc (step_number ''_sleep.until'' (sleepCounter ?wc)) (\<lambda>e. (Returned (Inr (Some t)), e)) e"
  have r: "fst ?r \<noteq> Inr None" "vars (snd ?r) = vars e" by (rule Run_gives_value, simp) (rule vars_Run, simp)
  then show "\<not> panics (fst (SleepUntil cd wc t e))" "vars (snd (snd (SleepUntil cd wc t e))) = vars e"
    unfolding SleepUntil_def Let_def case_prod_unfold
    by (auto simp: deref_def split: sum.split option.split)
qed

lemma WaitForEvent_vars: "vars (snd (WaitForEvent cd wc n k t e)) = vars e"
proof -
  have "vars (snd (subscribe wc m k t e)) = vars e" for m and e :: "('w \<times> captured) env"
    unfolding subscribe_def Let_def case_prod_unfold by (simp split: sum.split)
  then have "vars (snd (Run cd wc n (subscribe wc (resolveStepName wc n) k t) e)) = vars e" by (rule vars_Run)
  then show ?thesis unfolding WaitForEvent_def Let_def case_prod_unfold by (simp split: sum.split)
qed

definition all_set :: "captured \<Rightarrow> bool" where
  "all_set c \<longleftrightarrow> types c \<noteq> None \<and> checksums c \<noteq> None \<and> sizes c \<noteq> None"

lemma cycle_report_calm:
  assumes "all_set c" and "archived \<noteq> None" and "manifestPath \<noteq> None"
  shows "\<not> panics (cycle_report req i t files archived c manifestPath b)"
  using assms by (auto simp: cycle_report_def all_set_def)

lemma cleanup_calm:
  assumes "all_set (vars e)" and "\<And>c b. all_set c \<Longrightarrow> \<not> panics (report c b)"
  shows "\<not> panics (fst (wrangle_cleanup js os req report signal wc e))"
proof -
  let ?r = "Run (fj_flag js) wc ''cleanup-archives'' (on_os (cleanup_archives os req)) e"
  have "vars (snd ?r) = vars e" by (rule vars_Run) simp
  then have "all_set (vars (snd ?r))" using assms(1) by simp
  then show ?thesis
    using assms unfolding wrangle_cleanup_def Let_def case_prod_unfold
    by (simp split: option.split sum.split)
qed

lemma archive_calm:
  assumes "all_set (vars e)" and "manifestPath \<noteq> None"
  shows "\<not> panics (fst (wrangle_archive js os req cycleID cycleStart files name manifestPath wc e))"
  unfolding wrangle_archive_def
proof (rule and_then_calm [OF SleepUntil_calm], rule and_then_calm [OF as_call_calm], rule and_then_calm [OF TimeNow_calm])
  fix u wc1 e1 archived wc2 e2 t wc3 e3
  assume slept: "SleepUntil (fj_time js) wc (add_time cycleStart (5 * second)) e = (Returned (Inr u), wc1, e1)"
    and moved: "as_call (\<lambda>wc. Run (fj_count js) wc ''archive-files'' (on_os (archive_files os req name files))) wc1 e1 =
      (Returned (Inr archived), wc2, e2)"
    and timed: "TimeNow (fj_time js) wc2 e2 = (Returned (Inr t), wc3, e3)"
  have "vars e1 = vars e" using SleepUntil_vars [of "fj_time js" wc "add_time cycleStart (5 * second)" e] slept by simp
  moreover have "archived \<noteq> None" "vars e2 = vars e1"
    using as_call_cases [OF moved] Run_gives_value [of "on_os (archive_files os req name files)" "fj_count js" wc1 "''archive-files''" e1]
      vars_Run [of "on_os (archive_files os req name files)" "fj_count js" wc1 "''archive-files''" e1]
    by (auto simp: steps_give_values)
  moreover have "vars e3 = vars e2" using TimeNow_vars [of "fj_time js" wc2 e2] timed by simp
  moreover let ?w = "WaitForEvent (fj_signal js) wc3 ''await-cleanup'' (cleanup_key (CycleNum req)) (15 * second) e3"
  have "vars (snd ?w) = vars e3" by (rule WaitForEvent_vars)
  ultimately have "all_set (vars (snd ?w))" "archived \<noteq> None" using assms(1) by simp_all
  then have "\<not> panics (fst (wrangle_cleanup js os req
      (\<lambda>c. cycle_report req cycleID cycleStart files archived c manifestPath) signal wc3 (snd ?w)))" for signal
    by (intro cleanup_calm cycle_report_calm assms(2))
  then show "\<not> panics (fst (let report = \<lambda>c. cycle_report req cycleID cycleStart files archived c manifestPath;
      (r, e) = ?w in case r of
          Inl err \<Rightarrow> if \<not> is_event_timeout err then (Returned (Inl err), e) else wrangle_cleanup js os req report None wc3 e
        | Inr signal \<Rightarrow> wrangle_cleanup js os req report signal wc3 e))"
    unfolding Let_def case_prod_unfold
    by (simp split: sum.split)
qed

lemma manifest_calm:
  assumes "all_set (vars e)"
  shows "\<not> panics (fst (wrangle_manifest js os req cycleID cycleStart files wc e))"
  unfolding wrangle_manifest_def
proof (rule and_then_calm, goal_cases)
  case 1
  show ?case unfolding Let_def case_prod_unfold fst_conv by (rule ProviderGet_calm)
next
  case (2 name wc1 e1)
  have "vars (snd (on_os (archive_name os) e)) = vars e" for e :: "('a \<times> captured) env" by simp
  then have "vars e1 = vars e"
    using 2 ProviderGet_vars [of "on_os (archive_name os)" "fj_text js" wc "NewProvider ''archive-name''" e]
    by (auto simp: Let_def case_prod_unfold)
  with assms have set: "all_set (vars e1)" by simp
  let ?fn = "on_os (write_manifest os req \<lparr>m_cycle_id = cycleID, m_timestamp = cycleStart, m_files = files, m_captured = vars e1\<rparr>)"
  show ?case
  proof (rule and_then_calm [OF as_call_calm])
    fix p wc2 e2
    assume "as_call (\<lambda>wc. Run (fj_text js) wc ''write-manifest'' ?fn) wc1 e1 = (Returned (Inr p), wc2, e2)"
    then have "p \<noteq> None" "vars e2 = vars e1"
      using as_call_cases Run_gives_value [of ?fn "fj_text js" wc1 "''write-manifest''" e1]
        vars_Run [of ?fn "fj_text js" wc1 "''write-manifest''" e1]
      by (fastforce simp: steps_give_values)+
    then show "\<not> panics (fst (wrangle_archive js os req cycleID cycleStart files name p wc2 e2))"
      using set by (intro archive_calm) simp_all
  qed
qed

lemma files_calm:
  assumes "wrangle_files js os sched req cycleID cycleStart files wc e = Some (out, e')"
  shows "\<not> panics out"
proof (cases "Parallel wc (wrangler_branches js os files) sched (snd (assign (\<lambda>_. unassigned) e))")
  case None
  then show ?thesis using assms by (auto simp: wrangle_files_def split: if_splits)
next
  case (Some x)
  obtain r e1 where x: "x = (r, e1)" by (cases x)
  show ?thesis
  proof (cases r)
    case (Inl err)
    then show ?thesis using assms Some x by (auto simp: wrangle_files_def split: if_splits)
  next
    case (Inr u)
    with Some x have "Parallel wc (wrangler_branches js os files) sched (snd (assign (\<lambda>_. unassigned) e)) = Some (Inr (), e1)"
      by simp
    then have "all_set (vars e1)" unfolding all_set_def by (rule branches_set)
    from manifest_calm [OF this, of js os req cycleID cycleStart files wc] show ?thesis
      using assms Some x Inr by (auto simp: wrangle_files_def split: if_splits)
  qed
qed

lemma Execute_calm:
  assumes "wrangler_Execute js os sched req wc e = Some (out, e')"
  shows "\<not> panics out"
  using assms unfolding wrangler_Execute_def
proof (rule and_then_may_calm [OF TimeNow_calm, rotated])
  fix t wc1 e1 out e'
  assume "and_then_may (IDNew (fj_id js) wc1 e1) (\<lambda>cycleID wc e.
     and_then_may (as_call (\<lambda>wc. Run (fj_count js) wc ''seed-files'' (on_os (seed_files os req cycleID))) wc e) (\<lambda>_ wc e.
     and_then_may (as_call (\<lambda>wc. Run (fj_files js) wc ''scan-directory'' (on_os (scan_directory os req))) wc e) (\<lambda>files wc e.
     case files of None \<Rightarrow> Some (nil_dereference, e)
     | Some files \<Rightarrow> wrangle_files js os sched req cycleID t files wc e))) = Some (out, e')"
  then show "\<not> panics out"
  proof (rule and_then_may_calm [OF IDNew_calm, rotated])
    fix i wc2 e2 out e'
    assume "and_then_may (as_call (\<lambda>wc. Run (fj_count js) wc ''seed-files'' (on_os (seed_files os req i))) wc2 e2) (\<lambda>_ wc e.
     and_then_may (as_call (\<lambda>wc. Run (fj_files js) wc ''scan-directory'' (on_os (scan_directory os req))) wc e) (\<lambda>files wc e.
     case files of None \<Rightarrow> Some (nil_dereference, e)
     | Some files \<Rightarrow> wrangle_files js os sched req i t files wc e)) = Some (out, e')"
    then show "\<not> panics out"
    proof (rule and_then_may_calm [OF as_call_calm, rotated], elim and_then_may_calm [OF as_call_calm, rotated])
      fix c wc3 e3 files wc4 e4 out e'
      assume scan: "as_call (\<lambda>wc. Run (fj_files js) wc ''scan-directory'' (on_os (scan_directory os req))) wc3 e3 =
          (Returned (Inr files), wc4, e4)"
        and rest: "(case files of None \<Rightarrow> Some (nil_dereference, e4)
          | Some files \<Rightarrow> wrangle_files js os sched req i t files wc4 e4) = Some (out, e')"
      have "files \<noteq> None"
        using as_call_cases [OF scan] Run_gives_value [of "on_os (scan_directory os req)" "fj_files js" wc3 "''scan-directory''" e3]
        by (auto simp: steps_give_values)
      with rest show "\<not> panics out" by (auto dest: files_calm)
    qed
  qed
qed

lemma and_then_may_ends:
  assumes "\<And>v wc e. \<exists>sched. k sched v wc e \<noteq> None"
  shows "\<exists>sched. and_then_may x (k sched) \<noteq> None"
proof (cases x)
  case (fields out wc e)
  show ?thesis
  proof (cases "\<exists>v. out = Returned (Inr v)")
    case True
    then show ?thesis using assms by (auto simp: and_then_may_def fields)
  next
    case False
    then show ?thesis by (cases out) (auto simp: and_then_may_def fields split: sum.split)
  qed
qed

lemma Parallel_ends: "\<exists>sched. Parallel wc branches sched e \<noteq> None"
proof -
  obtain sched where "fold sched_step sched (map (branch_proc wc) branches, e) =
      (map Ret (fst (run_ops (map run_alone (map (branch_proc wc) branches)) e)),
       snd (run_ops (map run_alone (map (branch_proc wc) branches)) e))"
    using run_from [of "[]" "map (branch_proc wc) branches" e] by auto
  then show ?thesis by (intro exI [of _ sched]) (simp add: Parallel_def those_results del: map_map)
qed

lemma wrangle_files_ends: "\<exists>sched. wrangle_files js os sched req cycleID cycleStart files wc e \<noteq> None"
proof -
  obtain sched where "Parallel wc (wrangler_branches js os files) sched (snd (assign (\<lambda>_. unassigned) e)) \<noteq> None"
    using Parallel_ends by blast
  then show ?thesis
    by (intro exI [of _ sched]) (auto simp: wrangle_files_def split: option.split prod.split sum.split)
qed

lemma scanned_ends:
  "\<exists>sched. (case files of None \<Rightarrow> Some (nil_dereference, e)
     | Some files \<Rightarrow> wrangle_files js os sched req cycleID cycleStart files wc e) \<noteq> None"
  using wrangle_files_ends by (cases files) fastforce+

text \<open>C26: a cycle never panics, and it can end: whatever the steps return, whatever is cached, and however the
  branches are interleaved, no pointer that \<open>Execute\<close> dereferences is nil; and for every state there is an
  interleaving under which it ends with a report or an error.\<close>

theorem cycle_ends_without_panic:
  "wrangler_Execute js os sched req wc e \<noteq> Some (Panicked v stack, e') \<and>
   (\<exists>sched r e'. wrangler_Execute js os sched req wc e = Some (Returned r, e'))"
proof -
  have "\<exists>sched. wrangler_Execute js os sched req wc e \<noteq> None"
    unfolding wrangler_Execute_def
    by (intro and_then_may_ends) (rule scanned_ends)
  then obtain sched out e1 where run: "wrangler_Execute js os sched req wc e = Some (out, e1)" by fastforce
  moreover obtain r where "out = Returned r" using Execute_calm [OF run] by (cases out) auto
  ultimately show ?thesis using Execute_calm [of js os _ req wc e "Panicked v stack" e'] by fastforce
qed

subsection \<open>The event bridge\<close>

lemma go_dec_char:
  assumes "c \<in> set (go_dec n)"
  shows "\<not> is_space c"
proof -
  have "is_digit c \<or> c = CHR ''-''" using assms dec_nat_digits by (auto simp: go_dec_def split: if_splits)
  then show ?thesis by (auto simp: is_space_def is_digit_iff)
qed

lemma go_dec_nonempty: "go_dec n \<noteq> []"
  by (simp add: go_dec_def dec_nat_nonempty)

lemma go_dec_inject: "go_dec m = go_dec n \<Longrightarrow> m = n"
proof -
  have no_minus: "hd (dec_nat k) \<noteq> CHR ''-''" for k
    using dec_nat_digits [of "hd (dec_nat k)" k] dec_nat_nonempty [of k] by (auto simp: is_digit_iff)
  assume "go_dec m = go_dec n"
  then show ?thesis
    using no_minus [of "nat m"] no_minus [of "nat n"]
    by (auto simp: go_dec_def split: if_splits) (metis list.sel(1))+
qed

lemma trim_space_blanks:
  assumes "\<forall>c \<in> set l \<union> set r. is_space c" and "\<forall>c \<in> set t. \<not> is_space c" and "t \<noteq> []"
  shows "trim_space (l @ t @ r) = t"
proof -
  have first: "dropWhile is_space (l @ t @ r) = t @ r"
    using assms by (cases t) (simp_all add: dropWhile_append)
  have "\<exists>x xs. rev t = x # xs \<and> \<not> is_space x" using assms(2,3) by (cases "rev t") (auto dest: arg_cong [where f = set])
  then have "dropWhile is_space (rev r @ rev t) = rev t"
    using assms(1) by (auto simp: dropWhile_append)
  then show ?thesis by (simp add: trim_space_def first)
qed

text \<open>C27: a line of the pipe reaches the cycle whose number it holds, whatever blanks stand around the number, and no
  other cycle: the payload becomes the result of the waiting step, the subscription is gone, and the
  subscriptions of other cycles stay.\<close>

theorem bridge_reaches_waiter:
  assumes "row_at k_correlation_key (cleanup_key n) (subscriptions (the_store (the_env g))) = Some b"
    and "no_fault (the_store (the_env g))" and "marshalSignal (bridge_payload (go_dec n)) = Inr data"
    and "\<forall>c \<in> set l \<union> set r. is_space c"
  defines "s' \<equiv> the_store (the_env (bridge_line marshalSignal (l @ go_dec n @ r) g))"
  shows "(\<exists>t. row_at step_key (k_type b, k_version b, k_workflow_id b, k_step_name b) (step_results s') =
      Some (event_row b (Some data) '''' t)) \<and>
    row_at k_correlation_key (cleanup_key n) (subscriptions s') = None \<and>
    (\<forall>m. m \<noteq> n \<longrightarrow> row_at k_correlation_key (cleanup_key m) (subscriptions s') =
      row_at k_correlation_key (cleanup_key m) (subscriptions (the_store (the_env g))))"
proof -
  let ?s = "the_store (the_env g)" and ?x = "ResumeSubscription (cleanup_key n) (Some data) (the_store (the_env g))"
  have "trim_space (l @ go_dec n @ r) = go_dec n"
    using assms(4) by (rule trim_space_blanks) (auto simp: go_dec_char go_dec_nonempty)
  then have "s' = snd ?x"
    unfolding s'_def bridge_line_def
    by (simp add: Let_def SendEvent_def assms(3) go_dec_nonempty case_prod_unfold on_store_def cleanup_key_def split: sum.split)
  moreover have ok: "?x = (Inr (), snd ?x)"
    using ResumeSubscription_known [OF assms(1,2)] by (metis prod.collapse)
  ultimately have s': "?x = (Inr (), s')" by simp
  from ResumeSubscription_ok [OF this] assms(1) obtain t where
    t: "step_results s' = replace_step (event_row b (Some data) '''' t) (step_results ?s)"
      "subscriptions s' = delete_sub (cleanup_key n) (subscriptions ?s)" by auto
  have "row_at k_correlation_key (cleanup_key m) (subscriptions s') = row_at k_correlation_key (cleanup_key m) (subscriptions ?s)"
    if "m \<noteq> n" for m
    unfolding t(2) by (rule delete_sub_other) (use that in \<open>auto simp: cleanup_key_def dest: go_dec_inject\<close>)
  then show ?thesis
    by (simp add: t row_at_replace_step) (auto simp: step_key_def event_row_def)
qed

subsection \<open>A cancelled cycle\<close>

text \<open>A cancellation that reaches a cycle between its wait and its cleanup is lost: the cleanup step fails with
  \<open>ErrCancelled\<close>, and the cycle completes with its report as if there had been nothing to clean up.\<close>

theorem cancel_before_cleanup_is_lost:
  assumes "no_fault (the_store e)" and "row_at c_id (wc_id wc) (workflows (the_store e)) = Some w"
    and "c_signal w = SignalCancelRequested" and "resolveStepName wc ''cleanup-archives'' \<notin> seenSteps e"
  shows "fst (Run (fj_flag js) wc ''cleanup-archives'' (on_os (cleanup_archives os req)) e) = Inl ErrCancelled \<and>
    fst (wrangle_cleanup js os req report (Some sig) wc e) = report (vars e) False"
proof -
  let ?run = "Run (fj_flag js) wc ''cleanup-archives'' (on_os (cleanup_archives os req)) e"
  have "fst ?run = Inl ErrCancelled"
    using assms by (simp add: Run_pairs Let_def trackStep_def on_store_def GetSignal_def db_call_no_fault)
  moreover have "vars (snd ?run) = vars e" by (rule vars_Run) simp
  ultimately show ?thesis
    unfolding wrangle_cleanup_def Let_def case_prod_unfold by simp
qed

lemma Get_tables: "tables_of (snd (Get wid s)) = tables_of s"
  unfolding Get_def by (rule db_call_tables) (auto split: option.split)

lemma get_record_tables: "tables_of (the_store (the_env (snd (get_record wid g)))) = tables_of (the_store (the_env g))"
  using Get_tables [of wid "the_store (the_env g)"]
  by (auto simp: get_record_def case_prod_unfold Let_def on_store_def split: sum.split)

lemma get_record_found:
  assumes "fst (get_record wid g) = Inr rc" and "row_at c_id wid (workflows (the_store (the_env g))) = Some w"
  shows "wr_Status rc = c_status w"
proof -
  have "fst (Get wid (the_store (the_env g))) = Inr rc"
    using assms(1) by (auto simp: get_record_def case_prod_unfold Let_def on_store_def split: sum.splits)
  then have "Get wid (the_store (the_env g)) = (Inr rc, snd (Get wid (the_store (the_env g))))" by (simp add: prod_eq_iff)
  then show ?thesis
    unfolding Get_def using assms(2) by (auto simp: scanWorkflow_def dest!: db_call_okD split: sum.splits)
qed

lemma Result_tables: "tables_of (the_store (the_env (snd (Result unm zero wid g)))) = tables_of (the_store (the_env g))"
  using get_record_tables [of wid g]
  unfolding Result_def case_prod_unfold Let_def by (simp split: sum.split)

lemma Result_status:
  assumes "fst (Result unm zero wid g) = Inr res" and "row_at c_id wid (workflows (the_store (the_env g))) = Some w"
    and "c_status w \<noteq> StatusPending"
  shows "WorkflowResult.res_Status res = c_status w"
proof -
  obtain rc where rc: "fst (get_record wid g) = Inr rc"
    using assms(1) unfolding Result_def case_prod_unfold by (auto split: sum.splits)
  then have "wr_Status rc = c_status w" using assms(2) by (rule get_record_found)
  with rc assms(1,3) show ?thesis
    unfolding Result_def case_prod_unfold Let_def by (auto simp: deriveStatus_def split: sum.splits if_splits)
qed

text \<open>The watch over a cycle that was cancelled does not notice: it goes on tick by tick, whatever the driver
  answers, until the two minutes are over, and then reports a timeout.\<close>

theorem cancelled_cycle_is_watched_to_the_end:
  assumes "row_at c_id wid (workflows (the_store (the_env g))) = Some w" and "c_status w = StatusCancelled"
  shows "fst (watch_cycle unm zero wid cs g) = (if WatchTimeout \<in> set cs then Some TimedOut else None)"
  using assms(1)
proof (induction cs arbitrary: g)
  case (Cons c cs)
  let ?x = "Result unm zero wid g"
  have same: "row_at c_id wid (workflows (the_store (the_env (snd ?x)))) = Some w"
    using Cons.prems Result_tables [of unm zero wid g] by (simp add: tables_of_eq_iff)
  have "WorkflowResult.res_Status res = ''cancelled''" if "fst ?x = Inr res" for res
    using Result_status [OF that Cons.prems] assms(2) by (simp add: status_defs)
  then show ?case
    using Cons.IH [OF same] by (cases c) (auto simp: case_prod_unfold split: sum.split)
qed simp

subsection \<open>Concrete cycles\<close>

definition sub7 :: sub_row where
  "sub7 = \<lparr>k_correlation_key = cleanup_key 7, k_workflow_id = ''w1'', k_type = ''file-wrangler'', k_version = ''v1'',
     k_step_name = ''await-cleanup'', k_deadline = formatTime noon, k_created_at = formatTime noon\<rparr>"

definition waiting7 :: "nat engine" where
  "waiting7 = default_engine 1 (env1\<lparr>the_store := store1\<lparr>subscriptions := [sub7]\<rparr>\<rparr>)"

theorem bridge_reaches_waiter_witness:
  "row_at k_correlation_key (cleanup_key 7) (subscriptions (the_store (the_env
     (bridge_line (\<lambda>sig. Inr (Reason sig)) ('' '' @ go_dec 7 @ ''  '') waiting7)))) = None"
  using bridge_reaches_waiter [of 7 waiting7 sub7 "\<lambda>sig. Inr (Reason sig)" "Reason (bridge_payload (go_dec 7))" "'' ''" "''  ''"]
  by (simp add: waiting7_def default_engine_def sub7_def is_space_def no_fault_def)

definition cycle_env1 :: "(nat \<times> captured) env" where
  "cycle_env1 = \<lparr>the_store = store1\<lparr>workflows := [row1\<lparr>c_signal := SignalCancelRequested\<rparr>]\<rparr>, seenSteps = {},
     engineNow = (\<lambda>_. noon), engineNows = 0, engineID = (\<lambda>n. dec_nat n), engineIDs = 0, world = (0, unassigned)\<rparr>"

definition no_codec :: "'v codec" where
  "no_codec = \<lparr>marshal = (\<lambda>_. Inr ''null''), unmarshal = (\<lambda>_. Inl (ErrorString ''not decoded''))\<rparr>"

definition file_json1 :: file_json where
  "file_json1 = \<lparr>fj_time = int_codec, fj_id = str_codec, fj_count = no_codec, fj_files = no_codec, fj_texts = no_codec,
     fj_sizes = no_codec, fj_text = str_codec, fj_signal = no_codec, fj_flag = no_codec\<rparr>"

definition report1 :: CycleReport where
  "report1 = \<lparr>cr_CycleID = '''', cr_CycleNum = 0, cr_StartedAt = zeroTime, cr_FilesProcessed = 0, cr_FilesArchived = 0,
     cr_Checksums = Map.empty, cr_Types = Map.empty, cr_Sizes = Map.empty, cr_ManifestPath = '''', cr_CleanedUp = False\<rparr>"

theorem cancel_before_cleanup_is_lost_witness:
  "fst (wrangle_cleanup file_json1 os1 cycle1 (\<lambda>c b. Returned (Inl (ErrorString (if b then ''cleaned'' else ''kept''))))
     (Some \<lparr>Reason = ''''\<rparr>) wctx1 cycle_env1) = Returned (Inl (ErrorString ''kept''))"
  using cancel_before_cleanup_is_lost [of cycle_env1 wctx1 "row1\<lparr>c_signal := SignalCancelRequested\<rparr>" file_json1 os1 cycle1
      "\<lambda>c b. Returned (Inl (ErrorString (if b then ''cleaned'' else ''kept'')))" "\<lparr>Reason = ''''\<rparr>"]
  by (simp add: cycle_env1_def no_fault_def row_at_def)

theorem cancelled_cycle_is_watched_to_the_end_witness:
  "fst (watch_cycle (\<lambda>_. Inl (ErrorString ''not decoded'')) report1 ''w1'' [WatchTick, WatchTick, WatchTimeout]
     (default_engine 1 (env1\<lparr>the_store := store1\<lparr>workflows := [row1\<lparr>c_status := StatusCancelled\<rparr>]\<rparr>\<rparr>))) = Some TimedOut"
  using cancelled_cycle_is_watched_to_the_end [of "''w1''"
      "default_engine 1 (env1\<lparr>the_store := store1\<lparr>workflows := [row1\<lparr>c_status := StatusCancelled\<rparr>]\<rparr>\<rparr>)"
      "row1\<lparr>c_status := StatusCancelled\<rparr>" "\<lambda>_. Inl (ErrorString ''not decoded'')" report1 "[WatchTick, WatchTick, WatchTimeout]"]
  by (simp add: default_engine_def row_at_def)

end
