(* ===== verification/Container.thy ===== *)
theory Container
  imports FileOps Construction
begin

section \<open>The assembly of the example\<close>

text \<open>
  How the file operations example is put together and runs: \<open>NewStore\<close> of \<^verbatim>\<open>sqlite/sqlite.go\<close>, the
  container of \<^verbatim>\<open>examples/fileops/container.go\<close>, whose parts are built once and when they are first
  asked for, and \<open>main\<close> with \<open>submitCycle\<close> of \<^verbatim>\<open>examples/fileops/main.go\<close>. The database driver and the
  exporters of telemetry are parameters that act on the platform \<open>'d\<close> and may fail at every call.
  \<open>os.Exit\<close> ends the process: what was being computed has no value then.
\<close>

subsection \<open>Opening a store\<close>

datatype statement = Pragma string | CreateTables

record 'd driver =
  sql_Open :: "string \<Rightarrow> 'd \<Rightarrow> unit res \<times> 'd"
  db_Ping :: "'d \<Rightarrow> unit res \<times> 'd"
  db_Exec :: "statement \<Rightarrow> 'd \<Rightarrow> unit res \<times> 'd"
  db_Close :: "'d \<Rightarrow> unit res \<times> 'd"

text \<open>What a \<open>Store\<close> has beside its database.\<close>

record Store =
  st_nowFn :: "nat \<Rightarrow> time"

type_synonym StoreOption = "Store \<Rightarrow> Store"

definition store_WithNowFunc :: "(nat \<Rightarrow> time) \<Rightarrow> StoreOption" where
  "store_WithNowFunc fn = (\<lambda>s. s\<lparr>st_nowFn := fn\<rparr>)"

definition migrate :: "('d, 'z) driver_scheme \<Rightarrow> 'd \<Rightarrow> unit res \<times> 'd" where
  "migrate drv d = (case db_Exec drv CreateTables d of (Inl err, d) \<Rightarrow> (Inl (WrapError ''create tables'' err), d) | (Inr _, d) \<Rightarrow> (Inr (), d))"

text \<open>A failure after the opening closes the database and drops the error of the closing.\<close>

definition close_after :: "('d, 'z) driver_scheme \<Rightarrow> gerror \<Rightarrow> 'd \<Rightarrow> 'a res \<times> 'd" where
  "close_after drv err d = (Inl err, snd (db_Close drv d))"

definition pragmas :: "string list" where
  "pragmas = [''PRAGMA journal_mode=WAL'', ''PRAGMA busy_timeout=5000'']"

fun run_pragmas :: "('d, 'z) driver_scheme \<Rightarrow> string list \<Rightarrow> 'd \<Rightarrow> unit res \<times> 'd" where
  "run_pragmas drv [] d = (Inr (), d)"
| "run_pragmas drv (p # ps) d =
     (case db_Exec drv (Pragma p) d of
        (Inl err, d) \<Rightarrow> close_after drv (WrapError p err) d
      | (Inr _, d) \<Rightarrow> run_pragmas drv ps d)"

text \<open>\<open>clock\<close> is what \<open>time.Now\<close> delivers.\<close>

definition NewStore :: "('d, 'z) driver_scheme \<Rightarrow> (nat \<Rightarrow> time) \<Rightarrow> string \<Rightarrow> StoreOption list \<Rightarrow> 'd \<Rightarrow> Store res \<times> 'd" where
  "NewStore drv clock dsn opts d =
     (case sql_Open drv dsn d of
        (Inl err, d) \<Rightarrow> (Inl (WrapError ''open sqlite'' err), d)
      | (Inr _, d) \<Rightarrow>
     (case db_Ping drv d of
        (Inl err, d) \<Rightarrow> close_after drv (WrapError ''ping sqlite'' err) d
      | (Inr _, d) \<Rightarrow>
     (case run_pragmas drv pragmas d of
        (Inl err, d) \<Rightarrow> (Inl err, d)
      | (Inr _, d) \<Rightarrow>
          let s = fold (\<lambda>opt s. opt s) opts \<lparr>st_nowFn = clock\<rparr> in
          (case migrate drv d of
             (Inl err, d) \<Rightarrow> close_after drv (WrapError ''migrate'' err) d
           | (Inr _, d) \<Rightarrow> (Inr s, d)))))"

definition store_Close :: "('d, 'z) driver_scheme \<Rightarrow> 'd \<Rightarrow> unit res \<times> 'd" where
  "store_Close drv = db_Close drv"

subsection \<open>The container\<close>

datatype shutdown = MeterShutdown | TracerShutdown

record 'd platform = "'d driver" +
  resource_New :: "'d \<Rightarrow> unit res \<times> 'd"
  prometheus_New :: "'d \<Rightarrow> unit res \<times> 'd"
  otlptracehttp_New :: "string \<Rightarrow> 'd \<Rightarrow> unit res \<times> 'd"
  Shutdown :: "shutdown \<Rightarrow> 'd \<Rightarrow> unit res \<times> 'd"
  os_MkdirAll :: "string \<Rightarrow> 'd \<Rightarrow> unit res \<times> 'd"
  os_Remove :: "string \<Rightarrow> 'd \<Rightarrow> unit res \<times> 'd"
  Mkfifo :: "string \<Rightarrow> 'd \<Rightarrow> unit res \<times> 'd"
  http_Shutdown :: "'d \<Rightarrow> unit res \<times> 'd"
  sys_clock :: "nat \<Rightarrow> time"
  sys_uuids :: "nat \<Rightarrow> string"
  sys_durations :: "nat \<Rightarrow> duration"

text \<open>
  The fields of \<open>state\<close>, each \<open>None\<close> before it is set, and the flags of \<open>once\<close>. A logger is known by its
  level, a mux by its routes, a server by its address and routes, a factory by its definition. The
  registry is the one of the engine; the global providers are those of the telemetry library.
\<close>

record 'w container =
  config :: Config
  otel_once :: bool
  metricsHandler :: bool
  shutdownOTEL :: "shutdown list option"
  meter_global :: bool
  tracer_global :: bool
  c_logger :: "log_level option"
  c_store :: "Store option"
  c_engine :: "log_level Engine option"
  c_registry :: "'w registry"
  c_factory :: "(CycleRequest, CycleReport, 'w) WorkflowDef option"
  c_mux :: "string list option"
  c_server :: "(string \<times> string list) option"

definition newContainer :: "Config \<Rightarrow> 'w container" where
  "newContainer cfg = \<lparr>config = cfg, otel_once = False, metricsHandler = False, shutdownOTEL = None, meter_global = False,
     tracer_global = False, c_logger = None, c_store = None, c_engine = None, c_registry = Map.empty, c_factory = None,
     c_mux = None, c_server = None\<rparr>"

text \<open>\<open>OTEL\<close>: its error is a variable of the call, so only the call that runs the \<open>once\<close> can return one.\<close>

definition setup_otel :: "'d platform \<Rightarrow> 'w container \<Rightarrow> 'd \<Rightarrow> gerror option \<times> 'w container \<times> 'd" where
  "setup_otel p c d =
     (case resource_New p d of
        (Inl err, d) \<Rightarrow> (Some err, c, d)
      | (Inr _, d) \<Rightarrow>
     (case prometheus_New p d of
        (Inl err, d) \<Rightarrow> (Some err, c, d)
      | (Inr _, d) \<Rightarrow>
          let c = c\<lparr>meter_global := True, metricsHandler := True\<rparr> in
          if cfg_OTLPEndpoint (config c) = '''' then (None, c\<lparr>shutdownOTEL := Some [MeterShutdown]\<rparr>, d)
          else (case otlptracehttp_New p (trimScheme (cfg_OTLPEndpoint (config c))) d of
                  (Inl err, d) \<Rightarrow> (Some err, c, d)
                | (Inr _, d) \<Rightarrow>
                    (None, c\<lparr>tracer_global := True, shutdownOTEL := Some [MeterShutdown, TracerShutdown]\<rparr>, d))))"

definition OTEL :: "'d platform \<Rightarrow> 'w container \<Rightarrow> 'd \<Rightarrow> (bool \<times> gerror option) \<times> 'w container \<times> 'd" where
  "OTEL p c d =
     (if otel_once c then ((metricsHandler c, None), c, d)
      else let (err, c, d) = setup_otel p c d in ((metricsHandler c, err), c\<lparr>otel_once := True\<rparr>, d))"

text \<open>The value of a call, or the end of the process.\<close>

datatype 'a process = Goes 'a | Exited int

definition Logger :: "'d platform \<Rightarrow> 'w container \<Rightarrow> 'd \<Rightarrow> (log_level \<times> 'w container \<times> 'd) process" where
  "Logger p c d =
     (case c_logger c of
        Some l \<Rightarrow> Goes (l, c, d)
      | None \<Rightarrow>
          (case OTEL p c d of
             ((_, Some err), _) \<Rightarrow> Exited 1
           | ((_, None), c, d) \<Rightarrow> let l = cfg_LogLevel (config c) in Goes (l, c\<lparr>c_logger := Some l\<rparr>, d)))"

definition container_Store :: "'d platform \<Rightarrow> 'w container \<Rightarrow> 'd \<Rightarrow> (Store \<times> 'w container \<times> 'd) process" where
  "container_Store p c d =
     (case c_store c of
        Some s \<Rightarrow> Goes (s, c, d)
      | None \<Rightarrow>
          (case NewStore p (sys_clock p) ''file::memory:?cache=shared'' [] d of
             (Inl err, d) \<Rightarrow> Exited 1
           | (Inr s, d) \<Rightarrow> Goes (s, c\<lparr>c_store := Some s\<rparr>, d)))"

definition container_options :: "log_level \<Rightarrow> log_level EngineOption list" where
  "container_options l = [WithWorkers 4, WithLogger l, WithDrainTimeout (10 * second)]"

definition container_Engine :: "'d platform \<Rightarrow> (CycleRequest, CycleReport, 'w) WorkflowDef \<Rightarrow> 'w container \<Rightarrow> 'd \<Rightarrow>
    (log_level Engine \<times> 'w container \<times> 'd) process" where
  "container_Engine p def c d =
     (case c_engine c of
        Some g \<Rightarrow> Goes (g, c, d)
      | None \<Rightarrow>
          (case container_Store p c d of
             Exited n \<Rightarrow> Exited n
           | Goes (_, c, d) \<Rightarrow>
          (case Logger p c d of
             Exited n \<Rightarrow> Exited n
           | Goes (l, c, d) \<Rightarrow>
               let g = NewEngine (sys_durations p) (sys_uuids p) (sys_clock p) (container_options l) in
               Goes (g, c\<lparr>c_registry := (c_registry c)(defName def \<mapsto> \<lparr>re_def = erase def, retryPolicy = DefaultRetryPolicy\<rparr>),
                 c_factory := Some def, c_engine := Some g\<rparr>, d))))"

definition container_Factory :: "'d platform \<Rightarrow> (CycleRequest, CycleReport, 'w) WorkflowDef \<Rightarrow> 'w container \<Rightarrow> 'd \<Rightarrow>
    ((CycleRequest, CycleReport, 'w) WorkflowDef option \<times> 'w container \<times> 'd) process" where
  "container_Factory p def c d =
     (case container_Engine p def c d of Exited n \<Rightarrow> Exited n | Goes (_, c, d) \<Rightarrow> Goes (c_factory c, c, d))"

definition Mux :: "'d platform \<Rightarrow> 'w container \<Rightarrow> 'd \<Rightarrow> string list \<times> 'w container \<times> 'd" where
  "Mux p c d =
     (case c_mux c of
        Some m \<Rightarrow> (m, c, d)
      | None \<Rightarrow>
          let ((handler, err), c, d) = OTEL p c d;
              m = ''GET /healthz'' # (if err = None \<and> handler then [''GET /metrics''] else [])
          in (m, c\<lparr>c_mux := Some m\<rparr>, d))"

definition Server :: "'d platform \<Rightarrow> 'w container \<Rightarrow> 'd \<Rightarrow> (string \<times> string list) \<times> 'w container \<times> 'd" where
  "Server p c d =
     (case c_server c of
        Some s \<Rightarrow> (s, c, d)
      | None \<Rightarrow>
          let (m, c, d) = Mux p c d; s = (cfg_ServerAddr (config c), m) in (s, c\<lparr>c_server := Some s\<rparr>, d))"

fun run_shutdowns :: "'d platform \<Rightarrow> shutdown list \<Rightarrow> 'd \<Rightarrow> gerror list \<times> 'd" where
  "run_shutdowns p [] d = ([], d)"
| "run_shutdowns p (f # fs) d =
     (let (r, d) = Shutdown p f d; (errs, d) = run_shutdowns p fs d
      in ((case r of Inl err \<Rightarrow> err # errs | Inr _ \<Rightarrow> errs), d))"

text \<open>An error of the shutdown is logged, through a nil pointer when no logger was built.\<close>

definition container_Close :: "'d platform \<Rightarrow> 'w container \<Rightarrow> 'd \<Rightarrow> unit go_outcome \<times> 'd" where
  "container_Close p c d =
     (case shutdownOTEL c of
        None \<Rightarrow> (Returned (Inr ()), d)
      | Some fs \<Rightarrow>
          let (errs, d) = run_shutdowns p fs d in
          (if errs \<noteq> [] \<and> c_logger c = None then nil_dereference else Returned (Inr ()), d))"

subsection \<open>\<open>main\<close>\<close>

text \<open>\<open>FileWranglerDef\<close>; \<open>execute\<close> is \<open>wrangler_Execute\<close> under the schedule its branches happen to have.\<close>

definition FileWranglerDef :: "(bytes option \<Rightarrow> CycleRequest res) \<Rightarrow> (CycleReport \<Rightarrow> bytes res) \<Rightarrow>
    (wctx \<Rightarrow> CycleRequest \<Rightarrow> (CycleReport go_outcome, 'w) act) \<Rightarrow> (CycleRequest, CycleReport, 'w) WorkflowDef" where
  "FileWranglerDef unm mar execute = Define ''file-wrangler'' ''v1'' unm mar execute"

text \<open>The goroutines that \<open>main\<close> starts.\<close>

datatype goroutine = EngineStart | HttpServer | EventBridge

text \<open>\<open>startEventBridge\<close> up to its goroutine: the pipe is made anew, and there is no bridge when it cannot be made.\<close>

definition startEventBridge :: "'d platform \<Rightarrow> string \<Rightarrow> 'd \<Rightarrow> goroutine list \<times> 'd" where
  "startEventBridge p pipePath d =
     (case Mkfifo p pipePath (snd (os_Remove p pipePath d)) of
        (Inl err, d) \<Rightarrow> ([], d)
      | (Inr _, d) \<Rightarrow> ([EventBridge], d))"

text \<open>The loop of that goroutine, by what it meets: the end of the context, a pipe that does not open, or a writer.\<close>

datatype bridge_case = BridgeDone | OpenFailed bool | Opened string

fun bridge_loop :: "(CleanupSignal \<Rightarrow> bytes res) \<Rightarrow> bridge_case list \<Rightarrow> 'w engine \<Rightarrow> bool \<times> 'w engine" where
  "bridge_loop marshalSignal [] g = (False, g)"
| "bridge_loop marshalSignal (BridgeDone # cs) g = (True, g)"
| "bridge_loop marshalSignal (OpenFailed cancelled # cs) g = (if cancelled then (True, g) else bridge_loop marshalSignal cs g)"
| "bridge_loop marshalSignal (Opened text # cs) g = bridge_loop marshalSignal cs (bridge_writer marshalSignal text g)"

text \<open>
  \<open>main\<close> up to the ticker: the container as it leaves it and the goroutines it has started, or the end
  of the process. Errors of making the directories are not looked at.
\<close>

definition main_setup :: "'d platform \<Rightarrow> (CycleRequest, CycleReport, 'w) WorkflowDef \<Rightarrow> Config \<Rightarrow> 'd \<Rightarrow>
    ('w container \<times> goroutine list \<times> 'd) process" where
  "main_setup p def cfg d =
     (case Logger p (newContainer cfg) d of
        Exited n \<Rightarrow> Exited n
      | Goes (_, c, d) \<Rightarrow>
          let d = snd (os_MkdirAll p (cfg_ArchiveDir cfg) (snd (os_MkdirAll p (cfg_WorkDir cfg) d))) in
     (case container_Engine p def c d of
        Exited n \<Rightarrow> Exited n
      | Goes (_, c, d) \<Rightarrow>
          let (_, c, d) = Server p c d; (bridge, d) = startEventBridge p (cfg_PipePath cfg) d in
     (case container_Factory p def c d of
        Exited n \<Rightarrow> Exited n
      | Goes (_, c, d) \<Rightarrow> Goes (c, EngineStart # HttpServer # bridge, d))))"

definition cycle_ticker :: "Config \<Rightarrow> duration go_outcome" where
  "cycle_ticker cfg = NewTicker (cfg_CycleInterval cfg)"

text \<open>\<open>submitCycle\<close> up to its goroutine: an error of the submission is only logged.\<close>

definition submitCycle :: "(CycleRequest, CycleReport, 'w) WorkflowDef \<Rightarrow> (CycleRequest \<Rightarrow> bytes res) \<Rightarrow> Config \<Rightarrow> int \<Rightarrow>
    'w engine \<Rightarrow> string res \<times> 'w engine" where
  "submitCycle def marshalReq cfg cycleNum g = Submit def marshalReq (cycle_request cfg cycleNum) [] g"

datatype main_case = MainDone | MainTicked

text \<open>
  The loop, by the cases its \<open>select\<close> takes, from the number of the last cycle: the answers of the
  submissions with their numbers, and whether \<open>main\<close> has left the loop. Between two rounds other
  goroutines change the engine: \<open>meanwhile\<close>.
\<close>

fun main_loop :: "(CycleRequest, CycleReport, 'w) WorkflowDef \<Rightarrow> (CycleRequest \<Rightarrow> bytes res) \<Rightarrow> Config \<Rightarrow> main_case list \<Rightarrow>
    ('w engine \<Rightarrow> 'w engine) list \<Rightarrow> int \<Rightarrow> 'w engine \<Rightarrow> (int \<times> string res) list \<times> bool \<times> 'w engine" where
  "main_loop def mar cfg cases meanwhile cycleNum g =
     (let cycleNum = cycleNum + 1; (r, g) = submitCycle def mar cfg cycleNum g in
      case (cases, meanwhile) of
        (MainTicked # cs, f # fs) \<Rightarrow>
          (let (rs, left, g) = main_loop def mar cfg cs fs cycleNum (f g) in ((cycleNum, r) # rs, left, g))
      | (MainDone # cs, _) \<Rightarrow> ([(cycleNum, r)], True, g)
      | _ \<Rightarrow> ([(cycleNum, r)], False, g))"

declare main_loop.simps [simp del]

text \<open>After the loop: the HTTP server and the exporters are shut down; nothing waits for the engine.\<close>

definition main_end :: "'d platform \<Rightarrow> 'w container \<Rightarrow> 'd \<Rightarrow> unit go_outcome \<times> 'd" where
  "main_end p c d = container_Close p c (snd (http_Shutdown p d))"

end
