(* ===== verification/ContainerTheorems.thy ===== *)
theory ContainerTheorems
  imports Container Examples
begin

section \<open>Properties of the assembly\<close>

text \<open>
  What is left open when a store cannot be opened, what \<open>main\<close> has built before its loop, and which
  cycles the loop submits.
\<close>

subsection \<open>Opening a store\<close>

lemma run_pragmas_count:
  fixes conns :: "'d \<Rightarrow> nat"
  assumes "\<And>q d. conns (snd (db_Exec drv q d)) = conns d" and "\<And>d. conns (snd (db_Close drv d)) = conns d - 1"
    and "run_pragmas drv ps d = (r, d')"
  shows "conns d' = (if r = Inr () then conns d else conns d - 1)"
  using assms(3)
proof (induction ps arbitrary: d)
  case (Cons p ps)
  obtain x d1 where x: "db_Exec drv (Pragma p) d = (x, d1)" by fastforce
  have "conns d1 = conns d" using assms(1) [of "Pragma p" d] x by simp
  then show ?case
    using Cons x assms(2) [of d1] by (cases x) (auto simp: close_after_def)
qed simp

text \<open>C29: opening a store leaks no connection: when the driver counts a connection for every database it opened and not
  yet closed, \<open>NewStore\<close> leaves one more open if it returns a store, and as many as before if it
  returns an error, at whatever call the driver failed.\<close>

theorem failed_open_leaks_nothing:
  fixes conns :: "'d \<Rightarrow> nat"
  assumes "\<And>dsn d. conns (snd (sql_Open drv dsn d)) = (if fst (sql_Open drv dsn d) = Inr () then conns d + 1 else conns d)"
    and "\<And>d. conns (snd (db_Ping drv d)) = conns d" and "\<And>q d. conns (snd (db_Exec drv q d)) = conns d"
    and "\<And>d. conns (snd (db_Close drv d)) = conns d - 1"
    and "NewStore drv clock dsn opts d = (r, d')"
  shows "conns d' = (case r of Inl err \<Rightarrow> conns d | Inr s \<Rightarrow> conns d + 1)"
proof (cases "sql_Open drv dsn d")
  case (Pair x1 d1)
  show ?thesis
  proof (cases x1)
    case (Inl err)
    then show ?thesis using Pair assms(1) [of dsn d] assms(5) by (auto simp: NewStore_def)
  next
    case (Inr u)
    then have c1: "conns d1 = conns d + 1" using Pair assms(1) [of dsn d] by simp
    obtain x2 d2 where p: "db_Ping drv d1 = (x2, d2)" by fastforce
    with assms(2) [of d1] c1 have c2: "conns d2 = conns d + 1" by simp
    obtain x3 d3 where q: "run_pragmas drv pragmas d2 = (x3, d3)" by fastforce
    from run_pragmas_count [OF assms(3,4) q] c2 have c3: "conns d3 = (if x3 = Inr () then conns d + 1 else conns d)" by simp
    obtain x4 d4 where m: "db_Exec drv CreateTables d3 = (x4, d4)" by fastforce
    with assms(3) [of CreateTables d3] have c4: "conns d4 = conns d3" by simp
    show ?thesis
      using assms(5) Pair Inr p q m c2 c3 c4 assms(4)
      by (auto simp: NewStore_def migrate_def close_after_def Let_def split: sum.splits)
  qed
qed

text \<open>A driver that counts its connections and fails at one statement.\<close>

definition counting :: "statement \<Rightarrow> nat driver" where
  "counting bad = \<lparr>sql_Open = (\<lambda>_ d. (Inr (), Suc d)), db_Ping = (\<lambda>d. (Inr (), d)),
     db_Exec = (\<lambda>q d. (if q = bad then Inl (DriverError ''disk I/O error'') else Inr (), d)),
     db_Close = (\<lambda>d. (Inr (), d - 1))\<rparr>"

theorem failed_open_leaks_nothing_witness:
  "\<exists>err. NewStore (counting CreateTables) (\<lambda>_. noon) '':memory:'' [] 4 = (Inl err, 4)"
proof -
  obtain r d' where r: "NewStore (counting CreateTables) (\<lambda>_. noon) '':memory:'' [] 4 = (r, d')" by fastforce
  then obtain err where err: "r = Inl err"
    by (auto simp: NewStore_def counting_def pragmas_def migrate_def close_after_def)
  have "d' = (case r of Inl err \<Rightarrow> 4 | Inr s \<Rightarrow> 4 + 1)"
    by (rule failed_open_leaks_nothing [where conns = "\<lambda>n. n", OF _ _ _ _ r]) (simp_all add: counting_def)
  with r err show ?thesis by simp
qed

subsection \<open>The container\<close>

lemma setup_otel_fields:
  assumes "setup_otel p c d = (err, c', d')"
  shows "config c' = config c" "c_logger c' = c_logger c" "c_store c' = c_store c" "c_engine c' = c_engine c"
    "c_registry c' = c_registry c" "c_factory c' = c_factory c" "c_mux c' = c_mux c" "c_server c' = c_server c"
    "otel_once c' = otel_once c"
    "err = None \<Longrightarrow> metricsHandler c' \<and> shutdownOTEL c' = Some (MeterShutdown #
      (if cfg_OTLPEndpoint (config c) = '''' then [] else [TracerShutdown]))"
  using assms by (auto simp: setup_otel_def Let_def split: prod.splits sum.splits if_splits)

lemma Logger_first:
  fixes c :: "'w container"
  assumes "Logger p (newContainer cfg) d = Goes (l, c, d')"
  shows "l = cfg_LogLevel cfg" "c_logger c = Some l" "config c = cfg" "otel_once c" "metricsHandler c"
    "c_store c = None" "c_engine c = None" "c_mux c = None" "c_server c = None"
    "shutdownOTEL c = Some (MeterShutdown # (if cfg_OTLPEndpoint cfg = '''' then [] else [TracerShutdown]))"
proof -
  obtain err d1 and c1 :: "'w container" where s: "setup_otel p (newContainer cfg) d = (err, c1, d1)" by (cases "setup_otel p (newContainer cfg :: 'w container) d")
  with assms have "err = None" and c: "c = c1\<lparr>otel_once := True, c_logger := Some l\<rparr>" "l = cfg_LogLevel (config c1)"
    by (auto simp: Logger_def OTEL_def newContainer_def Let_def split: option.splits)
  with setup_otel_fields [OF s]
  show "l = cfg_LogLevel cfg" "c_logger c = Some l" "config c = cfg" "otel_once c" "metricsHandler c"
    "c_store c = None" "c_engine c = None" "c_mux c = None" "c_server c = None"
    "shutdownOTEL c = Some (MeterShutdown # (if cfg_OTLPEndpoint cfg = '''' then [] else [TracerShutdown]))"
    by (simp_all add: newContainer_def)
qed

lemma Store_first:
  assumes "c_store c = None" and "\<And>n. container_Store p c d \<noteq> Exited n"
  obtains s d2 where "container_Store p c d = Goes (s, c\<lparr>c_store := Some s\<rparr>, d2)"
proof -
  obtain r d2 where "NewStore p (sys_clock p) ''file::memory:?cache=shared'' [] d = (r, d2)" by fastforce
  with assms that show thesis by (cases r) (auto simp: container_Store_def)
qed

text \<open>A part that was built is given again.\<close>

lemma built:
  "c_logger c = Some l \<Longrightarrow> Logger p c d = Goes (l, c, d)" "c_store c = Some s \<Longrightarrow> container_Store p c d = Goes (s, c, d)"
  "c_engine c = Some g \<Longrightarrow> container_Engine p def c d = Goes (g, c, d)" "c_server c = Some v \<Longrightarrow> Server p c d = (v, c, d)"
  by (simp_all add: Logger_def container_Store_def container_Engine_def Server_def)

text \<open>C30: when \<open>main\<close> reaches its loop, everything is built, from one configuration and once: the engine has four workers
  everywhere and drains for ten seconds, the workflow is registered under its name with the default
  retry policy, the server serves health and metrics, the shutdown covers every exporter that was made,
  and whoever asks the container again gets the same parts without another call of the platform.\<close>

theorem main_assembles:
  fixes c :: "'w container"
  assumes "main_setup p def cfg d = Goes (c, started, d')"
  shows "\<exists>g s. c_engine c = Some g \<and> c_store c = Some s \<and> c_logger c = Some (cfg_LogLevel cfg) \<and>
    f_workers (e_fields g) = 4 \<and> f_drainTimeout (e_fields g) = 10 * second \<and> f_logger (e_fields g) = c_logger c \<and>
    e_pool g = Default (NewPondPool 4) \<and> (\<exists>sch. e_scheduler g = Default sch \<and> ps_Limit sch = 4) \<and>
    c_factory c = Some def \<and> c_registry c (defName def) = Some \<lparr>re_def = erase def, retryPolicy = DefaultRetryPolicy\<rparr> \<and>
    c_server c = Some (cfg_ServerAddr cfg, [''GET /healthz'', ''GET /metrics'']) \<and>
    set started \<supseteq> {EngineStart, HttpServer} \<and>
    shutdownOTEL c = Some (MeterShutdown # (if cfg_OTLPEndpoint cfg = '''' then [] else [TracerShutdown])) \<and>
    (\<forall>d2. container_Engine p def c d2 = Goes (g, c, d2) \<and> container_Store p c d2 = Goes (s, c, d2) \<and>
       Logger p c d2 = Goes (cfg_LogLevel cfg, c, d2) \<and>
       Server p c d2 = ((cfg_ServerAddr cfg, [''GET /healthz'', ''GET /metrics'']), c, d2))"
proof -
  obtain l d1 and c1 :: "'w container" where log: "Logger p (newContainer cfg) d = Goes (l, c1, d1)"
    using assms by (auto simp: main_setup_def split: process.splits)
  note f = Logger_first [OF log]
  define d0 where "d0 = snd (os_MkdirAll p (cfg_ArchiveDir cfg) (snd (os_MkdirAll p (cfg_WorkDir cfg) d1)))"
  have "container_Store p c1 d0 \<noteq> Exited n" for n
    using assms f(7) by (auto simp: main_setup_def log d0_def container_Engine_def)
  with f(6) obtain s d2 where st: "container_Store p c1 d0 = Goes (s, c1\<lparr>c_store := Some s\<rparr>, d2)" by (rule Store_first)
  define g where "g = NewEngine (sys_durations p) (sys_uuids p) (sys_clock p) (container_options l)"
  define c2 where "c2 = c1\<lparr>c_store := Some s,
    c_registry := (c_registry c1)(defName def \<mapsto> \<lparr>re_def = erase def, retryPolicy = DefaultRetryPolicy\<rparr>),
    c_factory := Some def, c_engine := Some g\<rparr>"
  let ?routes = "[''GET /healthz'', ''GET /metrics'']"
  define c3 where "c3 = c2\<lparr>c_mux := Some ?routes, c_server := Some (cfg_ServerAddr cfg, ?routes)\<rparr>"
  have "container_Engine p def c1 d0 = Goes (g, c2, d2)"
    using f(2,7) by (simp add: container_Engine_def st built(1) g_def c2_def Let_def)
  moreover have "Server p c2 d2 = ((cfg_ServerAddr cfg, ?routes), c3, d2)"
    using f(3,4,5,8,9) by (simp add: Server_def Mux_def OTEL_def c2_def c3_def Let_def)
  moreover have e: "c_engine c3 = Some g" by (simp add: c2_def c3_def)
  ultimately have c: "c = c3" "set started \<supseteq> {EngineStart, HttpServer}"
    using assms by (auto simp: main_setup_def log d0_def container_Factory_def built(3) Let_def split: prod.splits)
  have g: "f_workers (e_fields g) = 4" "f_drainTimeout (e_fields g) = 10 * second" "f_logger (e_fields g) = Some l"
    "e_pool g = Default (NewPondPool 4)" "\<exists>sch. e_scheduler g = Default sch \<and> ps_Limit sch = 4"
    by (simp_all add: g_def NewEngine_def chosen_def container_options_def WithWorkers_def WithLogger_def
        WithDrainTimeout_def default_fields_def Let_def)
  have c3: "c_store c3 = Some s" "c_logger c3 = Some (cfg_LogLevel cfg)" "c_factory c3 = Some def"
    "c_registry c3 (defName def) = Some \<lparr>re_def = erase def, retryPolicy = DefaultRetryPolicy\<rparr>"
    "c_server c3 = Some (cfg_ServerAddr cfg, ?routes)"
    "shutdownOTEL c3 = Some (MeterShutdown # (if cfg_OTLPEndpoint cfg = '''' then [] else [TracerShutdown]))"
    using f(1,2,10) by (simp_all add: c3_def c2_def)
  then show ?thesis
    unfolding c(1) using c(2) g f(1) e by (intro exI [of _ g] exI [of _ s]) (simp add: built)
qed

definition platform1 :: "nat platform" where
  "platform1 = \<lparr>sql_Open = (\<lambda>_ d. (Inr (), Suc d)), db_Ping = (\<lambda>d. (Inr (), d)), db_Exec = (\<lambda>_ d. (Inr (), d)),
     db_Close = (\<lambda>d. (Inr (), d - 1)), resource_New = (\<lambda>d. (Inr (), d)), prometheus_New = (\<lambda>d. (Inr (), d)),
     otlptracehttp_New = (\<lambda>_ d. (Inr (), d)), Shutdown = (\<lambda>_ d. (Inr (), d)), os_MkdirAll = (\<lambda>_ d. (Inr (), d)), os_Remove = (\<lambda>_ d. (Inr (), d)),
     Mkfifo = (\<lambda>_ d. (Inr (), d)), http_Shutdown = (\<lambda>d. (Inr (), d)), sys_clock = (\<lambda>_. noon),
     sys_uuids = (\<lambda>n. dec_nat n), sys_durations = (\<lambda>_. 0)\<rparr>"

definition config1 :: Config where
  "config1 = LoadConfig (\<lambda>_. '''') (\<lambda>_. Inr (30 * second))"

definition wrangler1 :: "(CycleRequest, CycleReport, nat) WorkflowDef" where
  "wrangler1 = FileWranglerDef (\<lambda>_. Inl (ErrorString ''not decoded'')) (\<lambda>_. Inr '''')
     (\<lambda>wc req e. (Returned (Inl ErrCancelled), e))"

theorem main_assembles_witness:
  "\<exists>c. main_setup platform1 wrangler1 config1 0 = Goes (c, [EngineStart, HttpServer, EventBridge], 1) \<and>
     c_server c = Some ('':9001'', [''GET /healthz'', ''GET /metrics''])"
proof -
  have addr: "cfg_ServerAddr config1 = '':9001''" by (simp add: config1_def LoadConfig_def getEnvOrDefault_def)
  obtain c where c: "main_setup platform1 wrangler1 config1 0 = Goes (c, [EngineStart, HttpServer, EventBridge], 1)"
    by (simp add: main_setup_def Logger_def newContainer_def OTEL_def setup_otel_def platform1_def config1_def LoadConfig_def
        container_Engine_def container_Store_def NewStore_def pragmas_def migrate_def Server_def Mux_def container_Factory_def
        startEventBridge_def getEnvOrDefault_def Let_def)
  from main_assembles [OF c] addr have "c_server c = Some ('':9001'', [''GET /healthz'', ''GET /metrics''])" by auto
  with c show ?thesis by blast
qed

text \<open>
  The exporter of metrics that was made is never shut down when the exporter of traces cannot be made,
  and whoever asks a second time is told that nothing went wrong.
\<close>

lemma failed_otel_is_forgotten:
  assumes "resource_New p d = (Inr (), d1)" and "prometheus_New p d1 = (Inr (), d2)"
    and "cfg_OTLPEndpoint cfg \<noteq> ''''" and "otlptracehttp_New p (trimScheme (cfg_OTLPEndpoint cfg)) d2 = (Inl err, d3)"
  shows "\<exists>c. OTEL p (newContainer cfg) d = ((True, Some err), c, d3) \<and> shutdownOTEL c = None \<and> meter_global c \<and>
    (\<forall>d'. OTEL p c d' = ((True, None), c, d') \<and> container_Close p c d' = (Returned (Inr ()), d'))"
  using assms by (simp add: OTEL_def setup_otel_def newContainer_def container_Close_def Let_def)

text \<open>An interval that is configured as zero or less is taken as it is, and the ticker of \<open>main\<close> panics.\<close>

lemma configured_interval_panics:
  assumes "Getenv ''CYCLE_INTERVAL'' = text" and "text \<noteq> ''''" and "ParseDuration text = Inr d" and "sint d \<le> 0"
  shows "cycle_ticker (LoadConfig Getenv ParseDuration) = Panicked ''non-positive interval for NewTicker'' ''''"
  using assms by (simp add: cycle_ticker_def LoadConfig_def getEnvOrDefault_def parseDurationOrDefault_def NewTicker_def)

subsection \<open>The loop\<close>

text \<open>C31: \<open>main\<close> numbers its cycles one after the other, whatever becomes of the earlier ones and whatever the rest of
  the program does in between: the answer in place i is that of submitting the request number i + 1, the
  numbers have no gap although submissions fail, and the loop submits one cycle more than it sees ticks
  before it is told to stop.\<close>

theorem cycles_are_numbered:
  assumes "main_loop def mar cfg cases meanwhile n g = (rs, left, g')"
  shows "(\<forall>i < length rs. \<exists>gi. rs ! i = (n + 1 + int i, fst (submitCycle def mar cfg (n + 1 + int i) gi))) \<and>
    (left \<longrightarrow> (\<exists>rest. cases = replicate (length rs - 1) MainTicked @ MainDone # rest)) \<and> rs \<noteq> []"
  using assms
proof (induction cases arbitrary: meanwhile n g rs)
  case Nil
  then have "rs = [(n + 1, fst (submitCycle def mar cfg (n + 1) g))] \<and> \<not> left"
    by (auto simp: main_loop.simps [of _ _ _ "[]"] Let_def split: prod.splits)
  then show ?case by auto
next
  case (Cons c cs)
  obtain r g1 where s: "submitCycle def mar cfg (n + 1) g = (r, g1)" by fastforce
  show ?case
  proof (cases "c = MainTicked \<and> meanwhile \<noteq> []")
    case False
    then have "rs = [(n + 1, r)] \<and> (left \<longrightarrow> c = MainDone)"
      using Cons.prems s by (cases c; cases meanwhile) (simp_all add: main_loop.simps [of _ _ _ "c # cs" for c] Let_def)
    moreover have "\<exists>gi. r = fst (submitCycle def mar cfg (n + 1) gi)" using s by (metis fst_conv)
    ultimately show ?thesis by auto
  next
    case True
    then obtain f fs where t: "c = MainTicked" "meanwhile = f # fs" by (cases meanwhile) auto
    obtain rs1 left1 g2 where rest: "main_loop def mar cfg cs fs (n + 1) (f g1) = (rs1, left1, g2)"
      by (cases "main_loop def mar cfg cs fs (n + 1) (f g1)")
    then have rs: "rs = (n + 1, r) # rs1" "left1 = left" "g2 = g'"
      using Cons.prems s t by (simp_all add: main_loop.simps [of _ _ _ "MainTicked # cs"] Let_def)
    note IH = Cons.IH [OF rest [unfolded rs(2,3)]]
    have "\<exists>gi. rs ! i = (n + 1 + int i, fst (submitCycle def mar cfg (n + 1 + int i) gi))" if "i < length rs" for i
    proof (cases i)
      case 0
      then show ?thesis using rs(1) s by (auto intro!: exI [of _ g])
    next
      case (Suc j)
      with that rs(1) IH obtain gi where "rs1 ! j = (n + 1 + 1 + int j, fst (submitCycle def mar cfg (n + 1 + 1 + int j) gi))"
        by auto
      then show ?thesis using Suc rs(1) by (intro exI [of _ gi]) (simp add: ac_simps)
    qed
    moreover have "\<exists>rest. c # cs = replicate (length rs - 1) MainTicked @ MainDone # rest" if left
    proof -
      from IH that obtain rest where "cs = replicate (length rs1 - 1) MainTicked @ MainDone # rest" "rs1 \<noteq> []" by blast
      then show ?thesis using rs(1) t(1) by (cases rs1) auto
    qed
    ultimately show ?thesis using rs(1) by blast
  qed
qed

theorem cycles_are_numbered_witness:
  "\<exists>r1 r2 g'. main_loop wrangler1 (\<lambda>req. Inr (go_dec (CycleNum req))) config1 [MainTicked, MainDone] [\<lambda>g. g] 0
     (default_engine 4 env1) = ([(1, r1), (2, r2)], True, g')"
proof -
  obtain rs left g' where m: "main_loop wrangler1 (\<lambda>req. Inr (go_dec (CycleNum req))) config1 [MainTicked, MainDone] [\<lambda>g. g] 0
     (default_engine 4 env1) = (rs, left, g')" by (metis prod_cases3)
  have "left" using m by (simp add: main_loop.simps Let_def case_prod_unfold)
  with cycles_are_numbered [OF m] obtain rest
    where n: "\<forall>i < length rs. \<exists>gi. rs ! i = (0 + 1 + int i, fst (submitCycle wrangler1 (\<lambda>req. Inr (go_dec (CycleNum req))) config1 (0 + 1 + int i) gi))"
      and "[MainTicked, MainDone] = replicate (length rs - 1) MainTicked @ MainDone # rest" "rs \<noteq> []" by blast
  then have "length rs = 2" by (cases rs; cases "length rs - 1"; cases "length rs - 2") auto
  then obtain x y where "rs = [x, y]" by (auto simp: numeral_2_eq_2 length_Suc_conv)
  with n [rule_format, of 0] n [rule_format, of 1] m \<open>left\<close> show ?thesis by auto
qed

end
