(* ===== verification/ClientTheorems.thy ===== *)
theory ClientTheorems
  imports Examples
begin

section \<open>What a client sees\<close>

text \<open>
  From the submission of a workflow to the answer: what \<open>Submit\<close> stores, what a handle reads, and the
  whole way of a request through the engine.
\<close>

subsection \<open>Handles\<close>

lemma get_record_row:
  assumes "no_fault (the_store (the_env g))" and "row_at c_id wid (workflows (the_store (the_env g))) = Some r"
    and "scanWorkflow r = Inr w"
  shows "fst (get_record wid g) = Inr w" and "leases (snd (get_record wid g)) = leases g"
  using assms by (simp_all add: get_record_def on_env_def on_store_def Get_def db_call_no_fault)

lemma Status_row:
  assumes "no_fault (the_store (the_env g))" and "row_at c_id wid (workflows (the_store (the_env g))) = Some r"
    and "scanWorkflow r = Inr w"
  shows "fst (Status wid g) = Inr (if wr_Status w = StatusPending \<and> wid \<in> leases g then StatusRunning else wr_Status w)"
    and "fst (RawResult wid g) = Inr (wr_Result w)"
  using get_record_row [OF assms]
  by (auto simp: Status_def RawResult_def deriveStatus_def IsHeld_def split: prod.splits)

lemma Submit_created:
  assumes "Submit d mar req opts g = (Inr wid, g')"
  obtains payload r' s s' where "mar req = Inr payload"
    "Create (submit_record d wid payload) s = (Inr (), r', s')" "s = the_store (the_env g)"
    "the_store (the_env g') = s'" "leases g' = leases g"
proof -
  obtain w1 g1 where g1: "(if fold (\<lambda>opt c. opt c) opts '''' = '''' then generateID g
      else (fold (\<lambda>opt c. opt c) opts '''', g)) = (w1, g1)"
    by (cases "if fold (\<lambda>opt c. opt c) opts '''' = '''' then generateID g else (fold (\<lambda>opt c. opt c) opts '''', g)")
  then have fields: "the_store (the_env g1) = the_store (the_env g)" "leases g1 = leases g"
    by (auto simp: generateID_def on_env_def idFunc_def split: if_splits)
  obtain payload where payload: "mar req = Inr payload"
    using assms g1 by (cases "mar req") (auto simp: Submit_def Let_def split: if_splits)
  obtain res r' s' where c: "Create (submit_record d w1 payload) (the_store (the_env g1)) = (res, r', s')"
    by (cases "Create (submit_record d w1 payload) (the_store (the_env g1))")
  have "Submit d mar req opts g = (case res of
      Inl err \<Rightarrow> (Inl (WrapError ''create workflow'' err), g1\<lparr>the_env := (the_env g1)\<lparr>the_store := s'\<rparr>\<rparr>)
    | Inr _ \<Rightarrow> (Inr w1, g1\<lparr>the_env := (the_env g1)\<lparr>the_store := s'\<rparr>\<rparr>))"
    unfolding Submit_def Let_def g1 by (simp add: payload on_env_def on_store_def c split: sum.splits)
  with assms have ok: "res = Inr ()" "w1 = wid" "g' = g1\<lparr>the_env := (the_env g1)\<lparr>the_store := s'\<rparr>\<rparr>"
    by (simp_all split: sum.splits)
  show thesis
    by (rule that [OF payload c [unfolded ok] fields(1)]) (simp_all add: ok fields)
qed

subsection \<open>From the request to the answer\<close>

lemma Submit_frame:
  assumes "Submit d mar req opts g = (Inr wid, g')"
  shows "registry g' = registry g" and "workers g' = workers g"
proof -
  obtain w1 g1 where g1: "(if fold (\<lambda>opt c. opt c) opts '''' = '''' then generateID g
      else (fold (\<lambda>opt c. opt c) opts '''', g)) = (w1, g1)"
    by (cases "if fold (\<lambda>opt c. opt c) opts '''' = '''' then generateID g else (fold (\<lambda>opt c. opt c) opts '''', g)")
  then have "registry g1 = registry g \<and> workers g1 = workers g"
    by (auto simp: generateID_def on_env_def case_prod_unfold Let_def split: if_splits)
  then show "registry g' = registry g" "workers g' = workers g"
    using assms unfolding Submit_def Let_def g1
    by (auto simp: on_env_def case_prod_unfold Let_def split: sum.splits)
qed

text \<open>C2: a request comes back answered: when a client submits a request of a registered workflow to an engine in
  which nothing else is due, and the workflow answers every such request, then one cycle of the engine
  executes it without an error, and the handle reads it as completed, with exactly the response that
  its code returned, decoded from what the store kept.\<close>

theorem request_is_answered:
  assumes "healthy (the_env g)" and "\<forall>r \<in> set (workflows (the_store (the_env g))). c_status r \<noteq> StatusPending"
    and "registry g (defName d) = Some \<lparr>re_def = erase d, retryPolicy = p\<rparr>" and "1 \<le> workers g"
    and "user_contained \<lparr>re_def = erase d, retryPolicy = p\<rparr>"
    and "\<And>payload. mar req = Inr payload \<Longrightarrow> wd_unmarshal d (Some payload) = Inr req"
    and "\<And>wc e. fst (wd_execute d wc req e) = Returned (Inr resp)"
    and "wd_marshal d resp = Inr data" and "data \<noteq> []" and "unm (Some data) = Inr resp"
    and "Submit d mar req opts g = (Inr wid, g1)" and "wid \<notin> leases g" and "RunOnce g1 = (r, g2)"
  shows "r = Inr () \<and> (\<exists>res. fst (Result unm zero wid g2) = Inr res \<and> res_ID res = wid \<and>
    res_Status res = StatusCompleted \<and> res_Response res = resp)"
proof -
  obtain payload rc s s' where payload: "mar req = Inr payload"
    and c: "Create (submit_record d wid payload) s = (Inr (), rc, s')" and s: "s = the_store (the_env g)"
    and s': "the_store (the_env g1) = s'" and ls: "leases g1 = leases g"
    by (rule Submit_created [OF assms(11)])
  have nf: "no_fault s" and wf: "wf_store s" using assms(1) s by (simp_all add: healthy_def)
  have "wr_Status (submit_record d wid payload) = StatusPending" "valid_time (wr_RetryAfter (submit_record d wid payload))"
    by (simp_all add: submit_record_def)
  note ok = Create_ok [OF nf wf this c]
  define row where "row = row_of_record rc (nowFn s (nowCalls s))"
  have rc: "wr_ID rc = wid" "wr_Type rc = defName d" "wr_Status rc = StatusPending" "wr_Signal rc = SignalNone"
    "wr_Payload rc = Some payload" "wr_RetryAfter rc = zeroTime" "wr_OCCVersion rc = 1"
    using ok(1) by (simp_all add: submit_record_def)
  have row: "c_id row = wid" "c_status row = StatusPending" "c_signal row = SignalNone" "c_retry_after row = ''''" "c_occ_version row = 1"
    using rc by (simp_all add: row_def row_of_record_def formatTime_def)
  have rows: "workflows s' = workflows s @ [row]"
    using c nf ok(1) by (auto simp: Create_def now_def db_call_no_fault Let_def row_def split: if_splits)
  have due: "filter (schedulable t) (workflows s') = [row]" for t
    using assms(2) row by (auto simp: rows s schedulable_def filter_empty_conv)
  have list: "ListSchedulable n s' = (Inr [rc], s'\<lparr>nowCalls := Suc (nowCalls s'), dbCalls := Suc (Suc (dbCalls s'))\<rparr>)"
    if "1 \<le> n" for n
    using that ok(3,4) by (simp add: ListSchedulable_def now_def db_call_no_fault due sql_limit_def row_def Let_def)
  define e1 where "e1 = (the_env g1)\<lparr>the_store := s'\<lparr>nowCalls := Suc (nowCalls s'), dbCalls := Suc (Suc (dbCalls s'))\<rparr>\<rparr>"
  have listed: "on_env (on_store (ListSchedulable (workers g1))) g1 = (Inr [rc], g1\<lparr>the_env := e1\<rparr>)"
    using list [of "workers g1"] assms(4) Submit_frame [OF assms(11)] by (simp add: on_env_def on_store_def s' e1_def)
  have e1: "healthy e1" "row_at c_id (wr_ID rc) (workflows (the_store e1)) = Some row"
    using ok(2,4,5) rc(1) by (simp_all add: healthy_def e1_def row_def submit_record_def)
  let ?entry = "\<lparr>re_def = erase d, retryPolicy = p\<rparr>"
  obtain wc e0 k t u where t: "good_time t" and fine: "fst (run_leased ?entry rc e1) = Inr ()"
    and u: "u = decide (retryPolicy ?entry) (wr_Attempts rc) (engineNow e1 k)
         (if c_signal row = SignalCancelRequested then Inl ErrCancelled
          else panicToError (fst (d_execute (re_def ?entry) wc (wr_Payload rc) e0)))"
    and after: "row_at c_id (wr_ID rc) (workflows (the_store (snd (run_leased ?entry rc e1)))) = Some (occ_row u t row)"
    and keep: "occ_time_ok u \<longrightarrow> wf_store (the_store (snd (run_leased ?entry rc e1)))"
    and nf': "no_fault (the_store (snd (run_leased ?entry rc e1)))"
    and "engineNow (snd (run_leased ?entry rc e1)) = engineNow e1"
    and "c_signal row = SignalCancelRequested \<longrightarrow> world (snd (run_leased ?entry rc e1)) = world e1"
    by (rule run_leased_healthy [OF e1(1,2) _ assms(5)]) (simp add: row(5) rc(7))
  have "fst (executeWorkflow d wc (Some payload) e0) = Returned (Inr data)"
    using assms(6) [OF payload] assms(7) [of wc e0] assms(8)
    by (simp add: executeWorkflow_def case_prod_unfold)
  then have u': "u = OccStatus StatusCompleted (Some data)"
    using u row(3) rc(5) by (simp add: erase_def decide_def SignalCancelRequested_def SignalNone_def)
  have "run_record rc (g1\<lparr>the_env := e1\<rparr>) = (Inr (), g1\<lparr>the_env := snd (run_leased ?entry rc e1)\<rparr>)"
    using RunWorkflow_free [of "registry g1" rc ?entry "leases g1" e1] assms(3,12) Submit_frame(1) [OF assms(11)] rc(1,2) fine
    by (simp add: run_record_def ls)
  then have once: "r = Inr ()" "g2 = g1\<lparr>the_env := snd (run_leased ?entry rc e1)\<rparr>"
    using assms(13) by (simp_all add: RunOnce_def listed)
  let ?row = "occ_row u t row"
  have wf2: "wf_store (the_store (the_env g2))" using keep by (simp add: once(2) u' occ_time_ok_def)
  then have "wf_workflow_row ?row"
    using row_at_mem [OF after] by (simp add: once(2) wf_store_def)
  then obtain rc2 where rc2: "scanWorkflow ?row = Inr rc2" using scanWorkflow_ok by blast
  note f = scanWorkflow_fields [OF rc2]
  have "fst (get_record wid g2) = Inr rc2"
    by (rule get_record_row(1) [OF _ _ rc2]) (use nf' after rc(1) in \<open>simp_all add: once(2)\<close>)
  then have "fst (Result unm zero wid g2) = Inr \<lparr>res_ID = wid, res_Type = wr_Type rc2, res_Version = wr_Version rc2,
      res_Status = StatusCompleted, res_Response = resp, res_Error = wr_Error rc2\<rparr>"
    using f assms(9,10) row(1) unfolding Result_def case_prod_unfold Let_def
    by (simp add: u' deriveStatus_def)
  with once(1) show ?thesis by simp
qed

definition demo_hello :: "(string, string, nat) WorkflowDef" where
  "demo_hello = Define ''hello'' ''v1'' (\<lambda>d. case d of None \<Rightarrow> Inl (ErrorString ''unexpected end of JSON input'') | Some x \<Rightarrow> Inr x)
     (\<lambda>resp. Inr resp) (\<lambda>wc req e. (Returned (Inr (''hello '' @ req)), e))"

definition hello_engine :: "nat engine" where
  "hello_engine = Register demo_hello [] (default_engine 1 (env1\<lparr>the_store := store1\<lparr>workflows := [row1\<lparr>c_status := StatusFailed\<rparr>]\<rparr>\<rparr>))"

theorem request_is_answered_witness:
  "\<exists>res. fst (Result (\<lambda>d. case d of None \<Rightarrow> Inl ErrCancelled | Some x \<Rightarrow> Inr x) ''''
     ''w2'' (snd (RunOnce (snd (Submit demo_hello (\<lambda>req. Inr req) ''world'' [WithID ''w2''] hello_engine))))) = Inr res \<and>
     res_Response res = ''hello world''"
proof -
  have wf: "wf_store (store1\<lparr>workflows := [row1\<lparr>c_status := StatusFailed\<rparr>]\<rparr>)"
    using wf_store1 by (simp add: wf_store_def wf_workflow_row_def)
  have sub: "Submit demo_hello (\<lambda>req. Inr req) ''world'' [WithID ''w2''] hello_engine =
      (Inr ''w2'', snd (Submit demo_hello (\<lambda>req. Inr req) ''world'' [WithID ''w2''] hello_engine))"
    by (simp add: Submit_def WithID_def on_env_def on_store_def hello_engine_def Register_def register_def default_engine_def
        Create_def now_def db_call_def store1_def env1_def submit_record_def row_at_def Let_def)
  let ?s = "store1\<lparr>workflows := [row1\<lparr>c_status := StatusFailed\<rparr>]\<rparr>" and ?unm = "\<lambda>d. case d of None \<Rightarrow> Inl ErrCancelled | Some x \<Rightarrow> Inr x"
  have "fst (RunOnce (snd (Submit demo_hello (\<lambda>req. Inr req) ''world'' [WithID ''w2''] hello_engine))) = Inr () \<and>
    (\<exists>res. fst (Result ?unm '''' ''w2'' (snd (RunOnce (snd (Submit demo_hello (\<lambda>req. Inr req) ''world'' [WithID ''w2''] hello_engine))))) = Inr res \<and>
      res_ID res = ''w2'' \<and> res_Status res = StatusCompleted \<and> res_Response res = ''hello world'')"
  proof (rule request_is_answered [OF _ _ _ _ _ _ _ _ _ _ sub _ prod.collapse [symmetric]])
    show "registry hello_engine (defName demo_hello) = Some \<lparr>re_def = erase demo_hello, retryPolicy = DefaultRetryPolicy\<rparr>"
      by (simp add: hello_engine_def Register_def register_def erase_def)
    show "user_contained \<lparr>re_def = erase demo_hello, retryPolicy = DefaultRetryPolicy\<rparr>"
      by (auto simp: user_contained_def contained_def erase_def executeWorkflow_def demo_hello_def Define_def split: option.split)
  qed (simp_all add: hello_engine_def healthy_def Register_def register_def default_engine_def demo_hello_def Define_def
      NewMemoryLeaseStore_def wf [unfolded status_defs] status_defs)
  then show ?thesis by blast
qed

end
