(* ===== verification/Spec2Isabelle.thy ===== *)
theory Spec2Isabelle
  imports StoreTheorems ExecutionTheorems ContractTheorems WorkflowTheorems TelemetryTheorems LifecycleTheorems FileOpsTheorems ContainerTheorems ClientTheorems
begin

text \<open>
  A verification development for the workflow engine \<^verbatim>\<open>flicker\<close> (package \<^verbatim>\<open>flicker\<close> at
  \<^verbatim>\<open>src/\<close>), its store \<^verbatim>\<open>src/sqlite\<close>, its contract extractor \<^verbatim>\<open>src/contract\<close>, the workflows of
  \<^verbatim>\<open>src/workflows\<close> and the example \<^verbatim>\<open>src/examples/fileops\<close>.

  \<^bold>\<open>The program.\<close> A workflow is a Go function that calls durable steps. The first execution of a step
  runs its function and saves the result; a later execution of the same workflow is answered from
  the saved result. The engine polls a store for pending workflows, executes each under a lease, and
  turns the error of the execution into one versioned update of the workflow's row: completed,
  failed, cancelled, suspended until a time, or pending again after a delay. Suspended workflows
  come back when their time has passed or when the event they wait for is delivered.

  \<^bold>\<open>Theories and code.\<close>
  \<^item> \<^verbatim>\<open>Prelude\<close>: lists, keyed rows and words; nothing of the program.
  \<^item> \<^verbatim>\<open>TimeText\<close>: \<^verbatim>\<open>time.Time\<close> in UTC and the RFC3339Nano text that \<^verbatim>\<open>formatTime\<close> writes, \<^verbatim>\<open>time.Parse\<close>
    reads and SQL compares as text. Instants are counted in nanoseconds from year 1.
  \<^item> \<^verbatim>\<open>GoErrors\<close>: \<^verbatim>\<open>errors.go\<close>, \<^verbatim>\<open>suspend.go\<close>, \<^verbatim>\<open>panic.go\<close>. An error is a tree of wrappers; \<open>errors.As\<close>
    and \<open>errors.Is\<close> are walks along it. A Go call that can panic is a \<open>go_outcome\<close>.
  \<^item> \<^verbatim>\<open>StoreTypes\<close>: \<^verbatim>\<open>flicker.go\<close>, \<^verbatim>\<open>store.go\<close>. Durations are 64-bit words.
  \<^item> \<^verbatim>\<open>SqliteStore\<close>: every method of \<^verbatim>\<open>sqlite.go\<close>. The tables are lists of rows in insertion order, each
    SQL statement an update or a selection over them; \<open>db_call\<close> may fail a statement as the driver
    reports it (\<open>dbFault\<close>, an arbitrary stream), and \<open>in_tx\<close> restores the tables when a transaction
    returns an error. The clock is an arbitrary stream of instants.
  \<^item> \<^verbatim>\<open>StoreInv\<close>, \<^verbatim>\<open>StoreProps\<close>, \<^verbatim>\<open>StoreTheorems\<close>: the table invariant (unique keys, texts that parse,
    versions from one), what every method keeps of it, histories of calls (\<open>store_call\<close>, one
    constructor per method of \<^verbatim>\<open>WorkflowStore\<close>), and the properties of the store.
  \<^item> \<^verbatim>\<open>OccContract\<close>: optimistic concurrency as an interface (\<open>occ_store\<close>) and its interpretation by the
    SQL updates: of several updates that rest on one version at most one succeeds.
  \<^item> \<^verbatim>\<open>StepRun\<close>: \<^verbatim>\<open>run.go\<close>, \<^verbatim>\<open>context.go\<close>, \<^verbatim>\<open>provider.go\<close>, \<^verbatim>\<open>providers.go\<close>. The context that a workflow sees is
    \<open>wctx\<close>, the mutable part (store, clock, identifiers, seen names, counters, the world outside)
    is \<open>env\<close>.
  \<^item> \<^verbatim>\<open>Replay\<close>: the step table as an interface (\<open>keyed_table\<close>), and workflows as trees of durable calls with
    pure code between them (\<open>wprog\<close>), on which replay is proved.
  \<^item> \<^verbatim>\<open>Lease\<close>: \<^verbatim>\<open>lease.go\<close> and the contract of \<^verbatim>\<open>LeaseStore\<close>.
  \<^item> \<^verbatim>\<open>ParallelBranches\<close>: \<^verbatim>\<open>parallel.go\<close>. A goroutine is a process of atomic actions; a schedule is any
    list of branch numbers. \<^verbatim>\<open>Interference\<close>: rely and guarantee for such processes, with what branches
    promise each other as an interface (\<open>sharing\<close>).
  \<^item> \<^verbatim>\<open>Runner\<close>: \<^verbatim>\<open>runner.go\<close> and the type-erased definitions of \<^verbatim>\<open>registry.go\<close>.
  \<^item> \<^verbatim>\<open>Engine\<close>: \<^verbatim>\<open>engine.go\<close>, \<^verbatim>\<open>registry.go\<close>, \<^verbatim>\<open>trigger.go\<close>, the poll of \<^verbatim>\<open>scheduler.go\<close> and the tick of
    \<^verbatim>\<open>promoter.go\<close>.
  \<^item> \<^verbatim>\<open>System\<close>: \<open>Engine.Start\<close> with its goroutines as a step relation over the store, the queue, the
    executions in flight and the leases; workers, promoter and callers of the library interleave at
    single store calls, and the process may stop at any point.
  \<^item> \<^verbatim>\<open>Construction\<close>: the options and \<open>NewEngine\<close> of \<^verbatim>\<open>engine.go\<close>, \<^verbatim>\<open>pool.go\<close>, and the loops of
    \<^verbatim>\<open>scheduler.go\<close> and \<^verbatim>\<open>promoter.go\<close> by the cases their \<open>select\<close> takes.
  \<^item> \<^verbatim>\<open>Lifecycle\<close>, \<^verbatim>\<open>LifecycleTheorems\<close>: \<open>Engine.Start\<close> from its call to its return, with the nudge channel,
    the hand-over of records, the wait group and the drain timer: a step relation that refines the one
    of \<^verbatim>\<open>System\<close>.
  \<^item> \<^verbatim>\<open>Workflows\<close>, \<^verbatim>\<open>WorkflowTheorems\<close>: \<^verbatim>\<open>workflows/greeting/v1\<close> and \<^verbatim>\<open>workflows/order/v1\<close>, each \<open>Execute\<close> a
    composition of the calls of \<^verbatim>\<open>run.go\<close> and \<^verbatim>\<open>context.go\<close> with the functions of its steps.
  \<^item> \<^verbatim>\<open>FileOps\<close>, \<^verbatim>\<open>FileOpsTheorems\<close>: \<^verbatim>\<open>examples/fileops\<close>: the workflow with its steps and branches, the event
    bridge, the watch over a cycle, the configuration. The variables the branches share stand beside
    the world. \<^verbatim>\<open>Container\<close>, \<^verbatim>\<open>ContainerTheorems\<close>: \<open>NewStore\<close> of \<^verbatim>\<open>sqlite.go\<close>, the container whose parts are
    built once, and \<open>main\<close>.
  \<^item> \<^verbatim>\<open>Telemetry\<close>, \<^verbatim>\<open>TelemetryTheorems\<close>: \<^verbatim>\<open>otel.go\<close>, \<^verbatim>\<open>semconv\<close> and the calls on them. The events that
    tracers and instruments receive are kept beside the world; the functions with the suffix \<open>_tel\<close>
    are those of the other theories with the calls on the telemetry, which these leave out.
  \<^item> \<^verbatim>\<open>GoTypes\<close>, \<^verbatim>\<open>Shapes\<close>: \<^verbatim>\<open>contract/resolve.go\<close>. The types of \<^verbatim>\<open>go/types\<close> are a datatype in which a
    named type is an index into a table, so that recursive types are finite; the map \<open>seen\<close> is
    threaded through as a set of indices.
  \<^item> \<^verbatim>\<open>ContractDetect\<close>, \<^verbatim>\<open>ContractWalk\<close>, \<^verbatim>\<open>Contract\<close>: \<^verbatim>\<open>contract/detect.go\<close>, \<^verbatim>\<open>contract/walk.go\<close>,
    \<^verbatim>\<open>contract/scan.go\<close>. Syntax trees are a datatype whose nodes carry a number; types, constants and
    uses are look-ups by that number; \<open>ast.Inspect\<close> is a visit that threads the visitor's state.
    \<^verbatim>\<open>ContractTheorems\<close>: what a contract contains; \<^verbatim>\<open>ContractExamples\<close>: two packages, one of them with
    the contract recorded in \<^verbatim>\<open>contract/testdata/simple.golden\<close>.
  \<^item> \<^verbatim>\<open>ExecutionTheorems\<close>: the properties of steps, branches, executions and outcomes;
    \<^verbatim>\<open>ClientTheorems\<close>: the way of a request from \<open>Submit\<close> to the handle that reads the answer;
    \<^verbatim>\<open>Examples\<close>: the concrete states the witnesses use. This theory: the properties that span
    components.

  \<^bold>\<open>What the lemma groups show.\<close> The store: any history keeps the invariant and rows only evolve (the
  version grows, what has ended stays, attempts never decrease); transactions are all or nothing;
  events and deadlines replace a subscription by a step result exactly once; the textual time
  columns round-trip, and compare like the instants except within one second. Steps: a recorded
  step is never run again; executing a workflow whose steps are recorded gives the same result and
  changes nothing; names cannot be reused and scopes cannot collide. Executions: one durable update
  per execution, refused when the record was outdated, the retry limit, the leases; and a request that is submitted comes back with the answer of its code. The system:
  mutual exclusion per workflow and finality of outcomes over all reachable states. Contracts: the
  walk of an \<open>Execute\<close> body is a fold over the calls it meets in source order, each step has the form
  of its type, errors and steps without a static name correspond one to one, and a type is cut
  exactly where it contains itself. The workflows: an order comes back at its payment and ends in two
  executions, a greeting in one. Telemetry: erasing the events from an instrumented execution gives
  the execution, each span is ended, under any schedule of parallel branches, and the gauges are
  balanced. The engine: its life refines the running system, it leaves nothing behind when it returns,
  and once cancelled it returns in every run in which goroutines go on and executions heed the cancellation of
  their context; nudges are not lost, and the parts that \<open>NewEngine\<close> builds fit together for every
  list of options. The example: a cycle dereferences no nil pointer under any schedule of its branches and
  records every file, an event from the pipe finds its cycle, \<open>main\<close> builds everything once and numbers
  its cycles without gaps, and a store that cannot be opened leaks no connection. Several
  theorems record where the code does not do what it means to: a wake-up lost between
  subscribing and suspending, a wait repeated while subscribed, the shift of the retry delay, nil
  results, promotion within a second, calls and branches that contracts miss, answers whose status is
  not looked at, counters that count what was refused, and cancellations of a cycle that nobody sees.

  \<^bold>\<open>Bounds.\<close> No fuel is used: all loops are structural recursions over lists (rows, branches, schedules,
  records, and for a loop around a \<open>select\<close> the cases it takes). A schedule that does not let every
  branch end gives no answer; for every state there is one that does. Times are integers without bound in \<open>TimeText\<close>; the text format is shown correct for the
  years 1 to 9999, which properties state as a hypothesis (\<open>valid_time\<close> and \<open>clock_in_range\<close>). Delays
  and timeouts keep their 64 bits. The number of attempts is assumed non-negative (a Go shift by a
  negative count panics); the rows of the store satisfy it, since \<open>Submit\<close> starts at zero and only
  \<open>SetRetry\<close> changes it. Versions and attempts are unbounded integers where Go has 64 bits.

  \<^bold>\<open>Parameters.\<close> JSON encoding and decoding, the functions of steps, the \<open>Execute\<close> of a workflow, the
  factory, driver faults, clocks, generated identifiers and measured durations are arguments; so are,
  for the order workflow, the HTTP client, the decoders of its answers and the repository, for the
  example the operating system (commands, files, directories), \<open>time.ParseDuration\<close>, the exporters of
  telemetry and the HTTP server, and for \<open>NewStore\<close> the driver. Where a property relies
  on them it says so (a decoder that inverts the encoder, code that does not touch the tables).

  \<^bold>\<open>Not modelled.\<close> Logging; contexts as values (that a context is cancelled is a state of \<^verbatim>\<open>Lifecycle\<close>, a
  call that fails for it is a driver fault), how long a tick or a timer takes, and the third-party pool
  (any queued record may start next); components that a caller hands to an option are values about
  which nothing is known; a context without a store; the panic in the text of a permanent error that wraps nil. In \<open>TimeOutSubscriptions\<close> a failing scan and a
  failing iteration are one fault. \<open>System\<close> lets an execution make the store calls of its workflow
  in any order, so what it proves holds for every workflow body. Of the contract extraction: the
  loading of packages (its result is the argument of \<open>BuildContracts\<close>; the text of a type is a field
  of the type table), numeric escapes in struct tags (such a tag has no value), the position of a
  definition and the struct type that the walker carries and does not use; \<open>sort.Slice\<close>, which may
  order equal keys in any way, is a stable sort. Of the example: the bytes that the health handler
  writes, the function \<open>seedFiles\<close> that nothing calls and the banner; \<open>CycleNum\<close> is an integer without
  bound. The command under \<^verbatim>\<open>src/cmd\<close> prints one line.
\<close>

section \<open>Properties of the whole\<close>

subsection \<open>The running system\<close>

text \<open>C3: a workflow that has completed, failed or been cancelled stays that way: from any state the system
  reaches, under any interleaving of workers, promoter, events, signals, submissions, driver faults
  and restarts, its status, result and error never change again. In particular an execution that
  was started on an outdated record cannot overwrite the outcome.\<close>

theorem finished_is_final:
  assumes "wf_store s" and "sys_step\<^sup>*\<^sup>* (sys_init s) x" and "sys_step\<^sup>*\<^sup>* x x'"
    and "row_at c_id wid (workflows (db x)) = Some r" and "terminal (c_status r)"
  shows "\<exists>r'. row_at c_id wid (workflows (db x')) = Some r' \<and>
    c_status r' = c_status r \<and> c_result r' = c_result r \<and> c_error r' = c_error r"
proof -
  have "sys_inv x" using sys_steps [OF assms(2) sys_init_inv [OF assms(1)]] by simp
  from sys_steps [OF assms(3) this] have "frozen (db x) (db x')" by simp
  with assms(4,5) show ?thesis by (auto simp: frozen_def)
qed

definition done_store :: store where
  "done_store = store1\<lparr>workflows := [row1\<lparr>c_status := StatusCompleted, c_result := Some ''1''\<rparr>]\<rparr>"

lemma wf_done_store: "wf_store done_store"
  using wf_store1 by (simp add: done_store_def wf_store_def wf_workflow_row_def)

theorem finished_is_final_witness:
  "\<exists>r'. row_at c_id ''w1'' (workflows (exec_call (CallPromoteSuspended noon) done_store)) = Some r' \<and>
     c_status r' = StatusCompleted"
proof -
  have step: "sys_step (sys_init done_store) ((sys_init done_store)\<lparr>db := exec_call (CallPromoteSuspended noon) (db (sys_init done_store))\<rparr>)"
    by (rule sys_step.client) simp_all
  have steps: "sys_step\<^sup>*\<^sup>* (sys_init done_store) ((sys_init done_store)\<lparr>db := exec_call (CallPromoteSuspended noon) (db (sys_init done_store))\<rparr>)"
    using step by (rule r_into_rtranclp)
  show ?thesis
    using finished_is_final [OF wf_done_store rtranclp.rtrancl_refl steps, of "''w1''"]
    by (simp add: sys_init_def done_store_def) blast
qed

text \<open>C5: in every state the system reaches, no two executions in flight are of the same workflow, and the
  leases held are exactly those of the executions in flight.\<close>

theorem one_execution_per_workflow:
  assumes "wf_store s" and "sys_step\<^sup>*\<^sup>* (sys_init s) x"
  shows "distinct (map wr_ID (running x)) \<and> held x = wr_ID ` set (running x)"
  using sys_steps [OF assms(2) sys_init_inv [OF assms(1)]] by (simp add: sys_inv_def)

theorem one_execution_per_workflow_witness:
  "\<exists>x. sys_step\<^sup>*\<^sup>* (sys_init store1) x \<and> running x = [record1] \<and> held x = {''w1''}"
proof -
  let ?x0 = "sys_init store1"
  let ?x1 = "?x0\<lparr>db := store1\<lparr>nowCalls := 1, dbCalls := 2\<rparr>, queue := queue ?x0 @ [record1]\<rparr>"
  let ?x2 = "?x1\<lparr>queue := [] @ [], held := {''w1''}, running := running ?x1 @ [record1]\<rparr>"
  have "sys_step ?x0 ?x1" by (rule sys_step.polled [of 1]) (simp add: sys_init_def poll1)
  moreover have "sys_step ?x1 ?x2"
    by (rule sys_step.start) (simp_all add: sys_init_def Acquire_def NewMemoryLeaseStore_def record1_def)
  ultimately have "sys_step\<^sup>*\<^sup>* ?x0 ?x2" by (meson converse_rtranclp_into_rtranclp r_into_rtranclp)
  with one_execution_per_workflow [OF wf_store1 this] show ?thesis
    by (intro exI [of _ ?x2]) (simp add: sys_init_def record1_def)
qed

text \<open>C16: in every state the system reaches, what a worker or the queue holds of a workflow is never newer
  than the store, and if the workflow has not moved on since, it is pending with the number of
  attempts the record shows: an execution that may decide the outcome is one of a workflow that is
  still waiting to be executed.\<close>

theorem records_in_flight_are_snapshots:
  assumes "wf_store s" and "sys_step\<^sup>*\<^sup>* (sys_init s) x" and "w \<in> set (queue x) \<union> set (running x)"
  shows "\<exists>r. row_at c_id (wr_ID w) (workflows (db x)) = Some r \<and> wr_OCCVersion w \<le> c_occ_version r \<and>
    (c_occ_version r = wr_OCCVersion w \<longrightarrow> c_status r = StatusPending \<and> c_attempts r = wr_Attempts w)"
  using sys_steps [OF assms(2) sys_init_inv [OF assms(1)]] assms(3) by (simp add: sys_inv_def snapshot_def)

theorem records_in_flight_are_snapshots_witness:
  "\<exists>r. row_at c_id ''w1'' [row1] = Some r \<and> c_status r = StatusPending"
proof -
  let ?x0 = "sys_init store1"
  let ?x1 = "?x0\<lparr>db := store1\<lparr>nowCalls := 1, dbCalls := 2\<rparr>, queue := queue ?x0 @ [record1]\<rparr>"
  have "sys_step ?x0 ?x1" by (rule sys_step.polled [of 1]) (simp add: sys_init_def poll1)
  then have "sys_step\<^sup>*\<^sup>* ?x0 ?x1" by (rule r_into_rtranclp)
  from records_in_flight_are_snapshots [OF wf_store1 this, of record1] show ?thesis
    by (simp add: sys_init_def record1_def)
qed

subsection \<open>Waiting for events\<close>

text \<open>The first call of \<open>WaitForEvent\<close> for a free correlation key records a subscription whose
  deadline is the clock plus the timeout and suspends until that deadline; the answer is the
  suspension, and no step result is saved.\<close>

theorem wait_subscribes_and_suspends:
  assumes "quiet wc e" and "resolveStepName wc name \<notin> seenSteps e"
    and "stepCache wc (resolveStepName wc name) = None" and "stored wc (resolveStepName wc name) e = None"
    and "row_at k_correlation_key key (subscriptions (the_store e)) = None"
    and "deadline = add_time (engineNow e (engineNows e)) d"
    and "WaitForEvent cd wc name key d e = (r, e')"
  shows "r = Inl (SuspendError deadline) \<and> step_results (the_store e') = step_results (the_store e) \<and>
    (\<exists>b. row_at k_correlation_key key (subscriptions (the_store e')) = Some b \<and>
       k_workflow_id b = wc_id wc \<and> k_step_name b = resolveStepName wc name \<and> k_deadline b = formatTime deadline)"
proof -
  obtain row where "row_at c_id (wc_id wc) (workflows (the_store e)) = Some row"
    "c_signal row \<noteq> SignalCancelRequested" "no_fault (the_store e)"
    using assms(1) by (auto simp: quiet_def)
  with assms(2-7) show ?thesis
    by (auto simp: WaitForEvent_alt Run_def trackStep_def Let_def on_store_def GetSignal_def db_call_no_fault
        lookup_step_def GetStepResult_def stored_def cache_miss_def subscribe_def nowFunc_def
        SaveSubscription_def wait_answer_def row_at_append sub_row_of_def)
qed

theorem wait_subscribes_and_suspends_witness:
  "fst (WaitForEvent num_codec wctx1 ''wait'' ''k'' second env1) = Inl (SuspendError (noon + 1000000000))"
proof -
  obtain r e' where w: "WaitForEvent num_codec wctx1 ''wait'' ''k'' second env1 = (r, e')"
    by (cases "WaitForEvent num_codec wctx1 ''wait'' ''k'' second env1")
  have "add_time noon second = noon + 1000000000" by (simp add: add_time_def second_def)
  with wait_subscribes_and_suspends [OF quiet1 _ _ _ _ _ w, of "noon + 1000000000"] show ?thesis
    by (simp add: stored_def w)
qed

text \<open>C13: an event reaches the step that waits for it: after the event was delivered, the next execution's
  \<open>WaitForEvent\<close> returns the decoded payload, and with the prefetched results it does so even
  without asking the store.\<close>

theorem event_reaches_waiter:
  assumes "no_fault s" and "wf_store s" and "row_at k_correlation_key key (subscriptions s) = Some b"
    and "ResumeSubscription key (Some data) s = (r, s')"
    and "wc_wfType wc = k_type b" and "wc_version wc = k_version b" and "wc_id wc = k_workflow_id b"
    and "n = resolveStepName wc name" and "n = k_step_name b"
    and "step_results (the_store e) = step_results s'" and "quiet wc e" and "n \<notin> seenSteps e"
    and "cache_consistent wc e" and "unmarshal cd (Some data) = Inr v"
  shows "fst (WaitForEvent cd wc name key2 d e) = Inr (Some v)"
proof -
  have r: "r = Inr ()" using ResumeSubscription_known [OF assms(3,1)] assms(4) by (metis fst_conv)
  from ResumeSubscription_ok [OF assms(4) [unfolded r]] obtain t where
    steps: "step_results s' = replace_step (event_row b (Some data) '''' t) (step_results s)"
    and t: "t = nowFn s (nowCalls s)"
    using assms(3) by auto
  have "good_time t" unfolding t using assms(2) by (rule tables_wf.clock)
  then have "settled cd wc n e (Inr (Some v))"
    using assms(5-7,9,10,14)
    by (simp add: settled_def stored_def steps row_at_replace_step step_key_def event_row_def scanStepResult_def
        formatTime_def parseTime_rfc3339nano good_time_def cache_hit_def)
  then obtain e' where "Run cd wc name (subscribe wc n key2 d) e = (Inr (Some v), e')"
    by (rule Run_again [OF assms(11,12,13) _ assms(8)])
  then show ?thesis using assms(8) by (simp add: WaitForEvent_alt wait_answer_def)
qed

definition woken1 :: "nat env" where
  "woken1 = env1\<lparr>the_store := snd (ResumeSubscription ''k'' (Some ''7'') (store1\<lparr>subscriptions := [sub1]\<rparr>))\<rparr>"

lemma woken1_quiet: "quiet wctx1 woken1"
  by (simp add: woken1_def quiet_def SignalCancelRequested_def ResumeSubscription_def in_tx_def db_call_def
      store1_def now_def wake_def sql_update_def no_fault_def)

theorem event_reaches_waiter_witness:
  "fst (WaitForEvent num_codec wctx1 ''wait'' ''k'' second woken1) = Inr (Some 7)"
proof -
  obtain r s' where r: "ResumeSubscription ''k'' (Some ''7'') (store1\<lparr>subscriptions := [sub1]\<rparr>) = (r, s')"
    by (cases "ResumeSubscription ''k'' (Some ''7'') (store1\<lparr>subscriptions := [sub1]\<rparr>)")
  show ?thesis
    by (rule event_reaches_waiter [OF _ wf_store_sub1 _ r, of sub1 _ "''wait''"])
      (use woken1_quiet in \<open>simp_all add: woken1_def r num_codec_def dec_val_def digit_val_def\<close>)
qed

text \<open>C15: a wait that times out says so: after the subscription has been timed out, the next execution's
  \<open>WaitForEvent\<close> returns the timeout error and nothing else.\<close>

theorem timeout_reaches_waiter:
  assumes "wf_store s" and "good_time t" and "TimeOutSubscriptions t s = (Inr m, s')"
    and "b \<in> set (subscriptions s)" and "expired t b"
    and "wc_wfType wc = k_type b" and "wc_version wc = k_version b" and "wc_id wc = k_workflow_id b"
    and "n = resolveStepName wc name" and "n = k_step_name b"
    and "step_results (the_store e) = step_results s'" and "quiet wc e" and "n \<notin> seenSteps e"
    and "cache_consistent wc e"
  shows "fst (WaitForEvent cd wc name key d e) = Inl ErrEventTimeout"
proof -
  have "step_results s' = fold replace_step (map (\<lambda>b. event_row b None ''event_timeout'' t)
      (filter (expired t) (subscriptions s))) (step_results s)"
    using TimeOutSubscriptions_ok [OF assms(3)] by (simp add: fold_map comp_def)
  moreover have "row_at step_key (step_key (event_row b None ''event_timeout'' t)) (fold replace_step (map (\<lambda>b. event_row b None ''event_timeout'' t)
      (filter (expired t) (subscriptions s))) (step_results s)) = Some (event_row b None ''event_timeout'' t)"
    by (rule step_table.look_fold_mem) (use assms(4,5) in \<open>auto simp: step_key_def event_row_def\<close>)
  ultimately have "settled cd wc n e (Inl ErrEventTimeout)"
    using assms(2,6-8,10,11)
    by (simp add: settled_def stored_def step_key_def event_row_def scanStepResult_def formatTime_def
        parseTime_rfc3339nano good_time_def cache_hit_def cachedStepError_def stepErrorTimeout_def)
  then obtain e' where "Run cd wc name (subscribe wc n key d) e = (Inl ErrEventTimeout, e')"
    by (rule Run_again [OF assms(12,13,14) _ assms(9)])
  then show ?thesis using assms(9) by (simp add: WaitForEvent_alt wait_answer_def ErrEventTimeout_def)
qed

theorem timeout_reaches_waiter_witness:
  "\<exists>s'. TimeOutSubscriptions noon (store1\<lparr>subscriptions := [sub1]\<rparr>) = (Inr 1, s') \<and>
     fst (WaitForEvent num_codec wctx1 ''wait'' ''k'' second (env1\<lparr>the_store := s'\<rparr>)) = Inl ErrEventTimeout"
proof -
  let ?s = "store1\<lparr>subscriptions := [sub1]\<rparr>"
  have e: "expired noon sub1" by (simp add: expired_def formatTime_empty_iff noon_def zeroTime_def ns_per_sec_def)
  obtain s' where s': "TimeOutSubscriptions noon ?s = (Inr 1, s')"
    and rest: "workflows s' = wake ''w1'' noon [row1]" "no_fault s'"
    by (simp add: TimeOutSubscriptions_def in_tx_def db_call_def store1_def e Let_def no_fault_def)
  have q: "quiet wctx1 (env1\<lparr>the_store := s'\<rparr>)"
    using rest by (simp add: quiet_def wake_def sql_update_def SignalCancelRequested_def)
  have "fst (WaitForEvent num_codec wctx1 ''wait'' ''k'' second (env1\<lparr>the_store := s'\<rparr>)) = Inl ErrEventTimeout"
    by (rule timeout_reaches_waiter [OF wf_store_sub1 _ s', of sub1 _ "''wait''"]) (use e q in simp_all)
  with s' show ?thesis by blast
qed

text \<open>C40: a wake-up can be lost: when the event arrives between the moment the waiting workflow saved its
  subscription and the moment its execution is recorded as suspended, the delivery succeeds and uses
  up the subscription without waking anything, and the suspension then succeeds too: the workflow
  sleeps until its deadline although its event is there, and no second event can wake it.\<close>

theorem wakeup_can_be_lost:
  assumes "no_fault s" and "wf_store s" and "row_at c_id wid (workflows s) = Some w" and "c_status w = StatusPending"
    and "row_at k_correlation_key key (subscriptions s) = Some b" and "k_workflow_id b = wid"
    and "ResumeSubscription key payload s = (r1, s1)" and "no_fault s1"
    and "Suspend wid deadline (c_occ_version w) s1 = (r2, s2)"
  shows "r1 = Inr () \<and> r2 = Inr () \<and> row_at k_correlation_key key (subscriptions s1) = None \<and>
    (\<exists>w2. row_at c_id wid (workflows s2) = Some w2 \<and> c_status w2 = StatusSuspended \<and>
       c_retry_after w2 = formatTime deadline)"
proof -
  have r: "r1 = Inr ()" using ResumeSubscription_known [OF assms(5,1)] assms(7) by (metis fst_conv)
  from ResumeSubscription_ok [OF assms(7) [unfolded r]] obtain t' where
    s1: "subscriptions s1 = delete_sub key (subscriptions s)" "workflows s1 = wake wid t' (workflows s)"
    using assms(5,6) by auto
  have row: "row_at c_id wid (workflows s1) = Some w"
    using assms(3,4) by (simp add: s1(2) row_at_wake)
  have "wf_store s1"
    using tables_wf.ResumeSubscription_keeps [OF assms(2), of key payload] assms(7) by simp
  then have "unique_ids s1" by (simp add: unique_ids_def wf_store_def)
  from occ_apply_healthy [OF assms(8) this row refl, of "OccSuspend deadline"] assms(9) r s1(1) show ?thesis
    by simp
qed

theorem wakeup_can_be_lost_witness:
  "\<exists>s1 s2. ResumeSubscription ''k'' (Some ''7'') (store1\<lparr>subscriptions := [sub1]\<rparr>) = (Inr (), s1) \<and>
     Suspend ''w1'' noon 1 s1 = (Inr (), s2) \<and>
     (\<exists>w2. row_at c_id ''w1'' (workflows s2) = Some w2 \<and> c_status w2 = StatusSuspended)"
proof -
  let ?s = "store1\<lparr>subscriptions := [sub1]\<rparr>"
  obtain r1 s1 where r1: "ResumeSubscription ''k'' (Some ''7'') ?s = (r1, s1)"
    by (cases "ResumeSubscription ''k'' (Some ''7'') ?s")
  obtain r2 s2 where r2: "Suspend ''w1'' noon 1 s1 = (r2, s2)" by (cases "Suspend ''w1'' noon 1 s1")
  have "no_fault s1"
    using r1 by (auto simp: ResumeSubscription_def in_tx_def db_call_def store1_def now_def no_fault_def)
  with wakeup_can_be_lost [OF _ wf_store_sub1 _ _ _ _ r1 _ r2 [folded row1_fields(7)]] r1 r2 show ?thesis
    by simp blast
qed

text \<open>A waiting step that is executed again while its subscription is still there does not go on
  waiting: saving the subscription violates the unique key, and the call returns an error that asks
  for a retry instead of the suspension. A second parallel branch that wakes the workflow, or a
  promotion before the subscription has timed out, leads there.\<close>

theorem waiting_again_fails:
  assumes "quiet wc e" and "resolveStepName wc name \<notin> seenSteps e"
    and "stepCache wc (resolveStepName wc name) = None" and "stored wc (resolveStepName wc name) e = None"
    and "row_at k_correlation_key key (subscriptions (the_store e)) = Some b"
    and "k_workflow_id b = wc_id wc" and "k_step_name b = resolveStepName wc name"
    and "WaitForEvent cd wc name key d e = (r, e')"
  shows "\<exists>err. r = Inl err \<and> transient err"
proof -
  obtain row where "row_at c_id (wc_id wc) (workflows (the_store e)) = Some row"
    "c_signal row \<noteq> SignalCancelRequested" "no_fault (the_store e)"
    using assms(1) by (auto simp: quiet_def)
  with assms(2-5,8) show ?thesis
    by (auto simp: WaitForEvent_alt Run_def trackStep_def Let_def on_store_def GetSignal_def db_call_no_fault
        lookup_step_def GetStepResult_def stored_def cache_miss_def subscribe_def nowFunc_def
        SaveSubscription_def wait_answer_def transient_def is_event_timeout_def)
qed

theorem waiting_again_fails_witness:
  "\<exists>err. fst (WaitForEvent num_codec wctx1 ''wait'' ''k'' second (env1\<lparr>the_store := store1\<lparr>subscriptions := [sub1]\<rparr>\<rparr>)) = Inl err \<and>
     transient err"
proof -
  let ?e = "env1\<lparr>the_store := store1\<lparr>subscriptions := [sub1]\<rparr>\<rparr>"
  obtain r e' where w: "WaitForEvent num_codec wctx1 ''wait'' ''k'' second ?e = (r, e')"
    by (cases "WaitForEvent num_codec wctx1 ''wait'' ''k'' second ?e")
  have q: "quiet wctx1 ?e" by (simp add: quiet_def SignalCancelRequested_def)
  from waiting_again_fails [OF q _ _ _ _ _ _ w, of sub1] w show ?thesis by (simp add: stored_def)
qed

subsection \<open>The engine and its handles\<close>

text \<open>A submitted workflow is there: when \<open>Submit\<close> returns an id, the status of that id is pending, or
  running while a lease on it is held, and its result is empty; submitting with the same id again
  fails and changes no table.\<close>

theorem submitted_workflow_is_pending:
  assumes "healthy (the_env g)" and "Submit d mar req opts g = (Inr wid, g')"
  shows "fst (Status wid g') = Inr (if wid \<in> leases g then StatusRunning else StatusPending) \<and>
    fst (RawResult wid g') = Inr None \<and>
    (wid \<noteq> '''' \<longrightarrow> (\<forall>req2. (\<exists>err. fst (Submit d mar req2 [WithID wid] g') = Inl err) \<and>
       tables_of (the_store (the_env (snd (Submit d mar req2 [WithID wid] g')))) = tables_of (the_store (the_env g'))))"
proof -
  obtain payload r' s s' where payload: "mar req = Inr payload"
    and c: "Create (submit_record d wid payload) s = (Inr (), r', s')" and s: "s = the_store (the_env g)"
    and s': "the_store (the_env g') = s'" and ls: "leases g' = leases g"
    by (rule Submit_created [OF assms(2)])
  have nf: "no_fault s" and wf: "wf_store s" using assms(1) s by (simp_all add: healthy_def)
  have "wr_Status (submit_record d wid payload) = StatusPending" "valid_time (wr_RetryAfter (submit_record d wid payload))"
    by (simp_all add: submit_record_def)
  note ok = Create_ok [OF nf wf this c]
  have row: "row_at c_id wid (workflows s') = Some (row_of_record r' (nowFn s (nowCalls s)))"
    and r': "wr_Status r' = StatusPending" "wr_Result r' = None"
    using ok(1,2) by (simp_all add: submit_record_def)

  have again: "(\<exists>err. fst (Submit d mar req2 [WithID wid] g') = Inl err) \<and>
       tables_of (the_store (the_env (snd (Submit d mar req2 [WithID wid] g')))) = tables_of s'"
    if "wid \<noteq> ''''" for req2
  proof (cases "mar req2")
    case (Inl err)
    with that s' show ?thesis by (simp add: Submit_def WithID_def)
  next
    case (Inr p2)
    have taken: "row_at c_id (wr_ID (submit_record d wid p2)) (workflows s') \<noteq> None"
      using row by (simp add: submit_record_def)
    obtain err r2 s2 where "Create (submit_record d wid p2) s' = (Inl err, r2, s2)" "tables_of s2 = tables_of s'"
      using Create_taken [OF ok(4) taken] by (cases "Create (submit_record d wid p2) s'") auto
    with Inr that s' show ?thesis by (simp add: Submit_def WithID_def on_env_def on_store_def)
  qed
  show ?thesis
    using Status_row [of g' wid _ r'] ok(3,4) row r' s' ls again by simp
qed

definition engine1 :: "nat engine" where
  "engine1 = Register demo_count [] (default_engine 1 env1)"

theorem submitted_workflow_is_pending_witness:
  "\<exists>g'. Submit demo_count (\<lambda>_. Inr ''1'') () [WithID ''w2''] engine1 = (Inr ''w2'', g') \<and>
     fst (Status ''w2'' g') = Inr StatusPending"
proof -
  have h: "healthy (the_env engine1)" and l: "leases engine1 = {}"
    by (simp_all add: engine1_def Register_def register_def default_engine_def healthy_def NewMemoryLeaseStore_def)
  obtain g' where g': "Submit demo_count (\<lambda>_. Inr ''1'') () [WithID ''w2''] engine1 = (Inr ''w2'', g')"
    by (simp add: Submit_def WithID_def on_env_def on_store_def engine1_def Register_def register_def default_engine_def
        Create_def now_def db_call_def store1_def env1_def submit_record_def Let_def)
  from submitted_workflow_is_pending [OF h g'] l g' show ?thesis by simp
qed

text \<open>\<open>RunOnce\<close> executes every listed workflow in order, whether or not earlier ones failed, gives back
  all leases, and reports the error of the first execution that failed, with the id of its workflow,
  or none if all went well.\<close>

theorem run_once_runs_all:
  assumes "on_env (on_store (ListSchedulable (workers g))) g = (Inr ws, g1)"
    and "run_ops (map run_record ws) g1 = (rs, g2)"
  shows "RunOnce g = ((case filter (\<lambda>(w, r). r \<noteq> Inr ()) (zip ws rs) of
      (w, Inl err) # _ \<Rightarrow> Inl (WorkflowExecutionError (wr_ID w) err) | _ \<Rightarrow> Inr ()), g2) \<and> leases g2 = leases g"
proof -
  have runs: "run_records ws f g0 = ((case f of Some err \<Rightarrow> Some err | None \<Rightarrow>
      (case filter (\<lambda>(w, r). r \<noteq> Inr ()) (zip ws (fst (run_ops (map run_record ws) g0))) of
        (w, Inl err) # _ \<Rightarrow> Some (WorkflowExecutionError (wr_ID w) err) | _ \<Rightarrow> None)),
      snd (run_ops (map run_record ws) g0))" for f g0
  proof (induction ws arbitrary: f g0)
    case Nil
    then show ?case by (simp split: option.splits)
  next
    case (Cons w ws)
    obtain r g3 where r: "run_record w g0 = (r, g3)" by (cases "run_record w g0")
    show ?case
    proof (cases r)
      case (Inl err)
      with Cons.IH r show ?thesis by (simp split: option.splits)
    next
      case (Inr u)
      with Cons.IH r show ?thesis by (simp split: option.splits)
    qed
  qed
  have "RunOnce g = ((case filter (\<lambda>(w, r). r \<noteq> Inr ()) (zip ws rs) of
      (w, Inl err) # _ \<Rightarrow> Inl (WorkflowExecutionError (wr_ID w) err) | _ \<Rightarrow> Inr ()), g2)"
    using runs [of None g1] by (auto simp: RunOnce_def assms split: list.splits sum.splits)
  then show ?thesis using RunOnce_leases [of g] by (metis snd_conv)
qed

theorem run_once_runs_all_witness:
  "\<exists>rs g2. run_ops (map run_record [record1]) (snd (on_env (on_store (ListSchedulable 1)) engine1)) = (rs, g2) \<and>
     snd (RunOnce engine1) = g2"
proof -
  have w: "workers engine1 = 1" by (simp add: engine1_def Register_def register_def default_engine_def)
  have l: "on_env (on_store (ListSchedulable (workers engine1))) engine1 =
      (Inr [record1], snd (on_env (on_store (ListSchedulable 1)) engine1))"
    by (simp add: w prod_eq_iff) (simp add: engine1_def Register_def register_def default_engine_def on_store_def
        ListSchedulable_def now_def db_call_def store1_def schedulable_def sql_limit_def scan_row1 env1_def)
  obtain rs g2 where r: "run_ops (map run_record [record1]) (snd (on_env (on_store (ListSchedulable 1)) engine1)) = (rs, g2)"
    by (cases "run_ops (map run_record [record1]) (snd (on_env (on_store (ListSchedulable 1)) engine1))")
  from run_once_runs_all [OF l r] r show ?thesis by auto
qed

end
